(* ===== verification/Prelude.thy ===== *)
theory Prelude
  imports Main "HOL-Library.AList" "HOL-Library.Sublist" "HOL-Library.Char_ord"
begin

text \<open>
  Shared vocabulary of the development: JavaScript strings, results that may be a thrown
  error, insertion-ordered maps, and the list lemmas several components use.

  A JavaScript string is modelled by the list of the bytes of its UTF-8 encoding (a HOL
  \<open>string\<close>). Every delimiter the code looks for ("/", "%", ":", ...) is ASCII, so splitting
  and searching for it on bytes and on UTF-16 code units agree; case conversion is modelled
  on ASCII letters only.
\<close>

named_theorems js_simps \<open>evaluation rules of the string and map operations\<close>
named_theorems res_simps \<open>rules of the result type\<close>

section \<open>Results\<close>

text \<open>
  Thrown values: the built-in errors with their message, an error that carries a status (src/http/errors.ts,
  \<open>HttpError\<close>; the status may be out of the error range, and the object may be frozen), and any other value
  with the text \<open>normalizeError\<close> renders it as.
\<close>

datatype header_entry = One string | Many "string list"

record http_error =
  he_name :: string
  he_status :: nat
  he_message :: string
  he_expose :: bool
  he_code :: "string option"
  he_headers :: "(string \<times> header_entry) list option"
  he_frozen :: bool

datatype js_error =
    TypeError string | RangeError string | PlainError string | SyntaxError string
  | HttpThrown http_error
  | ValueThrown string

type_synonym 'a res = "js_error + 'a"

definition res_bind :: "'a res \<Rightarrow> ('a \<Rightarrow> 'b res) \<Rightarrow> 'b res" where
  "res_bind r f = (case r of Inl e \<Rightarrow> Inl e | Inr a \<Rightarrow> f a)"

abbreviation throw :: "js_error \<Rightarrow> 'a res" where "throw \<equiv> Inl"
abbreviation ok :: "'a \<Rightarrow> 'a res" where "ok \<equiv> Inr"

lemma res_bind_simps [simp, res_simps]:
  "res_bind (Inl e) f = Inl e" "res_bind (Inr a) f = f a"
  by (simp_all add: res_bind_def)

lemma res_bind_ok [res_simps]: "res_bind r f = Inr b \<longleftrightarrow> (\<exists>a. r = Inr a \<and> f a = Inr b)"
  by (cases r) simp_all

lemma res_bind_throw [res_simps]:
  "res_bind r f = Inl e \<longleftrightarrow> r = Inl e \<or> (\<exists>a. r = Inr a \<and> f a = Inl e)"
  by (cases r) simp_all

definition is_ok :: "'a res \<Rightarrow> bool" where "is_ok r = (case r of Inl _ \<Rightarrow> False | Inr _ \<Rightarrow> True)"

lemma is_ok_simps [simp]: "is_ok (Inr a)" "\<not> is_ok (Inl e)"
  by (simp_all add: is_ok_def)

lemma is_ok_iff: "is_ok r \<longleftrightarrow> (\<exists>a. r = Inr a)"
  by (cases r) auto

text \<open>Option values as they arrive: absent, an integer, infinity, anything else.\<close>

datatype js_value = Absent | JInt int | JInfinity | JOther

section \<open>Strings\<close>

text \<open>\<open>s.split(c)\<close> for a one-character separator: never the empty list.\<close>

fun js_split :: "char \<Rightarrow> string \<Rightarrow> string list" where
  "js_split c [] = [[]]"
| "js_split c (x # xs) =
     (if x = c then [] # js_split c xs
      else (case js_split c xs of [] \<Rightarrow> [[x]] | p # ps \<Rightarrow> (x # p) # ps))"

fun js_join :: "string \<Rightarrow> string list \<Rightarrow> string" where
  "js_join d [] = []"
| "js_join d [p] = p"
| "js_join d (p # q # ps) = p @ d @ js_join d (q # ps)"

definition index_of :: "char \<Rightarrow> string \<Rightarrow> nat option" where
  "index_of c s = (if c \<in> set s then Some (length (takeWhile (\<lambda>x. x \<noteq> c) s)) else None)"

definition last_index_of :: "char \<Rightarrow> string \<Rightarrow> nat option" where
  "last_index_of c s = map_option (\<lambda>i. length s - 1 - i) (index_of c (rev s))"

abbreviation starts_with :: "string \<Rightarrow> string \<Rightarrow> bool" where "starts_with p s \<equiv> prefix p s"
abbreviation ends_with :: "string \<Rightarrow> string \<Rightarrow> bool" where "ends_with p s \<equiv> suffix p s"

definition js_slice :: "nat \<Rightarrow> nat \<Rightarrow> string \<Rightarrow> string" where
  "js_slice a b s = take (b - a) (drop a s)"

text \<open>Substring search, \<open>s.indexOf(p, from)\<close> and \<open>s.includes(p)\<close>.\<close>

fun find_from :: "string \<Rightarrow> string \<Rightarrow> nat \<Rightarrow> nat option" where
  "find_from p [] i = (if p = [] then Some i else None)"
| "find_from p (x # xs) i = (if prefix p (x # xs) then Some i else find_from p xs (Suc i))"

definition index_of_str :: "string \<Rightarrow> string \<Rightarrow> nat \<Rightarrow> nat option" where
  "index_of_str p s from = find_from p (drop from s) (min from (length s))"

definition char_lower :: "char \<Rightarrow> char" where
  "char_lower c = (if (of_char c :: nat) \<in> {65..90} then char_of ((of_char c :: nat) + 32) else c)"

definition char_upper :: "char \<Rightarrow> char" where
  "char_upper c = (if (of_char c :: nat) \<in> {97..122} then char_of ((of_char c :: nat) - 32) else c)"

definition to_lower :: "string \<Rightarrow> string" where "to_lower = map char_lower"
definition to_upper :: "string \<Rightarrow> string" where "to_upper = map char_upper"

definition is_digit :: "char \<Rightarrow> bool" where
  "is_digit c \<longleftrightarrow> (48::nat) \<le> of_char c \<and> of_char c \<le> (57::nat)"

definition digit_val :: "char \<Rightarrow> nat" where "digit_val c = of_char c - 48"

text \<open>\<open>Number(s)\<close> of a string of decimal digits.\<close>

definition dec_value :: "string \<Rightarrow> nat" where
  "dec_value s = foldl (\<lambda>n c. 10 * n + digit_val c) 0 s"

lemma js_split_not_Nil [simp]: "js_split c s \<noteq> []"
  by (induction s) (auto split: list.splits)

lemma js_split_no_sep: "c \<notin> set s \<Longrightarrow> js_split c s = [s]"
  by (induction s) auto

lemma js_split_parts: "p \<in> set (js_split c s) \<Longrightarrow> c \<notin> set p"
  by (induction s arbitrary: p) (auto split: list.splits if_splits)

lemma js_split_app: "c \<notin> set p \<Longrightarrow> js_split c (p @ c # s) = p # js_split c s"
  by (induction p) (auto split: list.splits)

lemma js_split_append: "js_split c (s @ c # t) = js_split c s @ js_split c t"
proof (induction s)
  case (Cons x s)
  show ?case
  proof (cases "x = c")
    case False
    obtain p ps where "js_split c s = p # ps" by (cases "js_split c s") auto
    with Cons False show ?thesis by simp
  qed (use Cons in simp)
qed simp

lemma js_join_Cons: "ps \<noteq> [] \<Longrightarrow> js_join d (p # ps) = p @ d @ js_join d ps"
  by (cases ps) auto

lemma js_join_split: "js_join [c] (js_split c s) = s"
proof (induction s)
  case (Cons x xs)
  show ?case
  proof (cases "x = c")
    case True
    with Cons show ?thesis by (simp add: js_join_Cons)
  next
    case False
    obtain p ps where "js_split c xs = p # ps" by (cases "js_split c xs") auto
    with Cons False show ?thesis by (cases ps) auto
  qed
qed simp

lemma js_split_join:
  "ps \<noteq> [] \<Longrightarrow> \<forall>p \<in> set ps. c \<notin> set p \<Longrightarrow> js_split c (js_join [c] ps) = ps"
proof (induction ps)
  case (Cons p ps)
  then show ?case
    by (cases "ps = []") (auto simp: js_join_Cons js_split_app js_split_no_sep)
qed simp

lemma index_of_None [simp]: "index_of c s = None \<longleftrightarrow> c \<notin> set s"
  by (simp add: index_of_def)

lemma to_lower_simps [simp]:
  "to_lower [] = []" "to_lower (x # xs) = char_lower x # to_lower xs"
  "to_lower (xs @ ys) = to_lower xs @ to_lower ys" "length (to_lower xs) = length xs"
  by (simp_all add: to_lower_def)

lemma to_upper_simps [simp]:
  "to_upper [] = []" "to_upper (x # xs) = char_upper x # to_upper xs"
  "to_upper (xs @ ys) = to_upper xs @ to_upper ys" "length (to_upper xs) = length xs"
  by (simp_all add: to_upper_def)

section \<open>Insertion-ordered maps\<close>

text \<open>
  A JavaScript \<open>Map\<close> iterates in insertion order and \<open>set\<close> on a present key keeps its place:
  an association list with \<open>AList.update\<close> and \<open>AList.delete\<close>.
\<close>

type_synonym ('k, 'v) js_map = "('k \<times> 'v) list"

definition jm_get :: "('k, 'v) js_map \<Rightarrow> 'k \<Rightarrow> 'v option" where "jm_get m k = map_of m k"
definition jm_set :: "'k \<Rightarrow> 'v \<Rightarrow> ('k, 'v) js_map \<Rightarrow> ('k, 'v) js_map" where
  "jm_set k v m = AList.update k v m"
definition jm_delete :: "'k \<Rightarrow> ('k, 'v) js_map \<Rightarrow> ('k, 'v) js_map" where
  "jm_delete k m = AList.delete k m"
definition jm_has :: "('k, 'v) js_map \<Rightarrow> 'k \<Rightarrow> bool" where "jm_has m k \<longleftrightarrow> jm_get m k \<noteq> None"
abbreviation jm_keys :: "('k, 'v) js_map \<Rightarrow> 'k list" where "jm_keys m \<equiv> map fst m"
abbreviation jm_wf :: "('k, 'v) js_map \<Rightarrow> bool" where "jm_wf m \<equiv> distinct (map fst m)"

text \<open>The contract the components rely on, whatever the representation.\<close>

locale ordered_map =
  fixes get :: "'m \<Rightarrow> 'k \<Rightarrow> 'v option"
    and put :: "'k \<Rightarrow> 'v \<Rightarrow> 'm \<Rightarrow> 'm"
    and del :: "'k \<Rightarrow> 'm \<Rightarrow> 'm"
    and keys :: "'m \<Rightarrow> 'k list"
    and inv :: "'m \<Rightarrow> bool"
  assumes get_put: "get (put k v m) = (get m)(k := Some v)"
    and get_del: "get (del k m) = (get m)(k := None)"
    and keys_put: "keys (put k v m) = (if k \<in> set (keys m) then keys m else keys m @ [k])"
    and keys_get: "k \<in> set (keys m) \<longleftrightarrow> get m k \<noteq> None"
    and keys_del: "inv m \<Longrightarrow> keys (del k m) = filter (\<lambda>x. x \<noteq> k) (keys m)"
    and inv_distinct: "inv m \<Longrightarrow> distinct (keys m)"
    and inv_put: "inv m \<Longrightarrow> inv (put k v m)"
    and inv_del: "inv m \<Longrightarrow> inv (del k m)"
begin

lemma get_put_same: "get (put k v m) k = Some v"
  by (simp add: get_put)

lemma get_put_other: "j \<noteq> k \<Longrightarrow> get (put k v m) j = get m j"
  by (simp add: get_put)

lemma size_put:
  "length (keys (put k v m)) = length (keys m) + (if k \<in> set (keys m) then 0 else 1)"
  by (simp add: keys_put)

lemma size_put_le: "length (keys (put k v m)) \<le> Suc (length (keys m))"
  by (simp add: keys_put)

lemma keys_touch:
  "inv m \<Longrightarrow> get m k = Some w \<Longrightarrow>
     keys (put k v (del k m)) = filter (\<lambda>x. x \<noteq> k) (keys m) @ [k]"
  by (simp add: keys_put keys_del)

end

lemma map_fst_delete: "map fst (AList.delete k m) = filter (\<lambda>x. x \<noteq> k) (map fst m)"
  by (induction m) auto

interpretation jm: ordered_map jm_get jm_set jm_delete "map fst" "\<lambda>m. distinct (map fst m)"
proof (unfold_locales, goal_cases)
  case (1 k v m) then show ?case by (simp add: jm_get_def jm_set_def update_conv' fun_eq_iff)
next
  case (2 k m) then show ?case by (simp add: jm_get_def jm_delete_def delete_conv' fun_eq_iff)
next
  case (3 k v m) then show ?case by (simp add: jm_set_def update_keys)
next
  case (4 k m) then show ?case
    by (simp add: jm_get_def) (metis map_of_eq_None_iff not_None_eq option.distinct(1))
next
  case (5 m k) then show ?case by (simp add: jm_delete_def map_fst_delete)
next
  case (6 m) then show ?case .
next
  case (7 m k v) then show ?case by (simp add: jm_set_def distinct_update)
next
  case (8 m k) then show ?case by (simp add: jm_delete_def map_fst_delete)
qed

lemmas jm_laws [js_simps] =
  jm.get_put jm.get_del jm.keys_put jm.keys_get jm.keys_del jm.inv_put jm.inv_del

lemma jm_set_length: "length (jm_set k v m) = length m + (if jm_get m k = None then 1 else 0)"
  using jm.size_put [of k v m] jm.keys_get [of k m] by simp

lemma jm_get_Nil [simp]: "jm_get [] k = None"
  by (simp add: jm_get_def)

lemma jm_get_Cons [simp]: "jm_get ((j, v) # m) k = (if k = j then Some v else jm_get m k)"
  by (simp add: jm_get_def)

lemma jm_set_eval [js_simps]:
  "jm_set k v [] = [(k, v)]"
  "jm_set k v ((j, w) # m) = (if j = k then (j, v) # m else (j, w) # jm_set k v m)"
  by (simp_all add: jm_set_def)

lemma jm_delete_eval [js_simps]:
  "jm_delete k [] = []"
  "jm_delete k ((j, w) # m) = (if j = k then jm_delete k m else (j, w) # jm_delete k m)"
  by (simp_all add: jm_delete_def)

lemma jm_get_set [simp]: "jm_get (jm_set k v m) j = (if j = k then Some v else jm_get m j)"
  by (simp add: js_simps)

lemma jm_get_delete [simp]: "jm_get (jm_delete k m) j = (if j = k then None else jm_get m j)"
  by (simp add: js_simps)

lemma jm_in_get: "distinct (map fst m) \<Longrightarrow> (j, w) \<in> set m \<longleftrightarrow> jm_get m j = Some w"
  by (simp add: jm_get_def)

lemma jm_get_size:
  "jm_get m k = Some v \<Longrightarrow> (k, v) \<in> set m"
  by (simp add: jm_get_def map_of_SomeD)

section \<open>Lists\<close>

fun first_some :: "('a \<Rightarrow> 'b option) \<Rightarrow> 'a list \<Rightarrow> 'b option" where
  "first_some f [] = None"
| "first_some f (x # xs) = (case f x of None \<Rightarrow> first_some f xs | Some y \<Rightarrow> Some y)"

lemma first_some_None: "first_some f xs = None \<longleftrightarrow> (\<forall>x \<in> set xs. f x = None)"
  by (induction xs) (auto split: option.splits)

lemma first_some_append:
  "first_some f (xs @ ys) = (case first_some f xs of None \<Rightarrow> first_some f ys | Some y \<Rightarrow> Some y)"
  by (induction xs) (auto split: option.splits)

lemma first_some_SomeD: "first_some f xs = Some y \<Longrightarrow> \<exists>x \<in> set xs. f x = Some y"
  by (induction xs) (auto split: option.splits)

definition hd_opt :: "'a list \<Rightarrow> 'a option" where
  "hd_opt xs = (case xs of [] \<Rightarrow> None | x # _ \<Rightarrow> Some x)"

lemma hd_opt_simps [simp]: "hd_opt [] = None" "hd_opt (x # xs) = Some x"
  by (simp_all add: hd_opt_def)

lemma hd_opt_append: "hd_opt (xs @ ys) = (case hd_opt xs of None \<Rightarrow> hd_opt ys | Some x \<Rightarrow> Some x)"
  by (cases xs) auto

lemma hd_opt_in: "hd_opt xs = Some x \<Longrightarrow> x \<in> set xs"
  by (cases xs) auto

lemma hd_opt_None [simp]: "hd_opt xs = None \<longleftrightarrow> xs = []"
  by (cases xs) auto

end
