(* ===== verification/Lifecycle.thy ===== *)
theory Lifecycle
  imports Prelude
begin

text \<open>
  Admission, the in-flight counter and graceful close: src/core/lifecycle.ts,
  src/core/lifecycle-admission.ts and src/core/lifecycle-deadline.ts. A request is a number; its
  closures (\<open>admit\<close>, \<open>refuse\<close>, the promise continuations) are functions of that number. Promise
  resolution puts the continuation on the microtask queue \<open>lc_ready\<close>. The fields from
  \<open>lc_pending\<close> on record where each request is: what the code keeps in closures and contexts.
\<close>

section \<open>Configuration\<close>

datatype reason = RDraining | RConcurrency | RQueue

text \<open>What a refused client gets: the handler's response, or the built-in 503 with its Retry-After.\<close>

datatype rejection = CustomRejection nat | BuiltIn503 "nat option"

datatype strategy_id = FailFast | Queueing | Injected

record overload =
  maxConcurrency :: "nat option"  \<comment> \<open>None: infinity\<close>
  maxQueue :: nat
  queueTimeoutMs :: nat
  retryAfterSeconds :: nat
  ov_handler :: "(nat \<Rightarrow> reason \<Rightarrow> rejection option) option"
  ov_strategy :: strategy_id

record overload_options =
  oo_maxConcurrency :: js_value
  oo_maxQueue :: js_value
  oo_queueTimeoutMs :: js_value
  oo_retryAfterSeconds :: js_value
  oo_handler :: "(nat \<Rightarrow> reason \<Rightarrow> rejection option) option"
  oo_strategy :: bool
  oo_unknown :: "string list"  \<comment> \<open>the keys that are not overload options\<close>

definition positiveInteger :: "js_value \<Rightarrow> string \<Rightarrow> nat res" where
  "positiveInteger v name =
     (case v of JInt i \<Rightarrow> if i \<le> 0 then throw (TypeError (''overload.'' @ name @ '' requires a positive integer'')) else ok (nat i)
      | _ \<Rightarrow> throw (TypeError (''overload.'' @ name @ '' requires a positive integer'')))"

definition normalizeOverload :: "overload_options \<Rightarrow> overload res" where
  "normalizeOverload opts =
     (if oo_unknown opts \<noteq> [] then throw (TypeError ''not an overload option (typo?)'')
      else res_bind (if oo_maxConcurrency opts \<in> {Absent, JInfinity} then ok None
                     else map_sum id Some (positiveInteger (oo_maxConcurrency opts) ''maxConcurrency'')) (\<lambda>mc.
      res_bind (if oo_maxQueue opts = Absent \<or> oo_maxQueue opts = JInt 0 then ok 0
                else positiveInteger (oo_maxQueue opts) ''maxQueue'') (\<lambda>mq.
      res_bind (if oo_queueTimeoutMs opts = Absent then ok 10000
                else positiveInteger (oo_queueTimeoutMs opts) ''queueTimeoutMs'') (\<lambda>qt.
      res_bind (case oo_retryAfterSeconds opts of
                  Absent \<Rightarrow> ok 1
                | JInt i \<Rightarrow> if i < 0 then throw (TypeError ''overload.retryAfterSeconds requires a non-negative integer'')
                            else ok (nat i)
                | _ \<Rightarrow> throw (TypeError ''overload.retryAfterSeconds requires a non-negative integer'')) (\<lambda>ra.
        if 0 < mq \<and> mc = None
        then throw (TypeError ''overload.maxQueue requires a finite overload.maxConcurrency'')
        else ok \<lparr>maxConcurrency = mc, maxQueue = mq, queueTimeoutMs = qt, retryAfterSeconds = ra,
               ov_handler = oo_handler opts,
               ov_strategy = (if oo_strategy opts then Injected else if 0 < mq then Queueing else FailFast)\<rparr>)))))"

definition normalizeRequestTimeout :: "js_value \<Rightarrow> nat res" where
  "normalizeRequestTimeout v =
     (case v of Absent \<Rightarrow> ok 0
      | JInt i \<Rightarrow> if i < 0 then throw (TypeError ''requestTimeout requires a non-negative finite number'') else ok (nat i)
      | _ \<Rightarrow> throw (TypeError ''requestTimeout requires a non-negative finite number''))"

section \<open>State\<close>

text \<open>How a decision promise settles.\<close>

datatype wake = WNull | WResponse rejection | WGarbage | WThrow

record lifecycle =
  lc_overload :: "overload option"
  lc_draining :: bool
  lc_inFlight :: int
  lc_queue :: "nat list"
  lc_pool :: nat            \<comment> \<open>idle waiter slots\<close>
  lc_constructed :: nat
  lc_closeWaiters :: "nat list"
  lc_woken :: "nat list"
  lc_pending :: "nat list"  \<comment> \<open>requests whose decision promise has not been continued\<close>
  lc_taken :: "nat list"    \<comment> \<open>those of them whose \<open>taken\<close> flag is set\<close>
  lc_ready :: "(nat \<times> wake) list"
  lc_running :: "nat list"  \<comment> \<open>admitted, not settled\<close>
  lc_holds :: "nat list"    \<comment> \<open>settled, body still streaming during drain\<close>
  lc_zombies :: "nat list"  \<comment> \<open>answered by the deadline, handler still running\<close>
  lc_refused :: "(nat \<times> rejection) list"

definition createLifecycle :: "overload option \<Rightarrow> lifecycle" where
  "createLifecycle ov = \<lparr>lc_overload = ov, lc_draining = False, lc_inFlight = 0, lc_queue = [], lc_pool = 0,
     lc_constructed = 0, lc_closeWaiters = [], lc_woken = [], lc_pending = [], lc_taken = [], lc_ready = [],
     lc_running = [], lc_holds = [], lc_zombies = [], lc_refused = []\<rparr>"

definition below_cap :: "lifecycle \<Rightarrow> bool" where
  "below_cap lc = (case lc_overload lc of None \<Rightarrow> True
     | Some ov \<Rightarrow> (case maxConcurrency ov of None \<Rightarrow> True | Some m \<Rightarrow> lc_inFlight lc < int m))"

section \<open>Rejections\<close>

definition rejectResponse :: "lifecycle \<Rightarrow> nat \<Rightarrow> reason \<Rightarrow> rejection" where
  "rejectResponse lc r why =
     (case (case lc_overload lc of None \<Rightarrow> None
            | Some ov \<Rightarrow> (case ov_handler ov of None \<Rightarrow> None | Some h \<Rightarrow> h r why)) of
        Some custom \<Rightarrow> custom
      | None \<Rightarrow> BuiltIn503 (case lc_overload lc of None \<Rightarrow> None
          | Some ov \<Rightarrow> if \<not> lc_draining lc \<and> 0 < retryAfterSeconds ov then Some (retryAfterSeconds ov) else None))"

section \<open>Release and refill\<close>

definition WAITER_POOL_MAX :: nat where "WAITER_POOL_MAX = 64"

text \<open>The \<open>admit\<close> closure of a request: at most one slot.\<close>

definition admit_call :: "nat \<Rightarrow> lifecycle \<Rightarrow> lifecycle" where
  "admit_call r lc = (if r \<in> set (lc_taken lc) then lc
     else lc\<lparr>lc_taken := lc_taken lc @ [r], lc_inFlight := lc_inFlight lc + 1\<rparr>)"

text \<open>\<open>WaiterSlot.finish\<close>: recycle the slot, resolve the promise.\<close>

definition waiter_finish :: "nat \<Rightarrow> wake \<Rightarrow> lifecycle \<Rightarrow> lifecycle" where
  "waiter_finish r w lc =
     lc\<lparr>lc_pool := (if lc_pool lc < WAITER_POOL_MAX then lc_pool lc + 1 else lc_pool lc),
        lc_ready := lc_ready lc @ [(r, w)]\<rparr>"

definition waiter_admit :: "nat \<Rightarrow> lifecycle \<Rightarrow> lifecycle" where
  "waiter_admit r lc = waiter_finish r WNull (admit_call r lc)"

definition waiter_drop :: "reason \<Rightarrow> nat \<Rightarrow> lifecycle \<Rightarrow> lifecycle" where
  "waiter_drop why r lc = waiter_finish r (WResponse (rejectResponse lc r why)) lc"

function refillFromQueue :: "lifecycle \<Rightarrow> lifecycle" where
  "refillFromQueue lc =
     (if lc_overload lc = None then lc
      else case lc_queue lc of
        [] \<Rightarrow> lc
      | head # rest \<Rightarrow> if below_cap lc then refillFromQueue (waiter_admit head (lc\<lparr>lc_queue := rest\<rparr>)) else lc)"
  by pat_completeness auto
termination
  by (relation "measure (\<lambda>lc. length (lc_queue lc))") (auto simp: waiter_admit_def waiter_finish_def admit_call_def)

declare refillFromQueue.simps [simp del]

definition wakeCloseWaiters :: "lifecycle \<Rightarrow> lifecycle" where
  "wakeCloseWaiters lc = lc\<lparr>lc_closeWaiters := [], lc_woken := lc_woken lc @ lc_closeWaiters lc\<rparr>"

definition releaseInFlight :: "lifecycle \<Rightarrow> lifecycle" where
  "releaseInFlight lc =
     (let lc1 = lc\<lparr>lc_inFlight := lc_inFlight lc - 1\<rparr>;
          lc2 = (if 0 < length (lc_queue lc1) then refillFromQueue lc1 else lc1)
      in if lc_inFlight lc2 = 0 \<and> 0 < length (lc_closeWaiters lc2) then wakeCloseWaiters lc2 else lc2)"

definition refuse :: "nat \<Rightarrow> rejection \<Rightarrow> lifecycle \<Rightarrow> lifecycle" where
  "refuse r response lc =
     (let lc1 = lc\<lparr>lc_refused := lc_refused lc @ [(r, response)]\<rparr> in
      if r \<notin> set (lc_taken lc1) then lc1
      else releaseInFlight (lc1\<lparr>lc_taken := remove1 r (lc_taken lc1)\<rparr>))"

section \<open>The gate\<close>

datatype decision = DNull | DResponse rejection | DGarbage | DThrow | DPromise

text \<open>A strategy: its effect on the state (through its \<open>admit\<close> argument among others) and its decision.
  \<open>aborted\<close> is the state of the client's abort signal.\<close>

type_synonym strategy = "lifecycle \<Rightarrow> nat \<Rightarrow> bool \<Rightarrow> lifecycle \<times> decision"

definition failFastAdmission :: strategy where
  "failFastAdmission lc r aborted = (lc, DResponse (rejectResponse lc r RConcurrency))"

definition enqueueRequest :: "lifecycle \<Rightarrow> nat \<Rightarrow> bool \<Rightarrow> lifecycle" where
  "enqueueRequest lc r aborted =
     (let lc1 = (if 0 < lc_pool lc then lc\<lparr>lc_pool := lc_pool lc - 1\<rparr>
                 else lc\<lparr>lc_constructed := lc_constructed lc + 1\<rparr>) in
      if aborted then waiter_finish r (WResponse (rejectResponse lc1 r RQueue)) lc1
      else lc1\<lparr>lc_queue := lc_queue lc1 @ [r]\<rparr>)"

definition queueAdmission :: strategy where
  "queueAdmission lc r aborted =
     (case lc_overload lc of
        None \<Rightarrow> (lc, DResponse (rejectResponse lc r RConcurrency))
      | Some ov \<Rightarrow> if maxQueue ov \<le> length (lc_queue lc) then (lc, DResponse (rejectResponse lc r RConcurrency))
                   else (enqueueRequest lc r aborted, DPromise))"

definition strategy_of :: "strategy \<Rightarrow> overload \<Rightarrow> strategy" where
  "strategy_of injected ov = (case ov_strategy ov of FailFast \<Rightarrow> failFastAdmission
     | Queueing \<Rightarrow> queueAdmission | Injected \<Rightarrow> injected)"

definition fallback_rejection :: "lifecycle \<Rightarrow> nat \<Rightarrow> rejection" where
  "fallback_rejection lc r = rejectResponse lc r RConcurrency"

text \<open>An admitted request owns one release: it is running.\<close>

definition start_taken :: "nat \<Rightarrow> lifecycle \<Rightarrow> lifecycle" where
  "start_taken r lc = lc\<lparr>lc_taken := remove1 r (lc_taken lc), lc_running := lc_running lc @ [r]\<rparr>"

definition admitRequest :: "strategy \<Rightarrow> lifecycle \<Rightarrow> nat \<Rightarrow> bool \<Rightarrow> lifecycle" where
  "admitRequest injected lc r aborted =
     (if lc_draining lc then lc\<lparr>lc_refused := lc_refused lc @ [(r, rejectResponse lc r RDraining)]\<rparr>
      else if lc_overload lc = None \<or> below_cap lc
      then lc\<lparr>lc_inFlight := lc_inFlight lc + 1, lc_running := lc_running lc @ [r]\<rparr>
      else (let (lc1, decision) = strategy_of injected (the (lc_overload lc)) lc r aborted in
        case decision of
          DThrow \<Rightarrow> refuse r (fallback_rejection lc1 r) lc1
        | DNull \<Rightarrow> start_taken r (admit_call r lc1)
        | DResponse response \<Rightarrow> refuse r response lc1
        | DGarbage \<Rightarrow> refuse r (fallback_rejection lc1 r) lc1
        | DPromise \<Rightarrow> lc1\<lparr>lc_pending := lc_pending lc1 @ [r]\<rparr>))"

text \<open>The continuation of a decision promise, run as a microtask.\<close>

definition continue_decision :: "nat \<Rightarrow> wake \<Rightarrow> lifecycle \<Rightarrow> lifecycle" where
  "continue_decision r w lc0 =
     (let lc = lc0\<lparr>lc_pending := remove1 r (lc_pending lc0)\<rparr> in
      case w of
        WNull \<Rightarrow>
          if r \<in> set (lc_taken lc) then start_taken r lc
          else if lc_draining lc then refuse r (rejectResponse lc r RDraining) lc
          else if \<not> below_cap lc then refuse r (rejectResponse lc r RConcurrency) lc
          else start_taken r (admit_call r lc)
      | WResponse response \<Rightarrow> refuse r response lc
      | WGarbage \<Rightarrow> refuse r (fallback_rejection lc r) lc
      | WThrow \<Rightarrow> refuse r (fallback_rejection lc r) lc)"

definition run_microtask :: "lifecycle \<Rightarrow> lifecycle" where
  "run_microtask lc = (case lc_ready lc of [] \<Rightarrow> lc
     | (r, w) # rest \<Rightarrow> continue_decision r w (lc\<lparr>lc_ready := rest\<rparr>))"

text \<open>\<open>WaiterSlot.leave\<close>: queue timeout or client disconnect.\<close>

definition waiter_leave :: "nat \<Rightarrow> lifecycle \<Rightarrow> lifecycle" where
  "waiter_leave r lc =
     (if r \<notin> set (lc_queue lc) then lc else waiter_drop RQueue r (lc\<lparr>lc_queue := remove1 r (lc_queue lc)\<rparr>))"

section \<open>Settling\<close>

definition release_running :: "nat \<Rightarrow> lifecycle \<Rightarrow> lifecycle" where
  "release_running r lc = releaseInFlight (lc\<lparr>lc_running := remove1 r (lc_running lc)\<rparr>)"

definition settleRequest :: "nat \<Rightarrow> bool \<Rightarrow> lifecycle \<Rightarrow> lifecycle" where
  "settleRequest r hasBody lc =
     (if lc_draining lc \<and> hasBody
      then lc\<lparr>lc_running := remove1 r (lc_running lc), lc_holds := lc_holds lc @ [r]\<rparr>
      else release_running r lc)"

definition settleUncappedRequest :: "nat \<Rightarrow> bool \<Rightarrow> lifecycle \<Rightarrow> lifecycle" where
  "settleUncappedRequest r hasBody lc =
     (if lc_draining lc then settleRequest r hasBody lc
      else lc\<lparr>lc_running := remove1 r (lc_running lc), lc_inFlight := lc_inFlight lc - 1\<rparr>)"

text \<open>The body of a held response finished; the \<open>released\<close> guard is membership in the holds.\<close>

definition releaseHold :: "nat \<Rightarrow> lifecycle \<Rightarrow> lifecycle" where
  "releaseHold r lc = (if r \<notin> set (lc_holds lc) then lc
     else releaseInFlight (lc\<lparr>lc_holds := remove1 r (lc_holds lc)\<rparr>))"

text \<open>\<open>raceDeadline\<close>: the timer frees the slot; the zombie's late settlement releases nothing.\<close>

definition deadline_fire :: "nat \<Rightarrow> lifecycle \<Rightarrow> lifecycle" where
  "deadline_fire r lc = (if r \<notin> set (lc_running lc) then lc
     else releaseInFlight (lc\<lparr>lc_running := remove1 r (lc_running lc), lc_zombies := lc_zombies lc @ [r]\<rparr>))"

definition settle_guarded :: "nat \<Rightarrow> bool \<Rightarrow> lifecycle \<Rightarrow> lifecycle" where
  "settle_guarded r hasBody lc =
     (if r \<in> set (lc_zombies lc) then lc\<lparr>lc_zombies := remove1 r (lc_zombies lc)\<rparr>
      else if r \<notin> set (lc_running lc) then lc
      else if lc_overload lc = None then settleUncappedRequest r hasBody lc else settleRequest r hasBody lc)"

section \<open>Close\<close>

definition subscribeSettled :: "nat \<Rightarrow> lifecycle \<Rightarrow> lifecycle \<times> bool" where
  "subscribeSettled cb lc = (if lc_inFlight lc = 0 then (lc, True)
     else (lc\<lparr>lc_closeWaiters := lc_closeWaiters lc @ [cb]\<rparr>, False))"

definition start_drain :: "lifecycle \<Rightarrow> lifecycle" where
  "start_drain lc =
     (let lc1 = lc\<lparr>lc_draining := True, lc_queue := []\<rparr> in foldl (\<lambda>l r. waiter_drop RDraining r l) lc1 (lc_queue lc))"

end
