(* ===== verification/Close.thy ===== *)
theory Close
  imports Lifecycle
begin

text \<open>
  Graceful close, src/core/lifecycle.ts \<open>closeApp\<close>: one close per application, escalation, the
  drain timer, the shutdown hooks. The server handle is the mode of the close and the log of the
  \<open>stop\<close> calls it received; hook bodies are logged by their number.
\<close>

datatype close_mode = Graceful | Embedded

record close_ctl =
  cc_started :: bool              \<comment> \<open>\<open>closePromise\<close> is set\<close>
  cc_mode :: close_mode
  cc_done :: bool
  cc_escalate :: bool             \<comment> \<open>\<open>lc.escalate\<close> is set\<close>
  cc_timer :: bool
  cc_stops :: "bool list"         \<comment> \<open>arguments of the stop calls\<close>
  cc_forces :: nat                \<comment> \<open>calls of the adapter's force routine\<close>
  cc_handlers :: "nat list"       \<comment> \<open>registered shutdown hooks\<close>
  cc_ran :: bool
  cc_hooks :: "nat list"          \<comment> \<open>hooks run so far, in order\<close>
  cc_result :: "(bool \<times> int) option"

definition idle_ctl :: "close_mode \<Rightarrow> close_ctl" where
  "idle_ctl mode = \<lparr>cc_started = False, cc_mode = mode, cc_done = False, cc_escalate = False, cc_timer = False,
     cc_stops = [], cc_forces = 0, cc_handlers = [], cc_ran = False, cc_hooks = [], cc_result = None\<rparr>"

definition registerShutdownHandler :: "nat \<Rightarrow> close_ctl \<Rightarrow> close_ctl" where
  "registerShutdownHandler h c = c\<lparr>cc_handlers := cc_handlers c @ [h]\<rparr>"

definition runShutdownHandlers :: "close_ctl \<Rightarrow> close_ctl" where
  "runShutdownHandlers c = (if cc_ran c then c
     else c\<lparr>cc_ran := True, cc_hooks := cc_hooks c @ cc_handlers c, cc_handlers := []\<rparr>)"

definition settle_close :: "bool \<Rightarrow> lifecycle \<Rightarrow> close_ctl \<Rightarrow> close_ctl" where
  "settle_close timedOut lc c = (runShutdownHandlers c)\<lparr>cc_result := Some (timedOut, lc_inFlight lc)\<rparr>"

definition finish :: "bool \<Rightarrow> lifecycle \<Rightarrow> close_ctl \<Rightarrow> close_ctl" where
  "finish timedOut lc c =
     (if cc_done c then c
      else settle_close timedOut lc (c\<lparr>cc_done := True, cc_escalate := False, cc_timer := False,
             cc_stops := (if timedOut then cc_stops c @ [True] else cc_stops c)\<rparr>))"

definition DEFAULT_DRAIN_MS :: int where "DEFAULT_DRAIN_MS = 30000"
definition DEFAULT_SHUTDOWN_TIMEOUT_MS :: int where "DEFAULT_SHUTDOWN_TIMEOUT_MS = 10000"

text \<open>\<open>options.drain\<close> as checked by the code: infinity or a finite number of at least 0.\<close>

definition drain_of :: "js_value \<Rightarrow> int option res" where
  "drain_of v = (case v of Absent \<Rightarrow> ok (Some DEFAULT_DRAIN_MS) | JInfinity \<Rightarrow> ok None
     | JInt i \<Rightarrow> if i < 0 then throw (TypeError ''close() drain requires a non-negative number of milliseconds'') else ok (Some i)
     | JOther \<Rightarrow> throw (TypeError ''close() drain requires a non-negative number of milliseconds''))"

definition shutdown_timeout_of :: "js_value \<Rightarrow> int res" where
  "shutdown_timeout_of v = (case v of Absent \<Rightarrow> ok DEFAULT_SHUTDOWN_TIMEOUT_MS
     | JInt i \<Rightarrow> if i < 0 then throw (TypeError ''close() shutdownTimeout requires a non-negative finite number'') else ok i
     | _ \<Rightarrow> throw (TypeError ''close() shutdownTimeout requires a non-negative finite number''))"

text \<open>The escalation closure: in graceful mode it runs the adapter's force routine first.\<close>

definition escalate :: "lifecycle \<Rightarrow> close_ctl \<Rightarrow> close_ctl" where
  "escalate lc c = (if \<not> cc_escalate c then c
     else finish True lc (if cc_mode c = Graceful then c\<lparr>cc_forces := cc_forces c + 1\<rparr> else c))"

definition closeApp :: "js_value \<Rightarrow> js_value \<Rightarrow> lifecycle \<times> close_ctl \<Rightarrow> (lifecycle \<times> close_ctl) \<times> unit res" where
  "closeApp drain shutdownTimeout s =
     (case s of (lc, c) \<Rightarrow>
      if cc_started c then ((lc, if drain = JInt 0 then escalate lc c else c), ok ())
      else (case drain_of drain of Inl e \<Rightarrow> (s, throw e)
        | Inr dr \<Rightarrow>
      (case shutdown_timeout_of shutdownTimeout of Inl e \<Rightarrow> (s, throw e)
        | Inr _ \<Rightarrow>
          (let lc1 = start_drain lc; c1 = c\<lparr>cc_started := True\<rparr> in
           if dr = Some 0 then
             ((lc1, settle_close (0 < lc_inFlight lc1) lc1 (c1\<lparr>cc_stops := cc_stops c1 @ [True], cc_done := True\<rparr>)), ok ())
           else if cc_mode c1 = Graceful then ((lc1, c1), ok ())
           else (let c2 = c1\<lparr>cc_stops := cc_stops c1 @ [False], cc_escalate := True\<rparr>;
                     (lc2, settled) = subscribeSettled 0 lc1
                 in if settled then ((lc2, finish False lc2 c2), ok ())
                    else ((lc2, c2\<lparr>cc_timer := (dr \<noteq> None)\<rparr>), ok ()))))))"

text \<open>What happens to a running close: the adapter registers its force routine or settles, the timer
  fires, the counter reaches zero, another close arrives, a hook is registered, requests go on.\<close>

datatype close_event = ECloseCall js_value js_value | ERegisterForce | EAdapterSettled bool | ETimer
  | ECounterZero | EHook nat | ERequests lifecycle

fun close_step :: "close_event \<Rightarrow> lifecycle \<times> close_ctl \<Rightarrow> lifecycle \<times> close_ctl" where
  "close_step (ECloseCall d t) s = fst (closeApp d t s)"
| "close_step ERegisterForce (lc, c) =
     (lc, if cc_started c \<and> \<not> cc_done c \<and> cc_mode c = Graceful then c\<lparr>cc_escalate := True\<rparr> else c)"
| "close_step (EAdapterSettled timedOut) (lc, c) =
     (lc, if cc_started c \<and> cc_mode c = Graceful then finish timedOut lc c else c)"
| "close_step ETimer (lc, c) = (lc, if cc_timer c then finish True lc c else c)"
| "close_step ECounterZero (lc, c) =
     (lc, if cc_started c \<and> cc_mode c = Embedded \<and> lc_inFlight lc = 0 then finish False lc c else c)"
| "close_step (EHook h) (lc, c) = (lc, registerShutdownHandler h c)"
| "close_step (ERequests lc') (lc, c) = (lc', c)"

definition close_run :: "close_event list \<Rightarrow> lifecycle \<times> close_ctl \<Rightarrow> lifecycle \<times> close_ctl" where
  "close_run es s = foldl (\<lambda>s e. close_step e s) s es"

definition close_inv :: "close_ctl \<Rightarrow> bool" where
  "close_inv c \<longleftrightarrow> (cc_done c \<longleftrightarrow> cc_result c \<noteq> None) \<and> (cc_done c \<longleftrightarrow> cc_ran c)
     \<and> (cc_done c \<longrightarrow> cc_started c) \<and> (cc_done c \<longrightarrow> \<not> cc_escalate c \<and> \<not> cc_timer c)
     \<and> (\<not> cc_started c \<longrightarrow> \<not> cc_escalate c \<and> \<not> cc_timer c) \<and> (\<not> cc_ran c \<longrightarrow> cc_hooks c = [])
     \<and> length (filter id (cc_stops c)) \<le> (if cc_done c then 1 else 0) \<and> cc_forces c \<le> (if cc_done c then 1 else 0)"

lemma finish_inv: "close_inv c \<Longrightarrow> cc_started c \<Longrightarrow> close_inv (finish b lc c)"
  by (auto simp: close_inv_def finish_def settle_close_def runShutdownHandlers_def)

lemma escalate_inv: "close_inv c \<Longrightarrow> close_inv (escalate lc c)"
  by (auto simp: close_inv_def escalate_def finish_def settle_close_def runShutdownHandlers_def)

lemma closeApp_inv:
  assumes "close_inv c"
  shows "close_inv (snd (fst (closeApp d t (lc, c))))"
proof (cases "cc_started c")
  case True
  with assms escalate_inv show ?thesis by (simp add: closeApp_def)
next
  case False
  then have n: "\<not> cc_done c" "cc_result c = None" "\<not> cc_ran c" "\<not> cc_escalate c" "\<not> cc_timer c"
    "cc_hooks c = []" "filter id (cc_stops c) = []" "cc_forces c = 0"
    using assms by (cases "cc_result c"; auto simp: close_inv_def)+
  let ?c2 = "c\<lparr>cc_started := True, cc_stops := cc_stops c @ [False], cc_escalate := True\<rparr>"
  have c2: "close_inv ?c2" using n by (simp add: close_inv_def)
  have fin: "close_inv (finish False lc2 ?c2)" for lc2 by (rule finish_inv [OF c2]) simp
  have tm: "close_inv (?c2\<lparr>cc_timer := b\<rparr>)" for b using n by (simp add: close_inv_def)
  have st: "close_inv (c\<lparr>cc_started := True\<rparr>)" using n by (simp add: close_inv_def)
  have zero: "close_inv (settle_close b l (c\<lparr>cc_started := True, cc_stops := cc_stops c @ [True], cc_done := True\<rparr>))" for b l
    using n by (simp add: close_inv_def settle_close_def runShutdownHandlers_def)
  show ?thesis
  proof (cases "drain_of d")
    case (Inl e)
    then show ?thesis using False assms by (simp add: closeApp_def)
  next
    case dr: (Inr dr)
    show ?thesis
    proof (cases "shutdown_timeout_of t")
      case (Inl e)
      then show ?thesis using False assms dr by (simp add: closeApp_def)
    next
      case (Inr x)
      then show ?thesis using False dr fin tm st zero
        by (simp add: closeApp_def Let_def split: prod.split)
    qed
  qed
qed

lemma close_step_inv:
  assumes inv: "close_inv c"
  shows "close_inv (snd (close_step e (lc, c)))"
proof (cases e)
  case (ECloseCall d t)
  then show ?thesis using closeApp_inv [OF inv] by simp
next
  case ERegisterForce
  then show ?thesis using inv by (auto simp: close_inv_def)
next
  case (EAdapterSettled b)
  then show ?thesis using inv finish_inv [OF inv] by simp
next
  case ETimer
  have "cc_started c" if "cc_timer c" using inv that by (auto simp: close_inv_def)
  then show ?thesis using inv finish_inv [OF inv] ETimer by simp
next
  case ECounterZero
  then show ?thesis using inv finish_inv [OF inv] by simp
next
  case (EHook h)
  then show ?thesis using inv by (cases "cc_result c") (auto simp: close_inv_def registerShutdownHandler_def)
next
  case (ERequests l)
  then show ?thesis using inv by simp
qed

lemma close_run_inv: "close_inv (snd s) \<Longrightarrow> close_inv (snd (close_run es s))"
proof (induction es rule: rev_induct)
  case Nil
  then show ?case by (simp add: close_run_def)
next
  case (snoc e es)
  obtain l c where "close_run es s = (l, c)" by fastforce
  with snoc close_step_inv [of c e l] show ?case by (simp add: close_run_def)
qed

lemma close_done_stable:
  assumes inv: "close_inv c" and d: "cc_done c"
  shows "cc_result (snd (close_step e (lc, c))) = cc_result c \<and> cc_hooks (snd (close_step e (lc, c))) = cc_hooks c
    \<and> cc_stops (snd (close_step e (lc, c))) = cc_stops c \<and> cc_forces (snd (close_step e (lc, c))) = cc_forces c
    \<and> cc_done (snd (close_step e (lc, c)))"
proof -
  have "cc_started c" "\<not> cc_escalate c" "\<not> cc_timer c" using inv d by (auto simp: close_inv_def)
  then show ?thesis using d
    by (cases e) (auto simp: closeApp_def escalate_def finish_def registerShutdownHandler_def)
qed



end
