(* ===== verification/LifecycleCorrect.thy ===== *)
theory LifecycleCorrect
  imports Lifecycle "HOL-Library.Multiset"
begin

text \<open>
  Invariants of the admission gate of theory Lifecycle over every interleaving of arrivals,
  settlements, microtasks, queue timeouts, deadlines and a close: the counter counts exactly the
  requests that hold a slot, the caps are respected, a request only waits while the app is full,
  and a close waiter never misses zero.
\<close>

section \<open>The invariant\<close>

abbreviation null_ready :: "(nat \<times> wake) list \<Rightarrow> nat list" where
  "null_ready rd \<equiv> map fst (filter (\<lambda>(r, w). w = WNull) rd)"

definition slots :: "lifecycle \<Rightarrow> int" where
  "slots lc = int (length (lc_running lc) + length (lc_holds lc) + length (lc_taken lc))"

definition within_cap :: "lifecycle \<Rightarrow> bool" where
  "within_cap lc = (case lc_overload lc of None \<Rightarrow> True
     | Some ov \<Rightarrow> (case maxConcurrency ov of None \<Rightarrow> True | Some m \<Rightarrow> lc_inFlight lc \<le> int m))"

definition within_queue :: "lifecycle \<Rightarrow> bool" where
  "within_queue lc = (case lc_overload lc of None \<Rightarrow> lc_queue lc = []
     | Some ov \<Rightarrow> length (lc_queue lc) \<le> maxQueue ov)"

lemma cap_iffs:
  "below_cap lc \<longleftrightarrow> (\<forall>ov m. lc_overload lc = Some ov \<longrightarrow> maxConcurrency ov = Some m \<longrightarrow> lc_inFlight lc < int m)"
  "within_cap lc \<longleftrightarrow> (\<forall>ov m. lc_overload lc = Some ov \<longrightarrow> maxConcurrency ov = Some m \<longrightarrow> lc_inFlight lc \<le> int m)"
  "within_queue lc \<longleftrightarrow> (lc_overload lc = None \<longrightarrow> lc_queue lc = [])
     \<and> (\<forall>ov. lc_overload lc = Some ov \<longrightarrow> length (lc_queue lc) \<le> maxQueue ov)"
  by (auto simp: below_cap_def within_cap_def within_queue_def split: option.splits)

text \<open>The books: who is where. Every pending request is queued or has its answer ready, and holds a
  slot exactly when that answer is an admission.\<close>

definition books :: "lifecycle \<Rightarrow> bool" where
  "books lc \<longleftrightarrow>
     mset (lc_pending lc) = mset (lc_queue lc) + mset (map fst (lc_ready lc))
     \<and> mset (lc_taken lc) = mset (null_ready (lc_ready lc))
     \<and> distinct (lc_running lc @ lc_holds lc @ lc_zombies lc @ lc_pending lc)
     \<and> within_queue lc \<and> (lc_draining lc \<longrightarrow> lc_queue lc = [])
     \<and> (lc_closeWaiters lc \<noteq> [] \<longrightarrow> lc_draining lc) \<and> lc_pool lc \<le> WAITER_POOL_MAX"

definition work_conserving :: "lifecycle \<Rightarrow> bool" where
  "work_conserving lc \<longleftrightarrow> lc_queue lc \<noteq> [] \<longrightarrow> \<not> below_cap lc"

definition no_missed_zero :: "lifecycle \<Rightarrow> bool" where
  "no_missed_zero lc \<longleftrightarrow> lc_closeWaiters lc \<noteq> [] \<longrightarrow> 0 < lc_inFlight lc"

definition gate_inv :: "lifecycle \<Rightarrow> bool" where
  "gate_inv lc \<longleftrightarrow> books lc \<and> lc_inFlight lc = slots lc \<and> within_cap lc \<and> work_conserving lc \<and> no_missed_zero lc"

lemma booksD:
  assumes "books lc"
  shows "mset (lc_pending lc) = mset (lc_queue lc) + mset (map fst (lc_ready lc))"
    and "mset (lc_taken lc) = mset (null_ready (lc_ready lc))"
    and "distinct (lc_running lc @ lc_holds lc @ lc_zombies lc @ lc_pending lc)"
    and "within_queue lc" and "lc_draining lc \<longrightarrow> lc_queue lc = []"
    and "lc_closeWaiters lc \<noteq> [] \<longrightarrow> lc_draining lc" and "lc_pool lc \<le> WAITER_POOL_MAX"
  using assms by (simp_all add: books_def)

lemma books_sets:
  assumes "books lc"
  shows "set (lc_pending lc) = set (lc_queue lc) \<union> fst ` set (lc_ready lc)"
    and "set (lc_taken lc) = set (null_ready (lc_ready lc))"
    and "distinct (lc_queue lc)" and "set (lc_queue lc) \<inter> fst ` set (lc_ready lc) = {}"
    and "distinct (map fst (lc_ready lc))" and "distinct (lc_taken lc)"
    and "set (lc_taken lc) \<subseteq> set (lc_pending lc)"
proof -
  note b = booksD [OF assms]
  have m: "mset (lc_queue lc @ map fst (lc_ready lc)) = mset (lc_pending lc)" using b(1) by simp
  have d: "distinct (lc_queue lc @ map fst (lc_ready lc))"
    using mset_eq_imp_distinct_iff [OF m] b(3) by simp
  show "set (lc_pending lc) = set (lc_queue lc) \<union> fst ` set (lc_ready lc)"
    using mset_eq_setD [OF m] by simp
  show "set (lc_taken lc) = set (null_ready (lc_ready lc))" by (rule mset_eq_setD [OF b(2)])
  show "distinct (lc_queue lc)" "set (lc_queue lc) \<inter> fst ` set (lc_ready lc) = {}"
    "distinct (map fst (lc_ready lc))" using d by auto
  show "distinct (lc_taken lc)"
    using mset_eq_imp_distinct_iff [OF b(2)] d by (auto intro: distinct_map_filter)
  show "set (lc_taken lc) \<subseteq> set (lc_pending lc)"
    using mset_eq_setD [OF b(2)] mset_eq_setD [OF m] by auto
qed

section \<open>Refill and release\<close>

lemma below_cap_upd [simp]:
  "below_cap (lc\<lparr>lc_queue := q\<rparr>) = below_cap lc" "below_cap (lc\<lparr>lc_running := a\<rparr>) = below_cap lc"
  "below_cap (lc\<lparr>lc_pending := a\<rparr>) = below_cap lc" "below_cap (lc\<lparr>lc_ready := b\<rparr>) = below_cap lc"
  "below_cap (lc\<lparr>lc_pool := n\<rparr>) = below_cap lc" "below_cap (lc\<lparr>lc_refused := f\<rparr>) = below_cap lc"
  "below_cap (lc\<lparr>lc_taken := a\<rparr>) = below_cap lc" "below_cap (lc\<lparr>lc_draining := d\<rparr>) = below_cap lc"
  "below_cap (lc\<lparr>lc_holds := a\<rparr>) = below_cap lc" "below_cap (lc\<lparr>lc_zombies := a\<rparr>) = below_cap lc"
  "below_cap (lc\<lparr>lc_constructed := n\<rparr>) = below_cap lc" "below_cap (lc\<lparr>lc_closeWaiters := a\<rparr>) = below_cap lc"
  "below_cap (lc\<lparr>lc_woken := a\<rparr>) = below_cap lc"
  by (simp_all add: cap_iffs)

lemma below_cap_admit: "below_cap lc \<Longrightarrow> within_cap (lc\<lparr>lc_inFlight := lc_inFlight lc + 1\<rparr>)"
  by (fastforce simp: cap_iffs)

text \<open>The facts a refill keeps, whatever the count was before it.\<close>

lemma waiter_admit_books:
  assumes "books lc" and q: "lc_queue lc = h # rest"
  defines "lc' \<equiv> waiter_admit h (lc\<lparr>lc_queue := rest\<rparr>)"
  shows "books lc' \<and> lc_inFlight lc' = lc_inFlight lc + 1 \<and> slots lc' = slots lc + 1
    \<and> lc_queue lc' = rest \<and> lc_overload lc' = lc_overload lc \<and> lc_closeWaiters lc' = lc_closeWaiters lc"
proof -
  note b = booksD [OF assms(1)] and s = books_sets [OF assms(1)]
  have h: "h \<notin> set (lc_taken lc)" using s(2,4) q by auto
  show ?thesis
    using b h q
    by (auto simp: lc'_def waiter_admit_def waiter_finish_def admit_call_def books_def slots_def cap_iffs)
qed

lemma refill_books:
  "books lc \<Longrightarrow> lc_inFlight lc = slots lc \<Longrightarrow> within_cap lc \<Longrightarrow> lc_overload lc \<noteq> None \<or> lc_queue lc = [] \<Longrightarrow>
     books (refillFromQueue lc) \<and> lc_inFlight (refillFromQueue lc) = slots (refillFromQueue lc)
     \<and> within_cap (refillFromQueue lc) \<and> work_conserving (refillFromQueue lc)"
proof (induction lc rule: refillFromQueue.induct)
  case (1 lc)
  show ?case
  proof (cases "lc_overload lc = None \<or> lc_queue lc = [] \<or> \<not> below_cap lc")
    case True
    with "1.prems" show ?thesis
      by (subst (1 2 3 4 5) refillFromQueue.simps) (auto simp: work_conserving_def split: list.split)
  next
    case False
    then obtain h rest where q: "lc_queue lc = h # rest" by (cases "lc_queue lc") auto
    define lc' where "lc' = waiter_admit h (lc\<lparr>lc_queue := rest\<rparr>)"
    from waiter_admit_books [OF "1.prems"(1) q, folded lc'_def]
    have B: "books lc'" "lc_inFlight lc' = lc_inFlight lc + 1" "slots lc' = slots lc + 1"
      "lc_overload lc' = lc_overload lc" by blast+
    have "within_cap lc'"
      using below_cap_admit [of lc] False B(2,4) by (simp add: cap_iffs)
    with "1.IH" [OF _ q] False B "1.prems" show ?thesis
      by (subst (1 2 3 4 5) refillFromQueue.simps) (auto simp: q lc'_def [symmetric])
  qed
qed

lemma wake_books:
  "books lc \<Longrightarrow> books (wakeCloseWaiters lc)"
  "slots (wakeCloseWaiters lc) = slots lc" "lc_inFlight (wakeCloseWaiters lc) = lc_inFlight lc"
  "lc_queue (wakeCloseWaiters lc) = lc_queue lc" "within_cap (wakeCloseWaiters lc) = within_cap lc"
  "work_conserving (wakeCloseWaiters lc) = work_conserving lc" "lc_closeWaiters (wakeCloseWaiters lc) = []"
  by (simp_all add: wakeCloseWaiters_def books_def slots_def cap_iffs work_conserving_def)

text \<open>Releasing one slot too many on the counter restores the invariant.\<close>

lemma release_inv:
  assumes "books lc" and "lc_inFlight lc = slots lc + 1" and "within_cap lc" and "work_conserving lc"
  shows "gate_inv (releaseInFlight lc)"
proof -
  define lc1 where "lc1 = lc\<lparr>lc_inFlight := lc_inFlight lc - 1\<rparr>"
  define lc2 where "lc2 = (if 0 < length (lc_queue lc1) then refillFromQueue lc1 else lc1)"
  have "books lc1" "lc_inFlight lc1 = slots lc1" "within_cap lc1"
    using assms by (fastforce simp: lc1_def books_def slots_def cap_iffs)+
  moreover have "lc_overload lc1 \<noteq> None \<or> lc_queue lc1 = []"
    using booksD(4) [OF assms(1)] by (auto simp: lc1_def cap_iffs)
  ultimately have lc2: "books lc2 \<and> lc_inFlight lc2 = slots lc2 \<and> within_cap lc2 \<and> work_conserving lc2"
    using refill_books [of lc1] by (auto simp: lc2_def work_conserving_def)
  moreover have "0 \<le> slots lc2" by (simp add: slots_def)
  ultimately show ?thesis
    unfolding releaseInFlight_def Let_def lc1_def [symmetric] lc2_def [symmetric] gate_inv_def
    by (auto simp: wake_books no_missed_zero_def)
qed

section \<open>Refusing and starting\<close>

text \<open>A request in flight between two of the lists: its slot, if it took one, is still counted.\<close>

definition detached :: "nat \<Rightarrow> bool \<Rightarrow> lifecycle \<Rightarrow> bool" where
  "detached r took lc \<longleftrightarrow>
     r \<notin> set (lc_running lc @ lc_holds lc @ lc_zombies lc @ lc_pending lc)
     \<and> (if took then r \<in> set (lc_taken lc) else r \<notin> set (lc_taken lc))
     \<and> books (lc\<lparr>lc_taken := remove1 r (lc_taken lc)\<rparr>)
     \<and> lc_inFlight lc = slots lc \<and> within_cap lc \<and> work_conserving lc \<and> no_missed_zero lc"

lemma slots_remove_taken:
  "r \<in> set (lc_taken lc) \<Longrightarrow> slots (lc\<lparr>lc_taken := remove1 r (lc_taken lc)\<rparr>) = slots lc - 1"
proof -
  assume "r \<in> set (lc_taken lc)"
  moreover from this have "0 < length (lc_taken lc)" by (rule length_pos_if_in_set)
  ultimately show ?thesis by (simp add: slots_def length_remove1 of_nat_diff Suc_le_eq)
qed

lemma inv_refused [simp]:
  "books (lc\<lparr>lc_refused := f\<rparr>) = books lc" "slots (lc\<lparr>lc_refused := f\<rparr>) = slots lc"
  "within_cap (lc\<lparr>lc_refused := f\<rparr>) = within_cap lc" "work_conserving (lc\<lparr>lc_refused := f\<rparr>) = work_conserving lc"
  "no_missed_zero (lc\<lparr>lc_refused := f\<rparr>) = no_missed_zero lc"
  by (simp_all add: books_def slots_def cap_iffs work_conserving_def no_missed_zero_def)

lemma refuse_inv:
  assumes "detached r took lc"
  shows "gate_inv (refuse r x lc)"
proof (cases took)
  case False
  with assms have "r \<notin> set (lc_taken lc)" by (simp add: detached_def)
  with assms False show ?thesis by (simp add: refuse_def detached_def gate_inv_def remove1_idem)
next
  case True
  define lc1 where "lc1 = lc\<lparr>lc_refused := lc_refused lc @ [(r, x)], lc_taken := remove1 r (lc_taken lc)\<rparr>"
  have r: "r \<in> set (lc_taken lc)" using assms True by (simp add: detached_def)
  have "books (lc\<lparr>lc_taken := remove1 r (lc_taken lc)\<rparr>)" "within_cap lc" "work_conserving lc"
    "lc_inFlight lc = slots lc" using assms by (simp_all add: detached_def)
  then have "books lc1" "within_cap lc1" "work_conserving lc1"
    by (auto simp: lc1_def books_def cap_iffs work_conserving_def)
  moreover have "lc_inFlight lc1 = slots lc1 + 1"
    using \<open>lc_inFlight lc = slots lc\<close> slots_remove_taken [OF r] by (simp add: lc1_def slots_def)
  ultimately have "gate_inv (releaseInFlight lc1)" by (intro release_inv)
  with r show ?thesis by (simp add: refuse_def lc1_def)
qed

lemma start_taken_inv:
  assumes "detached r True lc"
  shows "gate_inv (start_taken r lc)"
proof -
  have r: "r \<in> set (lc_taken lc)" "r \<notin> set (lc_running lc @ lc_holds lc @ lc_zombies lc @ lc_pending lc)"
    using assms by (simp_all add: detached_def)
  have b: "books (lc\<lparr>lc_taken := remove1 r (lc_taken lc)\<rparr>)" using assms by (simp add: detached_def)
  have "books (start_taken r lc)"
    using booksD [OF b] r(2) by (auto simp: start_taken_def books_def cap_iffs)
  moreover have "slots (start_taken r lc) = slots lc"
    using slots_remove_taken [OF r(1)] by (simp add: start_taken_def slots_def)
  moreover have "lc_inFlight lc = slots lc" "within_cap lc" "work_conserving lc" "no_missed_zero lc"
    using assms by (simp_all add: detached_def)
  then have "lc_inFlight (start_taken r lc) = slots lc" "within_cap (start_taken r lc)"
    "work_conserving (start_taken r lc)" "no_missed_zero (start_taken r lc)"
    by (simp_all add: start_taken_def cap_iffs work_conserving_def no_missed_zero_def)
  ultimately show ?thesis by (simp add: gate_inv_def)
qed

lemma admit_call_detached:
  assumes "detached r False lc" and "below_cap lc" and "\<not> lc_draining lc"
  shows "detached r True (admit_call r lc)"
proof -
  have r: "r \<notin> set (lc_taken lc)" using assms(1) by (simp add: detached_def)
  have "lc_queue lc = []" using assms(1,2) by (simp add: detached_def work_conserving_def)
  moreover have "lc_closeWaiters lc = []" using assms(1,3) by (auto simp: detached_def books_def)
  moreover have "lc_inFlight (admit_call r lc) = slots (admit_call r lc)"
    using assms(1) r by (simp add: detached_def admit_call_def slots_def)
  moreover have "within_cap (admit_call r lc)"
    using below_cap_admit [OF assms(2)] r by (simp add: admit_call_def cap_iffs)
  moreover have "books ((admit_call r lc)\<lparr>lc_taken := remove1 r (lc_taken (admit_call r lc))\<rparr>)"
    using assms(1) r by (simp add: detached_def admit_call_def remove1_append remove1_idem books_def cap_iffs)
  ultimately show ?thesis
    using assms(1) r by (simp add: detached_def admit_call_def work_conserving_def no_missed_zero_def)
qed

section \<open>Strategies\<close>

text \<open>
  The contract the gate relies on at saturation: the strategy decides without taking a slot
  synchronously, and either answers or parks the request (queued within the bound, or with its
  rejection ready).
\<close>

definition saturated :: "lifecycle \<Rightarrow> bool" where
  "saturated lc \<longleftrightarrow> gate_inv lc \<and> \<not> lc_draining lc \<and> lc_overload lc \<noteq> None \<and> \<not> below_cap lc"

definition fresh :: "nat \<Rightarrow> lifecycle \<Rightarrow> bool" where
  "fresh r lc \<longleftrightarrow> r \<notin> set (lc_running lc @ lc_holds lc @ lc_zombies lc @ lc_pending lc @ lc_taken lc)"

definition answer_of :: "nat \<Rightarrow> decision \<Rightarrow> lifecycle \<Rightarrow> lifecycle" where
  "answer_of r d lc = (case d of
      DThrow \<Rightarrow> refuse r (fallback_rejection lc r) lc
    | DNull \<Rightarrow> start_taken r (admit_call r lc)
    | DResponse response \<Rightarrow> refuse r response lc
    | DGarbage \<Rightarrow> refuse r (fallback_rejection lc r) lc
    | DPromise \<Rightarrow> lc\<lparr>lc_pending := lc_pending lc @ [r]\<rparr>)"

lemma park_ready_inv:
  assumes inv: "gate_inv lc" and fresh: "fresh r lc" and pool: "pool \<le> WAITER_POOL_MAX"
  shows "gate_inv (lc\<lparr>lc_pool := pool, lc_constructed := made,
     lc_ready := lc_ready lc @ [(r, WResponse x)], lc_pending := lc_pending lc @ [r]\<rparr>)" (is "gate_inv ?lc")
proof -
  have b: "books lc" and rest: "lc_inFlight lc = slots lc" "within_cap lc" "work_conserving lc" "no_missed_zero lc"
    using inv by (simp_all add: gate_inv_def)
  have "books ?lc"
    using booksD [OF b] fresh pool by (simp add: books_def cap_iffs fresh_def)
  moreover have "lc_inFlight ?lc = slots ?lc" "within_cap ?lc" "work_conserving ?lc" "no_missed_zero ?lc"
    using rest by (simp_all add: slots_def cap_iffs work_conserving_def no_missed_zero_def)
  ultimately show ?thesis by (simp add: gate_inv_def)
qed

lemma park_queue_inv:
  assumes sat: "saturated lc" and fresh: "fresh r lc" and pool: "pool \<le> WAITER_POOL_MAX"
    and room: "length (lc_queue lc) < maxQueue (the (lc_overload lc))"
  shows "gate_inv (lc\<lparr>lc_pool := pool, lc_constructed := made,
     lc_queue := lc_queue lc @ [r], lc_pending := lc_pending lc @ [r]\<rparr>)" (is "gate_inv ?lc")
proof -
  have b: "books lc" and rest: "lc_inFlight lc = slots lc" "within_cap lc" "no_missed_zero lc"
    and full: "\<not> below_cap lc" "\<not> lc_draining lc" "lc_overload lc \<noteq> None"
    using sat by (simp_all add: saturated_def gate_inv_def)
  have "books ?lc"
    using booksD [OF b] fresh pool room full by (auto simp: books_def cap_iffs fresh_def)
  moreover have "lc_inFlight ?lc = slots ?lc" "within_cap ?lc" "work_conserving ?lc" "no_missed_zero ?lc"
    using rest full(1) by (simp_all add: slots_def cap_iffs work_conserving_def no_missed_zero_def)
  ultimately show ?thesis by (simp add: gate_inv_def)
qed

locale admission_strategy =
  fixes onSaturated :: strategy
  assumes never_admits: "saturated lc \<Longrightarrow> fresh r lc \<Longrightarrow> onSaturated lc r ab = (lc', d) \<Longrightarrow> d \<noteq> DNull"
    and answers_now: "saturated lc \<Longrightarrow> fresh r lc \<Longrightarrow> onSaturated lc r ab = (lc', d) \<Longrightarrow> d \<noteq> DPromise \<Longrightarrow> lc' = lc"
    and parks: "saturated lc \<Longrightarrow> fresh r lc \<Longrightarrow> onSaturated lc r ab = (lc', DPromise) \<Longrightarrow>
      \<exists>pool made. pool \<le> WAITER_POOL_MAX \<and>
        ((\<exists>x. lc' = lc\<lparr>lc_pool := pool, lc_constructed := made, lc_ready := lc_ready lc @ [(r, WResponse x)]\<rparr>)
         \<or> (lc' = lc\<lparr>lc_pool := pool, lc_constructed := made, lc_queue := lc_queue lc @ [r]\<rparr>
            \<and> length (lc_queue lc) < maxQueue (the (lc_overload lc))))"
begin

lemma keeps_inv:
  assumes sat: "saturated lc" and fresh: "fresh r lc" and res: "onSaturated lc r ab = (lc', d)"
  shows "gate_inv (answer_of r d lc')"
proof (cases "d = DPromise")
  case False
  then have "lc' = lc" using answers_now [OF sat fresh res] by simp
  moreover have "detached r False lc"
    using sat fresh by (auto simp: saturated_def gate_inv_def detached_def fresh_def remove1_idem)
  ultimately show ?thesis
    using refuse_inv never_admits [OF sat fresh res] False by (cases d) (auto simp: answer_of_def)
next
  case True
  have inv: "gate_inv lc" using sat by (simp add: saturated_def)
  from parks [OF sat fresh res [unfolded True]] obtain pool made where pool: "pool \<le> WAITER_POOL_MAX"
    and cases: "(\<exists>x. lc' = lc\<lparr>lc_pool := pool, lc_constructed := made, lc_ready := lc_ready lc @ [(r, WResponse x)]\<rparr>)
         \<or> (lc' = lc\<lparr>lc_pool := pool, lc_constructed := made, lc_queue := lc_queue lc @ [r]\<rparr>
            \<and> length (lc_queue lc) < maxQueue (the (lc_overload lc)))" by blast
  from cases show ?thesis
    using park_ready_inv [OF inv fresh pool] park_queue_inv [OF sat fresh pool] True
    by (auto simp: answer_of_def)
qed

end

lemma rejectResponse_slot [simp]:
  "rejectResponse (lc\<lparr>lc_pool := n\<rparr>) r why = rejectResponse lc r why"
  "rejectResponse (lc\<lparr>lc_constructed := n\<rparr>) r why = rejectResponse lc r why"
  by (simp_all add: rejectResponse_def split: option.split)

interpretation failFast: admission_strategy failFastAdmission
  by unfold_locales (auto simp: failFastAdmission_def)

interpretation queueing: admission_strategy queueAdmission
proof (unfold_locales, goal_cases)
  case (1 lc r ab lc' d)
  then show ?case by (auto simp: queueAdmission_def split: option.splits if_splits)
next
  case (2 lc r ab lc' d)
  then show ?case by (auto simp: queueAdmission_def split: option.splits if_splits)
next
  case (3 lc r ab lc')
  then obtain ov where ov: "lc_overload lc = Some ov" "\<not> maxQueue ov \<le> length (lc_queue lc)"
    and lc': "lc' = enqueueRequest lc r ab"
    by (auto simp: queueAdmission_def split: option.splits if_splits)
  have "lc_pool lc \<le> WAITER_POOL_MAX" using 3(1) by (simp add: saturated_def gate_inv_def books_def)
  then have pool: "lc_pool lc' \<le> WAITER_POOL_MAX"
    by (auto simp: lc' enqueueRequest_def waiter_finish_def Let_def)
  show ?case
  proof (cases ab)
    case True
    then have "lc' = lc\<lparr>lc_pool := lc_pool lc', lc_constructed := lc_constructed lc',
        lc_ready := lc_ready lc @ [(r, WResponse (rejectResponse lc r RQueue))]\<rparr>"
      by (simp add: lc' enqueueRequest_def waiter_finish_def Let_def)
    with pool show ?thesis by blast
  next
    case False
    then have "lc' = lc\<lparr>lc_pool := lc_pool lc', lc_constructed := lc_constructed lc', lc_queue := lc_queue lc @ [r]\<rparr>"
      by (simp add: lc' enqueueRequest_def Let_def)
    moreover have "length (lc_queue lc) < maxQueue (the (lc_overload lc))" using ov by simp
    ultimately show ?thesis using pool by blast
  qed
qed

section \<open>Runs\<close>

text \<open>Every event of a running application with a built-in strategy. Request numbers are not reused
  while they are known to the gate.\<close>

inductive gate_step :: "lifecycle \<Rightarrow> lifecycle \<Rightarrow> bool" where
  arrive: "fresh r lc \<Longrightarrow> gate_step lc (admitRequest injected lc r aborted)"
| microtask: "gate_step lc (run_microtask lc)"
| leave: "gate_step lc (waiter_leave r lc)"
| settle: "gate_step lc (settle_guarded r hasBody lc)"
| body_done: "gate_step lc (releaseHold r lc)"
| deadline: "gate_step lc (deadline_fire r lc)"
| drain: "gate_step lc (start_drain lc)"
| subscribe: "lc_draining lc \<Longrightarrow> gate_step lc (fst (subscribeSettled cb lc))"

definition builtin :: "overload option \<Rightarrow> bool" where
  "builtin ov = (case ov of None \<Rightarrow> True | Some x \<Rightarrow> ov_strategy x \<noteq> Injected)"

inductive gate_reach :: "overload option \<Rightarrow> lifecycle \<Rightarrow> bool" for ov where
  init: "gate_reach ov (createLifecycle ov)"
| step: "gate_reach ov lc \<Longrightarrow> gate_step lc lc' \<Longrightarrow> gate_reach ov lc'"

lemma gate_inv_init: "gate_inv (createLifecycle ov)"
  by (simp add: gate_inv_def books_def slots_def cap_iffs work_conserving_def no_missed_zero_def createLifecycle_def)

lemma admit_inv:
  assumes inv: "gate_inv lc" and fr: "fresh r lc" and b: "builtin (lc_overload lc)"
  shows "gate_inv (admitRequest injected lc r aborted)"
proof -
  consider "lc_draining lc" | "\<not> lc_draining lc" "lc_overload lc = None \<or> below_cap lc" | "saturated lc"
    using inv unfolding saturated_def by blast
  then show ?thesis
  proof cases
    case 1
    with inv show ?thesis by (simp add: admitRequest_def gate_inv_def)
  next
    case 2
    then have cap: "below_cap lc" by (auto simp: cap_iffs)
    have bk: "books lc" "lc_inFlight lc = slots lc" "work_conserving lc" using inv by (simp_all add: gate_inv_def)
    have q: "lc_queue lc = []" "lc_closeWaiters lc = []"
      using bk(1,3) cap 2(1) by (auto simp: work_conserving_def books_def)
    let ?lc = "lc\<lparr>lc_inFlight := lc_inFlight lc + 1, lc_running := lc_running lc @ [r]\<rparr>"
    have "books ?lc" using booksD [OF bk(1)] fr by (simp add: books_def cap_iffs fresh_def)
    moreover have "lc_inFlight ?lc = slots ?lc" using bk(2) by (simp add: slots_def)
    moreover have "within_cap ?lc" using below_cap_admit [OF cap] by (simp add: cap_iffs)
    moreover have "work_conserving ?lc" "no_missed_zero ?lc"
      using q by (simp_all add: work_conserving_def no_missed_zero_def)
    ultimately show ?thesis using 2 by (simp add: admitRequest_def gate_inv_def)
  next
    case 3
    then obtain ov where ov: "lc_overload lc = Some ov" by (auto simp: saturated_def)
    obtain lc1 d where d: "strategy_of injected ov lc r aborted = (lc1, d)" by fastforce
    have "admitRequest injected lc r aborted = answer_of r d lc1"
      using 3 ov d by (simp add: saturated_def admitRequest_def answer_of_def)
    moreover have "gate_inv (answer_of r d lc1)"
      using b ov d failFast.keeps_inv [OF 3 fr] queueing.keeps_inv [OF 3 fr]
      by (cases "ov_strategy ov") (auto simp: strategy_of_def builtin_def)
    ultimately show ?thesis by simp
  qed
qed

lemma microtask_inv:
  assumes inv: "gate_inv lc"
  shows "gate_inv (run_microtask lc)"
proof (cases "lc_ready lc")
  case Nil
  with inv show ?thesis by (simp add: run_microtask_def)
next
  case (Cons x rest)
  obtain r w where x: "x = (r, w)" by fastforce
  have bk: "books lc" using inv by (simp add: gate_inv_def)
  note b = booksD [OF bk] and s = books_sets [OF bk]
  define lc1 where "lc1 = lc\<lparr>lc_ready := rest, lc_pending := remove1 r (lc_pending lc)\<rparr>"
  have r_pend: "r \<in> set (lc_pending lc)" using s(1) Cons x by auto
  have r_once: "r \<notin> fst ` set rest" "r \<notin> set (lc_queue lc)" using s(4,5) Cons x by auto
  have taken: "r \<in> set (lc_taken lc) \<longleftrightarrow> w = WNull"
    using s(2) r_once(1) Cons x by force
  have "mset (lc_pending lc1) = mset (lc_queue lc) + mset (map fst rest)"
    using b(1) Cons x by (simp add: lc1_def)
  moreover have "mset (remove1 r (lc_taken lc)) = mset (null_ready rest)"
  proof (cases "w = WNull")
    case True
    with b(2) Cons x show ?thesis by simp
  next
    case False
    with taken b(2) Cons x show ?thesis by (simp add: remove1_idem)
  qed
  moreover have "distinct (lc_running lc @ lc_holds lc @ lc_zombies lc @ remove1 r (lc_pending lc))"
    using b(3) by (auto simp: distinct_remove1 dest: notin_set_remove1 set_remove1_subset [THEN subsetD])
  ultimately have "books (lc1\<lparr>lc_taken := remove1 r (lc_taken lc1)\<rparr>)"
    using b(4-7) by (simp add: books_def lc1_def cap_iffs)
  moreover have "r \<notin> set (lc_running lc1 @ lc_holds lc1 @ lc_zombies lc1 @ lc_pending lc1)"
    using b(3) r_pend by (auto simp: lc1_def)
  ultimately have det: "detached r (w = WNull) lc1"
    using inv taken by (auto simp: detached_def gate_inv_def lc1_def slots_def cap_iffs work_conserving_def no_missed_zero_def)
  have run: "run_microtask lc = continue_decision r w (lc\<lparr>lc_ready := rest\<rparr>)"
    using Cons x by (simp add: run_microtask_def)
  have cont: "run_microtask lc = (case w of
        WNull \<Rightarrow> start_taken r lc1
      | WResponse response \<Rightarrow> refuse r response lc1
      | WGarbage \<Rightarrow> refuse r (fallback_rejection lc1 r) lc1
      | WThrow \<Rightarrow> refuse r (fallback_rejection lc1 r) lc1)"
    unfolding run continue_decision_def using det
    by (cases w) (simp_all add: lc1_def detached_def Let_def)
  show ?thesis
    using det start_taken_inv refuse_inv unfolding cont by (cases w) auto
qed

lemma leave_inv:
  assumes inv: "gate_inv lc"
  shows "gate_inv (waiter_leave r lc)"
proof (cases "r \<in> set (lc_queue lc)")
  case True
  have bk: "books lc" and rest: "lc_inFlight lc = slots lc" "within_cap lc" "work_conserving lc" "no_missed_zero lc"
    using inv by (simp_all add: gate_inv_def)
  note b = booksD [OF bk] and s = books_sets [OF bk]
  define lc1 where "lc1 = waiter_leave r lc"
  have lc1: "lc_queue lc1 = remove1 r (lc_queue lc)" "lc_overload lc1 = lc_overload lc"
    "lc_running lc1 = lc_running lc" "lc_holds lc1 = lc_holds lc" "lc_zombies lc1 = lc_zombies lc"
    "lc_pending lc1 = lc_pending lc" "lc_taken lc1 = lc_taken lc" "lc_inFlight lc1 = lc_inFlight lc"
    "lc_closeWaiters lc1 = lc_closeWaiters lc" "lc_draining lc1 = lc_draining lc"
    "\<exists>x. lc_ready lc1 = lc_ready lc @ [(r, WResponse x)]" "lc_pool lc1 \<le> WAITER_POOL_MAX"
    using True b(7) by (auto simp: lc1_def waiter_leave_def waiter_drop_def waiter_finish_def)
  have "mset (lc_pending lc1) = mset (lc_queue lc1) + mset (map fst (lc_ready lc1))"
    using b(1) True lc1(1,6,11) by auto
  moreover have "mset (lc_taken lc1) = mset (null_ready (lc_ready lc1))" using b(2) lc1(7,11) by auto
  moreover have "within_queue lc1"
    using b(4) by (auto simp: cap_iffs lc1 length_remove1)
  ultimately have "books lc1"
    using b(3,5,6) lc1(12) by (auto simp: books_def lc1(1-10))
  moreover have "lc_queue lc1 \<noteq> [] \<Longrightarrow> lc_queue lc \<noteq> []" by (auto simp: lc1(1))
  ultimately show ?thesis
    using rest unfolding lc1_def [symmetric]
    by (simp add: gate_inv_def slots_def cap_iffs work_conserving_def no_missed_zero_def lc1(2-10))
qed (use inv in \<open>simp add: waiter_leave_def\<close>)

text \<open>Taking a request out of a list that holds a slot and releasing that slot.\<close>

lemma release_from:
  assumes inv: "gate_inv lc" and lc1: "lc1 = lc\<lparr>lc_running := run, lc_holds := hold, lc_zombies := z\<rparr>"
    and count: "length run + length hold + 1 = length (lc_running lc) + length (lc_holds lc)"
    and dist: "distinct (run @ hold @ z @ lc_pending lc)"
  shows "gate_inv (releaseInFlight lc1)"
proof (rule release_inv)
  have bk: "books lc" and rest: "lc_inFlight lc = slots lc" "within_cap lc" "work_conserving lc"
    using inv by (simp_all add: gate_inv_def)
  show "books lc1" using booksD [OF bk] dist by (simp add: books_def lc1 cap_iffs)
  show "lc_inFlight lc1 = slots lc1 + 1" using rest(1) count by (simp add: slots_def lc1)
  show "within_cap lc1" "work_conserving lc1" using rest(2,3) by (simp_all add: lc1 cap_iffs work_conserving_def)
qed

lemma length_remove1_Suc: "x \<in> set xs \<Longrightarrow> length (remove1 x xs) + 1 = length xs"
  using length_pos_if_in_set [of x xs] by (simp add: length_remove1)

lemma set_remove1_in: "y \<in> set (remove1 x xs) \<Longrightarrow> y \<in> set xs"
  by (rule subsetD [OF set_remove1_subset])

lemma release_running_inv:
  assumes inv: "gate_inv lc" and r: "r \<in> set (lc_running lc)"
  shows "gate_inv (release_running r lc)"
proof -
  have d: "distinct (lc_running lc @ lc_holds lc @ lc_zombies lc @ lc_pending lc)"
    using inv by (simp add: gate_inv_def books_def)
  have "distinct (remove1 r (lc_running lc) @ lc_holds lc @ lc_zombies lc @ lc_pending lc)"
    using d by (auto dest: set_remove1_in)
  with release_from [OF inv refl, where run = "remove1 r (lc_running lc)" and hold = "lc_holds lc" and z = "lc_zombies lc"]
    length_remove1_Suc [OF r]
  show ?thesis by (simp add: release_running_def)
qed

lemma deadline_inv:
  assumes inv: "gate_inv lc"
  shows "gate_inv (deadline_fire r lc)"
proof (cases "r \<in> set (lc_running lc)")
  case True
  have d: "distinct (lc_running lc @ lc_holds lc @ lc_zombies lc @ lc_pending lc)"
    using inv by (simp add: gate_inv_def books_def)
  have "distinct (remove1 r (lc_running lc) @ lc_holds lc @ (lc_zombies lc @ [r]) @ lc_pending lc)"
    using d True by (auto dest: set_remove1_in)
  with release_from [OF inv refl, where run = "remove1 r (lc_running lc)" and hold = "lc_holds lc" and z = "lc_zombies lc @ [r]"]
    True length_remove1_Suc [OF True]
  show ?thesis by (simp add: deadline_fire_def)
qed (use inv in \<open>simp add: deadline_fire_def\<close>)

lemma hold_inv:
  assumes inv: "gate_inv lc"
  shows "gate_inv (releaseHold r lc)"
proof (cases "r \<in> set (lc_holds lc)")
  case True
  have d: "distinct (lc_running lc @ lc_holds lc @ lc_zombies lc @ lc_pending lc)"
    using inv by (simp add: gate_inv_def books_def)
  have "distinct (lc_running lc @ remove1 r (lc_holds lc) @ lc_zombies lc @ lc_pending lc)"
    using d by (auto dest: set_remove1_in)
  with release_from [OF inv refl, where run = "lc_running lc" and hold = "remove1 r (lc_holds lc)" and z = "lc_zombies lc"]
    True length_remove1_Suc [OF True]
  show ?thesis by (simp add: releaseHold_def)
qed (use inv in \<open>simp add: releaseHold_def\<close>)

lemma settleUncapped_same:
  assumes "gate_inv lc" and "lc_overload lc = None"
  shows "settleUncappedRequest r hasBody lc = settleRequest r hasBody lc"
proof (cases "lc_draining lc")
  case False
  have "lc_queue lc = []" "lc_closeWaiters lc = []"
    using assms False by (auto simp: gate_inv_def books_def cap_iffs)
  with False show ?thesis
    by (simp add: settleUncappedRequest_def settleRequest_def release_running_def releaseInFlight_def Let_def)
qed (simp add: settleUncappedRequest_def)

lemma settle_inv:
  assumes inv: "gate_inv lc"
  shows "gate_inv (settle_guarded r hasBody lc)"
proof -
  have bk: "books lc" and rest: "lc_inFlight lc = slots lc" "within_cap lc" "work_conserving lc" "no_missed_zero lc"
    using inv by (simp_all add: gate_inv_def)
  note b = booksD [OF bk]
  consider (zombie) "r \<in> set (lc_zombies lc)" | (gone) "r \<notin> set (lc_zombies lc)" "r \<notin> set (lc_running lc)"
    | (run) "r \<notin> set (lc_zombies lc)" "r \<in> set (lc_running lc)" by blast
  then show ?thesis
  proof cases
    case zombie
    let ?lc = "lc\<lparr>lc_zombies := remove1 r (lc_zombies lc)\<rparr>"
    have "distinct (lc_running lc @ lc_holds lc @ remove1 r (lc_zombies lc) @ lc_pending lc)"
      using b(3) by (auto dest: set_remove1_in)
    then have "books ?lc" using b by (simp add: books_def cap_iffs)
    then have "gate_inv ?lc"
      using rest by (simp add: gate_inv_def slots_def cap_iffs work_conserving_def no_missed_zero_def)
    with zombie show ?thesis by (simp add: settle_guarded_def)
  next
    case gone
    with inv show ?thesis by (simp add: settle_guarded_def)
  next
    case run
    have settle: "settle_guarded r hasBody lc = settleRequest r hasBody lc"
      using run settleUncapped_same [OF inv] by (simp add: settle_guarded_def)
    show ?thesis
    proof (cases "lc_draining lc \<and> hasBody")
      case True
      let ?lc = "lc\<lparr>lc_running := remove1 r (lc_running lc), lc_holds := lc_holds lc @ [r]\<rparr>"
      have "distinct (remove1 r (lc_running lc) @ (lc_holds lc @ [r]) @ lc_zombies lc @ lc_pending lc)"
        using b(3) run(2) by (auto dest: set_remove1_in)
      then have "books ?lc" using b by (simp add: books_def cap_iffs)
      moreover have "slots ?lc = slots lc" using length_remove1_Suc [OF run(2)] by (simp add: slots_def)
      moreover have "within_cap ?lc" "work_conserving ?lc" "no_missed_zero ?lc"
        using rest by (simp_all add: cap_iffs work_conserving_def no_missed_zero_def)
      ultimately have "gate_inv ?lc" using rest by (simp add: gate_inv_def)
      with True show ?thesis unfolding settle by (simp add: settleRequest_def)
    next
      case False
      with release_running_inv [OF inv run(2)] show ?thesis unfolding settle by (auto simp: settleRequest_def)
    qed
  qed
qed

text \<open>Draining drops every waiter: each keeps its place in the books, with its rejection ready.\<close>

lemma drop_all:
  defines "dropw \<equiv> \<lambda>l r. waiter_drop RDraining r l"
  shows "\<exists>xs. lc_ready (foldl dropw lc q) = lc_ready lc @ zip q (map WResponse xs) \<and> length xs = length q
    \<and> lc_queue (foldl dropw lc q) = lc_queue lc \<and> lc_overload (foldl dropw lc q) = lc_overload lc
    \<and> lc_running (foldl dropw lc q) = lc_running lc \<and> lc_holds (foldl dropw lc q) = lc_holds lc
    \<and> lc_zombies (foldl dropw lc q) = lc_zombies lc \<and> lc_pending (foldl dropw lc q) = lc_pending lc
    \<and> lc_taken (foldl dropw lc q) = lc_taken lc \<and> lc_inFlight (foldl dropw lc q) = lc_inFlight lc
    \<and> lc_closeWaiters (foldl dropw lc q) = lc_closeWaiters lc \<and> lc_draining (foldl dropw lc q) = lc_draining lc
    \<and> (lc_pool lc \<le> WAITER_POOL_MAX \<longrightarrow> lc_pool (foldl dropw lc q) \<le> WAITER_POOL_MAX)"
proof (induction q rule: rev_induct)
  case Nil
  then show ?case by (intro exI [of _ "[]"]) simp
next
  case (snoc r q)
  define l where "l = foldl dropw lc q"
  note IH = snoc [folded l_def]
  then obtain xs where xs: "lc_ready l = lc_ready lc @ zip q (map WResponse xs)" "length xs = length q" by blast
  have step: "foldl dropw lc (q @ [r]) =
      waiter_finish r (WResponse (rejectResponse l r RDraining)) l"
    by (simp add: l_def dropw_def waiter_drop_def)
  show ?case
    unfolding step using IH xs
    by (intro exI [of _ "xs @ [rejectResponse l r RDraining]"]) (auto simp: waiter_finish_def)
qed

lemma null_ready_zip: "length xs = length q \<Longrightarrow> null_ready (zip q (map WResponse xs)) = []"
  by (induction q xs rule: list_induct2') auto

lemma drain_inv:
  assumes inv: "gate_inv lc"
  shows "gate_inv (start_drain lc)"
proof -
  have bk: "books lc" and rest: "lc_inFlight lc = slots lc" "within_cap lc" "no_missed_zero lc"
    using inv by (simp_all add: gate_inv_def)
  note b = booksD [OF bk]
  define lc0 where "lc0 = lc\<lparr>lc_draining := True, lc_queue := []\<rparr>"
  define lc1 where "lc1 = start_drain lc"
  have lc1: "lc1 = foldl (\<lambda>l r. waiter_drop RDraining r l) lc0 (lc_queue lc)"
    by (simp add: lc1_def lc0_def start_drain_def Let_def)
  obtain xs where xs: "length xs = length (lc_queue lc)"
    and f: "lc_ready lc1 = lc_ready lc @ zip (lc_queue lc) (map WResponse xs)"
      "lc_queue lc1 = []" "lc_overload lc1 = lc_overload lc"
      "lc_running lc1 = lc_running lc" "lc_holds lc1 = lc_holds lc" "lc_zombies lc1 = lc_zombies lc"
      "lc_pending lc1 = lc_pending lc" "lc_taken lc1 = lc_taken lc" "lc_inFlight lc1 = lc_inFlight lc"
      "lc_closeWaiters lc1 = lc_closeWaiters lc" "lc_draining lc1" "lc_pool lc1 \<le> WAITER_POOL_MAX"
    using drop_all [of lc0 "lc_queue lc"] b(7) by (auto simp: lc1 lc0_def)
  have "mset (lc_taken lc1) = mset (null_ready (lc_ready lc1))"
    using b(2) null_ready_zip [OF xs] by (simp add: f)
  moreover have "mset (lc_pending lc1) = mset (lc_queue lc1) + mset (map fst (lc_ready lc1))"
    using b(1) xs by (simp add: f add.commute)
  ultimately have "books lc1" using b by (auto simp: books_def cap_iffs f)
  then show ?thesis
    using rest unfolding lc1_def [symmetric]
    by (simp add: gate_inv_def slots_def cap_iffs work_conserving_def no_missed_zero_def f)
qed

lemma subscribe_inv:
  assumes inv: "gate_inv lc" and "lc_draining lc"
  shows "gate_inv (fst (subscribeSettled cb lc))"
proof -
  have "0 \<le> lc_inFlight lc" using inv by (simp add: gate_inv_def slots_def)
  with assms show ?thesis
    by (auto simp: subscribeSettled_def gate_inv_def books_def slots_def cap_iffs work_conserving_def no_missed_zero_def)
qed

section \<open>The guarantees\<close>

lemma release_overload: "lc_overload (releaseInFlight lc) = lc_overload lc"
proof -
  have "lc_overload (refillFromQueue lc) = lc_overload lc" for lc
    by (induction lc rule: refillFromQueue.induct)
      (subst refillFromQueue.simps, auto simp: waiter_admit_def waiter_finish_def admit_call_def split: list.split)
  then show ?thesis by (simp add: releaseInFlight_def Let_def wakeCloseWaiters_def)
qed

lemma refuse_overload: "lc_overload (refuse r x lc) = lc_overload lc"
  by (simp add: refuse_def Let_def release_overload)

lemma drain_overload: "lc_overload (start_drain lc) = lc_overload lc"
proof -
  have "lc_overload (foldl (\<lambda>l r. waiter_drop RDraining r l) l q) = lc_overload l" for l q
    by (induction q rule: rev_induct) (simp_all add: waiter_drop_def waiter_finish_def)
  then show ?thesis by (simp add: start_drain_def Let_def)
qed

lemma admit_overload:
  assumes "builtin (lc_overload lc)"
  shows "lc_overload (admitRequest injected lc r ab) = lc_overload lc"
proof (cases "lc_overload lc")
  case None
  then show ?thesis by (simp add: admitRequest_def)
next
  case (Some ov)
  obtain lc1 d where d: "strategy_of injected ov lc r ab = (lc1, d)" by fastforce
  have "lc_overload lc1 = lc_overload lc"
    using d assms Some by (cases "ov_strategy ov")
      (auto simp: strategy_of_def builtin_def failFastAdmission_def queueAdmission_def enqueueRequest_def
        waiter_finish_def Let_def split: if_splits)
  then show ?thesis
    using Some d by (cases d)
      (auto simp: admitRequest_def refuse_overload start_taken_def admit_call_def)
qed

lemma step_overload: "gate_step lc lc' \<Longrightarrow> builtin (lc_overload lc) \<Longrightarrow> lc_overload lc' = lc_overload lc"
proof (induction rule: gate_step.induct)
  case (microtask lc)
  show ?case
    by (auto simp: run_microtask_def continue_decision_def Let_def refuse_overload start_taken_def admit_call_def
        split: list.split prod.split wake.split)
qed (auto simp: admit_overload waiter_leave_def waiter_drop_def waiter_finish_def settle_guarded_def
    settleUncappedRequest_def settleRequest_def release_running_def release_overload releaseHold_def
    deadline_fire_def drain_overload subscribeSettled_def)

lemma reach_inv: "gate_reach ov lc \<Longrightarrow> builtin ov \<Longrightarrow> gate_inv lc \<and> lc_overload lc = ov"
proof (induction rule: gate_reach.induct)
  case init
  then show ?case by (simp add: gate_inv_init) (simp add: createLifecycle_def)
next
  case (step lc lc')
  then have inv: "gate_inv lc" and ov: "lc_overload lc = ov" by blast+
  from step.hyps(2) step.prems have "gate_inv lc'"
    using inv ov by (induction rule: gate_step.induct)
      (auto simp: admit_inv microtask_inv leave_inv settle_inv hold_inv deadline_inv drain_inv subscribe_inv)
  with step_overload [OF step.hyps(2)] step.prems ov show ?case by simp
qed

text \<open>An uncapped application may settle through the short path: it does what the full one does.\<close>

lemma settleUncapped_equiv:
  assumes "gate_reach None lc"
  shows "settleUncappedRequest r hasBody lc = settleRequest r hasBody lc"
  using reach_inv [OF assms] by (intro settleUncapped_same) (simp_all add: builtin_def)

text \<open>C5: in every reachable state the counter equals the requests holding a slot, and never passes the cap.\<close>

theorem inFlight_exact:
  assumes "gate_reach (Some ov) lc" and "ov_strategy ov \<noteq> Injected" and "maxConcurrency ov = Some m"
  shows "lc_inFlight lc = int (length (lc_running lc) + length (lc_holds lc) + length (lc_taken lc))
    \<and> lc_inFlight lc \<le> int m \<and> length (lc_queue lc) \<le> maxQueue ov
    \<and> distinct (lc_running lc @ lc_holds lc @ lc_zombies lc @ lc_pending lc)"
  using reach_inv [OF assms(1)] assms(2,3)
  by (auto simp: builtin_def gate_inv_def slots_def books_def cap_iffs)

text \<open>C29: nobody waits while a slot is free, and nobody waits once the application drains.\<close>

theorem queue_work_conserving:
  assumes "gate_reach ov lc" and "builtin ov" and "lc_queue lc \<noteq> []"
  shows "\<not> below_cap lc \<and> \<not> lc_draining lc"
  using reach_inv [OF assms(1,2)] assms(3)
  by (auto simp: gate_inv_def work_conserving_def books_def)

text \<open>C30: a drain never hangs on an idle application: when the counter is zero no close waiter is left.\<close>

theorem drain_never_misses_zero:
  assumes "gate_reach ov lc" and "builtin ov" and "lc_running lc = []" and "lc_holds lc = []" and "lc_ready lc = []"
  shows "lc_inFlight lc = 0 \<and> lc_closeWaiters lc = []"
  using reach_inv [OF assms(1,2)] assms(3-5)
  by (auto simp: gate_inv_def slots_def books_def no_missed_zero_def)

section \<open>The properties at a saturated one-slot gate\<close>

lemmas reach_arrive = gate_reach.step [OF _ gate_step.arrive]
lemmas reach_settle = gate_reach.step [OF _ gate_step.settle]
lemmas reach_drain = gate_reach.step [OF _ gate_step.drain]
lemmas reach_subscribe = gate_reach.step [OF _ gate_step.subscribe]

definition one_slot :: "overload" where
  "one_slot = \<lparr>maxConcurrency = Some 1, maxQueue = 1, queueTimeoutMs = 0, retryAfterSeconds = 0, ov_handler = None, ov_strategy = Queueing\<rparr>"

definition busy :: "lifecycle" where
  "busy = admitRequest queueAdmission (admitRequest queueAdmission (createLifecycle (Some one_slot)) 1 False) 2 False"

lemma busy_reach: "gate_reach (Some one_slot) busy"
  unfolding busy_def by (rule reach_arrive, rule reach_arrive, rule gate_reach.init, code_simp, code_simp)

lemma one_slot_builtin: "builtin (Some one_slot)" "ov_strategy one_slot \<noteq> Injected" "maxConcurrency one_slot = Some 1"
  by (simp_all add: builtin_def one_slot_def)

lemma busy_queue: "lc_queue busy = [2]" by code_simp

lemma inFlight_exact_witness: "lc_inFlight busy = int (length (lc_running busy) + length (lc_holds busy) + length (lc_taken busy))"
  using inFlight_exact [OF busy_reach one_slot_builtin(2,3)] by blast

lemma queue_work_conserving_witness: "\<not> below_cap busy"
  using queue_work_conserving [OF busy_reach one_slot_builtin(1)] by (simp add: busy_queue)

lemma settleUncapped_equiv_witness:
  "settleUncappedRequest 1 True (admitRequest failFastAdmission (createLifecycle None) 1 False)
     = settleRequest 1 True (admitRequest failFastAdmission (createLifecycle None) 1 False)"
  by (rule settleUncapped_equiv, rule reach_arrive, rule gate_reach.init) code_simp

lemma drain_never_misses_zero_witness:
  "lc_closeWaiters (settle_guarded 1 False (fst (subscribeSettled 7 (start_drain (admitRequest failFastAdmission (createLifecycle None) 1 False))))) = []"
  by (rule drain_never_misses_zero [where ov = None, THEN conjunct2], rule reach_settle, rule reach_subscribe,
       rule reach_drain, rule reach_arrive, rule gate_reach.init) (code_simp+)

end
