(* ===== verification/Uri.thy ===== *)
theory Uri
  imports Prelude
begin

text \<open>
  Percent-encoding: the standard \<open>decodeURIComponent\<close> / \<open>encodeURIComponent\<close> on UTF-8 byte
  strings (a URIError is None), their contract as a locale, and \<open>decodeSegment\<close> of
  src/router/pattern.ts.
\<close>

section \<open>Hexadecimal digits and escapes\<close>

definition hex_val :: "char \<Rightarrow> nat option" where
  "hex_val c = (let n = of_char c in
     if 48 \<le> n \<and> n \<le> 57 then Some (n - 48)
     else if 65 \<le> n \<and> n \<le> 70 then Some (n - 55)
     else if 97 \<le> n \<and> n \<le> 102 then Some (n - 87) else None)"

definition hex_digit :: "nat \<Rightarrow> char" where
  "hex_digit n = char_of (if n < 10 then n + 48 else n + 55)"

text \<open>\<open>%XX\<close> at the head of the string: the byte and the rest.\<close>

fun read_escape :: "string \<Rightarrow> (nat \<times> string) option" where
  "read_escape (p # h # l # rest) =
     (if p = CHR ''%''
      then (case (hex_val h, hex_val l) of (Some a, Some b) \<Rightarrow> Some (16 * a + b, rest) | _ \<Rightarrow> None)
      else None)"
| "read_escape _ = None"

fun read_conts :: "nat \<Rightarrow> string \<Rightarrow> (nat list \<times> string) option" where
  "read_conts 0 s = Some ([], s)"
| "read_conts (Suc n) s =
     (case read_escape s of None \<Rightarrow> None
      | Some (b, rest) \<Rightarrow> map_option (\<lambda>(bs, r). (b # bs, r)) (read_conts n rest))"

section \<open>UTF-8\<close>

definition is_cont :: "nat \<Rightarrow> bool" where "is_cont b \<longleftrightarrow> 128 \<le> b \<and> b \<le> 191"

text \<open>Length of the sequence a lead byte opens (0: not a lead byte).\<close>

definition utf8_len :: "nat \<Rightarrow> nat" where
  "utf8_len b = (if b < 128 then 1 else if 194 \<le> b \<and> b \<le> 223 then 2
     else if 224 \<le> b \<and> b \<le> 239 then 3 else if 240 \<le> b \<and> b \<le> 244 then 4 else 0)"

text \<open>Well-formed multi-byte sequences: no overlong form, no surrogate, at most U+10FFFF.\<close>

fun utf8_seq :: "nat \<Rightarrow> nat list \<Rightarrow> bool" where
  "utf8_seq b [] = (b < 128)"
| "utf8_seq b (c # cs) =
     (utf8_len b = length cs + 2 \<and> is_cont c \<and> list_all is_cont cs
      \<and> (b = 224 \<longrightarrow> 160 \<le> c) \<and> (b = 237 \<longrightarrow> c \<le> 159)
      \<and> (b = 240 \<longrightarrow> 144 \<le> c) \<and> (b = 244 \<longrightarrow> c \<le> 143))"

section \<open>decodeURIComponent\<close>

lemma read_escape_length [dest]: "read_escape s = Some (b, r) \<Longrightarrow> length s = length r + 3"
  by (cases s rule: read_escape.cases) (auto split: if_splits option.splits)

lemma read_conts_length [dest]: "read_conts n s = Some (bs, r) \<Longrightarrow> length r \<le> length s"
proof (induction n arbitrary: s bs)
  case (Suc n)
  then show ?case by (fastforce split: option.splits dest: read_escape_length)
qed simp

function decodeURIComponent :: "string \<Rightarrow> string option" where
  "decodeURIComponent [] = Some []"
| "decodeURIComponent (c # cs) =
     (if c \<noteq> CHR ''%'' then map_option (Cons c) (decodeURIComponent cs)
      else (case read_escape (c # cs) of
          None \<Rightarrow> None
        | Some (b, rest) \<Rightarrow>
            (if utf8_len b = 0 then None
             else (case read_conts (utf8_len b - 1) rest of
                None \<Rightarrow> None
              | Some (bs, rest') \<Rightarrow>
                  (if utf8_seq b bs
                   then map_option (\<lambda>d. map char_of (b # bs) @ d) (decodeURIComponent rest')
                   else None)))))"
  by pat_completeness auto
termination
  by (relation "measure length") (auto dest!: read_escape_length read_conts_length)

section \<open>encodeURIComponent\<close>

definition uri_unreserved :: "char \<Rightarrow> bool" where
  "uri_unreserved c = (let n = (of_char c :: nat) in
     (48 \<le> n \<and> n \<le> 57) \<or> (65 \<le> n \<and> n \<le> 90) \<or> (97 \<le> n \<and> n \<le> 122)
     \<or> c \<in> set ''-_.!~*'' \<or> n = 39 \<or> c \<in> set ''()'')"

definition escape_byte :: "char \<Rightarrow> string" where
  "escape_byte c = [CHR ''%'', hex_digit (of_char c div 16), hex_digit (of_char c mod 16)]"

definition encodeURIComponent :: "string \<Rightarrow> string" where
  "encodeURIComponent s = concat (map (\<lambda>c. if uri_unreserved c then [c] else escape_byte c) s)"

text \<open>Strings that are the UTF-8 form of some JavaScript string.\<close>

function valid_utf8 :: "string \<Rightarrow> bool" where
  "valid_utf8 [] = True"
| "valid_utf8 (c # cs) =
     (let n = utf8_len (of_char c) in
      n \<noteq> 0 \<and> n - 1 \<le> length cs
      \<and> utf8_seq (of_char c) (map of_char (take (n - 1) cs)) \<and> valid_utf8 (drop (n - 1) cs))"
  by pat_completeness auto
termination
  by (relation "measure length") auto

lemma of_char_lt [simp]: "(of_char c :: nat) < 256"
  by (metis of_char_of char_of_quasi_inj nat_of_char_less_256)

lemma of_char_div: "(of_char c :: nat) div 16 < 16"
  using of_char_lt [of c] by linarith

lemma hex_val_digit: "n < 16 \<Longrightarrow> hex_val (hex_digit n) = Some n"
  by (auto simp: hex_val_def hex_digit_def Let_def)

lemma read_escape_byte: "read_escape (escape_byte c @ r) = Some (of_char c, r)"
  by (simp add: escape_byte_def hex_val_digit of_char_div)

lemma unreserved_ascii: "uri_unreserved c \<Longrightarrow> (of_char c :: nat) < 128 \<and> c \<noteq> CHR ''%''"
  by (auto simp: uri_unreserved_def Let_def)

lemma encode_Nil [simp]: "encodeURIComponent [] = []"
  by (simp add: encodeURIComponent_def)

lemma encode_Cons:
  "encodeURIComponent (c # s) =
     (if uri_unreserved c then [c] else escape_byte c) @ encodeURIComponent s"
  by (simp add: encodeURIComponent_def)

lemma encode_append: "encodeURIComponent (s @ t) = encodeURIComponent s @ encodeURIComponent t"
  by (simp add: encodeURIComponent_def)

lemma encode_high:
  "\<forall>c \<in> set s. 128 \<le> (of_char c :: nat) \<Longrightarrow> encodeURIComponent s = concat (map escape_byte s)"
  by (induction s) (auto simp: encode_Cons dest: unreserved_ascii)

lemma read_conts_escapes:
  "read_conts (length s) (concat (map escape_byte s) @ r) = Some (map of_char s, r)"
  by (induction s) (auto simp: read_escape_byte)

lemma utf8_seq_high: "utf8_seq b (c # cs) \<Longrightarrow> \<forall>x \<in> set (c # cs). 128 \<le> x"
  by (auto simp: is_cont_def list_all_iff)

lemma utf8_len_1 [simp]: "b < 128 \<Longrightarrow> utf8_len b = 1" by (simp add: utf8_len_def)

lemma utf8_len_multi: "128 \<le> b \<Longrightarrow> utf8_len b \<noteq> 0 \<Longrightarrow> 2 \<le> utf8_len b"
  by (auto simp: utf8_len_def split: if_splits)

lemma decode_escape_multi:
  assumes "utf8_len b \<noteq> 0" and "128 \<le> b" and "read_escape (e @ r) = Some (b, r)"
    and "e = CHR ''%'' # es"
    and "read_conts (utf8_len b - 1) r = Some (bs, r')" and "utf8_seq b bs"
  shows "decodeURIComponent (e @ r) = map_option (\<lambda>d. map char_of (b # bs) @ d) (decodeURIComponent r')"
  using assms by (cases "decodeURIComponent r'") simp_all

lemma encode_multi:
  assumes c: "128 \<le> (of_char c :: nat)" and n: "n = utf8_len (of_char c)" "n \<noteq> 0"
    and len: "n - 1 \<le> length cs" and seq: "utf8_seq (of_char c) (map of_char (take (n - 1) cs))"
  shows "decodeURIComponent (encodeURIComponent (c # cs)) =
    map_option (\<lambda>d. c # take (n - 1) cs @ d) (decodeURIComponent (encodeURIComponent (drop (n - 1) cs)))"
proof -
  let ?t = "take (n - 1) cs"
  let ?r = "concat (map escape_byte ?t) @ encodeURIComponent (drop (n - 1) cs)"
  from c n have "2 \<le> n" using utf8_len_multi by blast
  with len have lt: "length ?t = n - 1" and "?t \<noteq> []" by auto
  then obtain x xs where t: "?t = x # xs" by (cases ?t) auto
  with seq have "\<forall>y \<in> set (map of_char ?t). 128 \<le> (y :: nat)" using utf8_seq_high by fastforce
  then have e: "encodeURIComponent ?t = concat (map escape_byte ?t)" by (simp add: encode_high)
  have "\<not> uri_unreserved c" using c unreserved_ascii by fastforce
  moreover have "encodeURIComponent cs = ?r"
    by (metis e append_take_drop_id encode_append)
  ultimately have E: "encodeURIComponent (c # cs) = escape_byte c @ ?r"
    by (simp add: encode_Cons)
  have R: "read_conts (n - 1) ?r = Some (map of_char ?t, encodeURIComponent (drop (n - 1) cs))"
    using read_conts_escapes [of ?t] lt by metis
  have "escape_byte c = CHR ''%'' # tl (escape_byte c)" by (simp add: escape_byte_def)
  note step = decode_escape_multi [where b = "of_char c" and bs = "map of_char ?t", OF _ c read_escape_byte this]
  have "map_option (\<lambda>d. map char_of (of_char c # map of_char ?t) @ d) x
      = map_option (\<lambda>d. c # ?t @ d) x" for x
    by (cases x) (simp_all add: comp_def)
  with step [OF _ _ seq] n R show ?thesis unfolding E by simp
qed

lemma decode_encode: "valid_utf8 s \<Longrightarrow> decodeURIComponent (encodeURIComponent s) = Some s"
proof (induction s rule: valid_utf8.induct)
  case (2 c cs)
  let ?n = "utf8_len (of_char c)"
  show ?case
  proof (cases "(of_char c :: nat) < 128")
    case True
    with 2 have IH: "decodeURIComponent (encodeURIComponent cs) = Some cs" by (simp add: Let_def)
    show ?thesis
    proof (cases "uri_unreserved c")
      case True
      with IH show ?thesis by (auto simp: encode_Cons dest: unreserved_ascii)
    next
      case False
      have "decodeURIComponent (escape_byte c @ encodeURIComponent cs) = Some (c # cs)"
        using \<open>_ < 128\<close> IH read_escape_byte [of c "encodeURIComponent cs"]
        by (simp add: escape_byte_def)
      with False show ?thesis by (simp add: encode_Cons)
    qed
  next
    case False
    from "2.prems" have n: "?n \<noteq> 0" "?n - 1 \<le> length cs"
      and seq: "utf8_seq (of_char c) (map of_char (take (?n - 1) cs))"
      and v: "valid_utf8 (drop (?n - 1) cs)" by (simp_all add: Let_def)
    from "2.IH" [OF refl v]
    have IH: "decodeURIComponent (encodeURIComponent (drop (?n - 1) cs)) = Some (drop (?n - 1) cs)" .
    from encode_multi [OF _ refl n seq] False IH
    show ?thesis by simp
  qed
qed simp

text \<open>What a percent codec promises the router, the URL builder and the cookie code.\<close>

locale uri_codec =
  fixes enc :: "string \<Rightarrow> string" and dec :: "string \<Rightarrow> string option" and dom_ok :: "string \<Rightarrow> bool"
  assumes dec_enc: "dom_ok s \<Longrightarrow> dec (enc s) = Some s"
    and dec_plain: "CHR ''%'' \<notin> set s \<Longrightarrow> dec s = Some s"
    and enc_no_slash: "CHR ''/'' \<notin> set (enc s)"
    and enc_empty: "enc s = [] \<longleftrightarrow> s = []"
begin

definition dec_total :: "string \<Rightarrow> string" where
  "dec_total s = (if CHR ''%'' \<notin> set s then s else (case dec s of None \<Rightarrow> s | Some d \<Rightarrow> d))"

lemma dec_total_enc: "dom_ok s \<Longrightarrow> dec_total (enc s) = s"
  by (metis dec_total_def dec_enc dec_plain option.sel option.simps(5))

lemma enc_inj: "dom_ok s \<Longrightarrow> dom_ok t \<Longrightarrow> enc s = enc t \<Longrightarrow> s = t"
  by (metis dec_enc option.inject)

lemma split_join_enc:
  "ps \<noteq> [] \<Longrightarrow> js_split CHR ''/'' (js_join ''/'' (map enc ps)) = map enc ps"
  using enc_no_slash by (intro js_split_join) auto

end

lemma decode_plain: "CHR ''%'' \<notin> set s \<Longrightarrow> decodeURIComponent s = Some s"
  by (induction s) auto

lemma hex_digit_not_slash: "n < 16 \<Longrightarrow> hex_digit n \<noteq> CHR ''/''"
  by (auto simp: hex_digit_def dest!: arg_cong [where f = "of_char :: char \<Rightarrow> nat"])

lemma slash_not_escaped: "CHR ''/'' \<notin> set (if uri_unreserved c then [c] else escape_byte c)"
  using hex_digit_not_slash [of "of_char c div 16"] hex_digit_not_slash [of "of_char c mod 16"]
  by (auto simp: uri_unreserved_def Let_def escape_byte_def of_char_div)

lemma encode_no_slash: "CHR ''/'' \<notin> set (encodeURIComponent s)"
  by (induction s) (use slash_not_escaped in \<open>simp_all add: encode_Cons\<close>)

interpretation codec: uri_codec encodeURIComponent decodeURIComponent valid_utf8
proof (unfold_locales, goal_cases)
  case (1 s) then show ?case by (rule decode_encode)
next
  case (2 s) then show ?case by (rule decode_plain)
next
  case (3 s) then show ?case by (rule encode_no_slash)
next
  case (4 s) then show ?case by (cases s) (auto simp: encode_Cons escape_byte_def)
qed

section \<open>decodeSegment\<close>

definition decodeSegment :: "string \<Rightarrow> string" where
  "decodeSegment segment =
     (if CHR ''%'' \<notin> set segment then segment
      else (case decodeURIComponent segment of None \<Rightarrow> segment | Some d \<Rightarrow> d))"

lemma decodeSegment_plain [simp]: "CHR ''%'' \<notin> set s \<Longrightarrow> decodeSegment s = s"
  by (simp add: decodeSegment_def)

lemma decodeSegment_codec: "decodeSegment = codec.dec_total"
  by (simp add: fun_eq_iff decodeSegment_def codec.dec_total_def)

lemma decodeSegment_encode: "valid_utf8 s \<Longrightarrow> decodeSegment (encodeURIComponent s) = s"
  by (simp add: decodeSegment_codec codec.dec_total_enc)

lemma decodeURI_Nil: "decodeURIComponent s = Some [] \<Longrightarrow> s = []"
  by (induction s rule: decodeURIComponent.induct) (auto split: if_splits option.splits)

lemma decodeSegment_Nil [simp]: "decodeSegment s = [] \<longleftrightarrow> s = []"
  by (auto simp: decodeSegment_def split: if_splits option.splits dest: decodeURI_Nil)

end
