(* ===== verification/Pattern.thy ===== *)
theory Pattern
  imports Uri
begin

text \<open>
  Route pattern compilation, src/router/pattern.ts: the segment IR, \<open>compilePattern\<close> with its
  refusals, \<open>fastComparable\<close> and the conservative overlap test used by the sink guards.

  The engine behind user-written custom patterns is the parameter \<open>re_ok\<close> (does the
  \<open>RegExp\<close> constructor accept this source) and \<open>rx\<close> (does the compiled source match this
  string); a compiled custom pattern is identified with its source text.
\<close>

section \<open>The segment IR\<close>

datatype seg_kind = Static | Param | Wildcard

record compiled_segment =
  kind :: seg_kind
  seg_value :: string
  seg_pattern :: "string option"
  seg_optional :: bool

record pattern_ir =
  segments :: "compiled_segment list"
  isStatic :: bool
  isSimple :: bool

definition normalizePath :: "string \<Rightarrow> string" where
  "normalizePath path = (if 1 < length path \<and> ends_with ''/'' path then butlast path else path)"

text \<open>\<open>split("/").slice(1)\<close> with the lone empty part of "/" dropped.\<close>

definition path_parts :: "string \<Rightarrow> string list" where
  "path_parts path =
     (let parts = tl (js_split CHR ''/'' (normalizePath path)) in
      if length parts = 1 \<and> hd parts = [] then [] else parts)"

section \<open>compilePattern\<close>

definition static_seg :: "string \<Rightarrow> compiled_segment" where
  "static_seg v = \<lparr>kind = Static, seg_value = v, seg_pattern = None, seg_optional = False\<rparr>"

definition wildcard_seg :: compiled_segment where
  "wildcard_seg = \<lparr>kind = Wildcard, seg_value = ''wildcard'', seg_pattern = None, seg_optional = False\<rparr>"

definition anchored :: "string \<Rightarrow> string" where
  "anchored source = ''^(?:'' @ source @ '')$''"

definition compile_custom :: "(string \<Rightarrow> bool) \<Rightarrow> string \<Rightarrow> (string \<times> string option) res" where
  "compile_custom re_ok body =
     (case index_of CHR ''('' body of
        None \<Rightarrow> ok (body, None)
      | Some open_at \<Rightarrow>
          (case last_index_of CHR '')'' body of
             None \<Rightarrow> throw (TypeError ''Unbalanced custom pattern'')
           | Some close_at \<Rightarrow>
               if close_at < open_at then throw (TypeError ''Unbalanced custom pattern'')
               else if 0 < length (drop (close_at + 1) body)
                 then throw (TypeError ''Unexpected text after the custom pattern'')
               else let source = anchored (js_slice (open_at + 1) close_at body) in
                 if \<not> re_ok source then throw (SyntaxError ''Invalid regular expression'')
                 else ok (take open_at body, Some source)))"

definition compile_param :: "(string \<Rightarrow> bool) \<Rightarrow> string \<Rightarrow> compiled_segment res" where
  "compile_param re_ok body0 =
     (let optional = ends_with ''?'' body0;
          body = (if optional then butlast body0 else body0) in
      res_bind (compile_custom re_ok body) (\<lambda>(name, pat).
        if name = [] \<or> CHR ''?'' \<in> set name
        then throw (TypeError ''Empty or invalid parameter name'')
        else ok \<lparr>kind = Param, seg_value = name, seg_pattern = pat, seg_optional = optional\<rparr>))"

fun compile_parts :: "(string \<Rightarrow> bool) \<Rightarrow> string list \<Rightarrow> compiled_segment list res" where
  "compile_parts re_ok [] = ok []"
| "compile_parts re_ok (raw # rest) =
     (if raw = [] then throw (TypeError ''Route path has an empty segment'')
      else if raw = ''*'' then
        (if rest \<noteq> [] then throw (TypeError ''Wildcard must be the last segment'')
         else ok [wildcard_seg])
      else if hd raw = CHR '':'' then
        res_bind (compile_param re_ok (tl raw)) (\<lambda>s.
          res_bind (compile_parts re_ok rest) (\<lambda>ss. ok (s # ss)))
      else if CHR ''*'' \<in> set raw then
        throw (TypeError ''Wildcard must be its own final segment'')
      else res_bind (compile_parts re_ok rest) (\<lambda>ss. ok (static_seg (decodeSegment raw) # ss)))"

text \<open>The second loop of \<open>compilePattern\<close>: (dynamic count, simple) from index i on.\<close>

fun classify :: "nat \<Rightarrow> bool \<Rightarrow> compiled_segment list \<Rightarrow> nat \<times> bool" where
  "classify i sawDynamic [] = (0, True)"
| "classify i sawDynamic (s # ss) =
     (if kind s = Static then
        (let (d, simple) = classify (Suc i) sawDynamic ss in (d, simple \<and> \<not> sawDynamic))
      else
        (let (d, simple) = classify (Suc i) True ss in
         (Suc d, simple \<and> \<not> (kind s = Wildcard \<or> seg_optional s \<or> seg_pattern s \<noteq> None \<or> i = 0))))"

definition compilePattern :: "(string \<Rightarrow> bool) \<Rightarrow> string \<Rightarrow> pattern_ir res" where
  "compilePattern re_ok path =
     (if path = [] \<or> hd path \<noteq> CHR ''/'' then throw (TypeError ''Route path must start with /'')
      else res_bind (compile_parts re_ok (path_parts path)) (\<lambda>segs.
        let (dynamic, simple) = classify 0 False segs in
        ok \<lparr>segments = segs, isStatic = (dynamic = 0), isSimple = (0 < dynamic \<and> simple)\<rparr>))"

definition paramNamesOf :: "compiled_segment list \<Rightarrow> string list" where
  "paramNamesOf segs = map seg_value (filter (\<lambda>s. kind s \<noteq> Static) segs)"

definition fastComparable :: "compiled_segment list \<Rightarrow> bool" where
  "fastComparable segs = list_all (\<lambda>s. \<not> (kind s = Static \<and> CHR ''/'' \<in> set (seg_value s))) segs"

section \<open>Overlap\<close>

function overlapSegments :: "compiled_segment list \<Rightarrow> compiled_segment list \<Rightarrow> bool" where
  "overlapSegments [] [] = True"
| "overlapSegments [] (y # ys) = ((seg_optional y \<or> kind y = Wildcard) \<and> overlapSegments [] ys)"
| "overlapSegments (x # xs) [] = ((seg_optional x \<or> kind x = Wildcard) \<and> overlapSegments xs [])"
| "overlapSegments (x # xs) (y # ys) =
     (if kind x = Wildcard \<or> kind y = Wildcard then True
      else if \<not> (kind x = Param \<or> kind y = Param \<or> seg_value x = seg_value y) then False
      else overlapSegments xs ys
        \<or> (seg_optional x \<and> overlapSegments xs (y # ys))
        \<or> (seg_optional y \<and> overlapSegments (x # xs) ys))"
  by pat_completeness auto
termination
  by (relation "measure (\<lambda>(a, b). length a + length b)") auto

definition patternsOverlap :: "(string \<Rightarrow> bool) \<Rightarrow> string \<Rightarrow> string \<Rightarrow> bool" where
  "patternsOverlap re_ok a b =
     (case (compilePattern re_ok a, compilePattern re_ok b) of
        (Inr aIR, Inr bIR) \<Rightarrow> overlapSegments (segments aIR) (segments bIR)
      | _ \<Rightarrow> True)"

section \<open>Well-formed segment lists\<close>

text \<open>What \<open>compilePattern\<close> guarantees of the IR it returns.\<close>

definition wf_segment :: "compiled_segment \<Rightarrow> bool" where
  "wf_segment s \<longleftrightarrow> seg_value s \<noteq> []
     \<and> (kind s \<noteq> Param \<longrightarrow> seg_pattern s = None \<and> \<not> seg_optional s)
     \<and> (kind s = Wildcard \<longrightarrow> seg_value s = ''wildcard'')"

definition wf_segments :: "compiled_segment list \<Rightarrow> bool" where
  "wf_segments ss \<longleftrightarrow> list_all wf_segment ss \<and> list_all (\<lambda>s. kind s \<noteq> Wildcard) (butlast ss)"

lemma wf_segments_Nil [simp]: "wf_segments []" by (simp add: wf_segments_def)

lemma wf_segments_Cons:
  "wf_segments (s # ss) \<longleftrightarrow> wf_segment s \<and> wf_segments ss \<and> (kind s = Wildcard \<longrightarrow> ss = [])"
  by (auto simp: wf_segments_def)

lemma wf_static_seg [simp]: "wf_segment (static_seg v) \<longleftrightarrow> v \<noteq> []" "kind (static_seg v) = Static"
  by (simp_all add: wf_segment_def static_seg_def)

lemma wf_wildcard_seg [simp]: "wf_segment wildcard_seg" "kind wildcard_seg = Wildcard"
  by (simp_all add: wf_segment_def wildcard_seg_def)

lemma compile_param_ok:
  "compile_param re_ok body = Inr s \<Longrightarrow> wf_segment s \<and> kind s = Param"
  by (auto simp: compile_param_def Let_def res_bind_ok wf_segment_def split: if_splits prod.splits)

lemma compile_parts_wf: "compile_parts re_ok parts = Inr ss \<Longrightarrow> wf_segments ss"
proof (induction parts arbitrary: ss)
  case (Cons raw rest)
  then show ?case
    by (auto simp: wf_segments_Cons res_bind_ok split: if_splits dest!: compile_param_ok)
qed simp

lemma compilePatternD:
  assumes "compilePattern re_ok path = Inr ir"
  shows "path \<noteq> [] \<and> hd path = CHR ''/'' \<and> compile_parts re_ok (path_parts path) = Inr (segments ir)
    \<and> isStatic ir = (fst (classify 0 False (segments ir)) = 0)
    \<and> isSimple ir = (0 < fst (classify 0 False (segments ir)) \<and> snd (classify 0 False (segments ir)))"
  using assms by (cases "compile_parts re_ok (path_parts path)")
    (auto simp: compilePattern_def Let_def case_prod_beta split: if_splits)

lemma compilePattern_segments:
  "compilePattern re_ok path = Inr ir \<Longrightarrow> compile_parts re_ok (path_parts path) = Inr (segments ir)"
  by (simp add: compilePatternD)

lemma compilePattern_wf: "compilePattern re_ok path = Inr ir \<Longrightarrow> wf_segments (segments ir)"
  by (blast dest: compilePattern_segments compile_parts_wf)

lemma classify_dynamic: "fst (classify i b ss) = 0 \<longleftrightarrow> list_all (\<lambda>s. kind s = Static) ss"
  by (induction i b ss rule: classify.induct) (auto simp: Let_def split: prod.splits)

lemma classify_saw:
  "snd (classify i True ss) \<Longrightarrow> list_all (\<lambda>s. kind s = Param \<and> \<not> seg_optional s \<and> seg_pattern s = None) ss"
proof (induction i True ss rule: classify.induct)
  case (2 i s ss)
  then show ?case by (cases "kind s") (auto split: prod.splits if_splits)
qed simp

text \<open>The shape \<open>isSimple\<close> promises: a static head, then only plain params.\<close>

definition plain_param :: "compiled_segment \<Rightarrow> bool" where
  "plain_param s \<longleftrightarrow> kind s = Param \<and> \<not> seg_optional s \<and> seg_pattern s = None"

lemma classify_simple:
  "snd (classify i False ss) \<Longrightarrow> 0 < fst (classify i False ss) \<Longrightarrow>
     \<exists>ps qs. ss = ps @ qs \<and> list_all (\<lambda>s. kind s = Static) ps \<and> list_all plain_param qs
       \<and> qs \<noteq> [] \<and> (i = 0 \<longrightarrow> ps \<noteq> [])"
proof (induction ss arbitrary: i)
  case (Cons s ss)
  show ?case
  proof (cases "kind s = Static")
    case True
    with Cons.prems have "snd (classify (Suc i) False ss)" "0 < fst (classify (Suc i) False ss)"
      by (auto split: prod.splits)
    from Cons.IH [OF this] obtain ps qs where "ss = ps @ qs" "list_all (\<lambda>s. kind s = Static) ps"
      "list_all plain_param qs" "qs \<noteq> []" by blast
    with True show ?thesis by (intro exI [of _ "s # ps"] exI [of _ qs]) auto
  next
    case False
    with Cons.prems have "snd (classify (Suc i) True ss)" and "i \<noteq> 0"
      and "kind s \<noteq> Wildcard" "\<not> seg_optional s" "seg_pattern s = None"
      by (auto split: prod.splits if_splits)
    with classify_saw False show ?thesis
      by (intro exI [of _ "[]"] exI [of _ "s # ss"]) (auto simp: plain_param_def [abs_def] intro: seg_kind.exhaust)
  qed
qed simp

lemma compilePattern_simple:
  assumes "compilePattern re_ok path = Inr ir" and "isSimple ir"
  shows "\<exists>ps qs. segments ir = ps @ qs \<and> list_all (\<lambda>s. kind s = Static) ps
    \<and> list_all plain_param qs \<and> ps \<noteq> [] \<and> qs \<noteq> []"
proof -
  from assms have "snd (classify 0 False (segments ir))" "0 < fst (classify 0 False (segments ir))"
    using compilePatternD by blast+
  from classify_simple [OF this] show ?thesis by auto
qed

lemma compilePattern_isStatic:
  "compilePattern re_ok path = Inr ir \<Longrightarrow> isStatic ir \<longleftrightarrow> list_all (\<lambda>s. kind s = Static) (segments ir)"
  by (drule compilePatternD) (simp add: classify_dynamic)

section \<open>What a pattern matches\<close>

text \<open>
  The reference meaning of a segment list over the split request path: \<open>slash\<close> says the raw
  path ends in "/" (the condition under which a wildcard may capture nothing).
\<close>

definition consumes :: "(string \<Rightarrow> string \<Rightarrow> bool) \<Rightarrow> string option \<Rightarrow> string \<Rightarrow> bool" where
  "consumes rx pat segment \<longleftrightarrow>
     0 < length segment \<and> (case pat of None \<Rightarrow> True | Some re \<Rightarrow> rx re (decodeSegment segment))"

fun pat_matches :: "(string \<Rightarrow> string \<Rightarrow> bool) \<Rightarrow> bool \<Rightarrow> compiled_segment list \<Rightarrow> string list \<Rightarrow> bool" where
  "pat_matches rx slash [] parts = (parts = [])"
| "pat_matches rx slash (s # ss) parts =
     (case kind s of
        Static \<Rightarrow> (case parts of [] \<Rightarrow> False
                   | p # ps \<Rightarrow> decodeSegment p = seg_value s \<and> pat_matches rx slash ss ps)
      | Param \<Rightarrow> (seg_optional s \<and> pat_matches rx slash ss parts)
          \<or> (case parts of [] \<Rightarrow> False
             | p # ps \<Rightarrow> consumes rx (seg_pattern s) p \<and> pat_matches rx slash ss ps)
      | Wildcard \<Rightarrow> parts \<noteq> [] \<or> slash)"

lemma pat_matches_Nil_parts:
  "pat_matches rx slash ss [] \<Longrightarrow> wf_segments ss \<Longrightarrow> overlapSegments [] ss \<and> overlapSegments ss []"
  by (induction ss) (auto simp: wf_segments_Cons split: seg_kind.splits)

lemma pat_matches_step:
  assumes "pat_matches rx slash (s # ss) parts" and "wf_segment s" and "kind s \<noteq> Wildcard"
  shows "(seg_optional s \<and> pat_matches rx slash ss parts)
    \<or> (\<exists>p ps. parts = p # ps \<and> pat_matches rx slash ss ps
         \<and> (kind s = Static \<longrightarrow> decodeSegment p = seg_value s))"
  using assms by (cases "kind s"; cases parts) (auto simp: wf_segment_def)

lemma overlap_sound:
  "wf_segments a \<Longrightarrow> wf_segments b \<Longrightarrow> pat_matches rx slash a parts \<Longrightarrow> pat_matches rx slash b parts
     \<Longrightarrow> overlapSegments a b"
proof (induction a b arbitrary: parts rule: overlapSegments.induct)
  case (4 x xs y ys)
  then have wf: "wf_segment x" "wf_segment y" "wf_segments xs" "wf_segments ys"
    by (simp_all add: wf_segments_Cons)
  show ?case
  proof (cases "kind x = Wildcard \<or> kind y = Wildcard")
    case False
    note X = pat_matches_step [OF "4.prems"(3) wf(1)] and Y = pat_matches_step [OF "4.prems"(4) wf(2)]
    have compat: "kind x = Param \<or> kind y = Param \<or> seg_value x = seg_value y"
      using X Y wf False by (cases "kind x"; cases "kind y") (auto simp: wf_segment_def)
    consider "seg_optional x" "pat_matches rx slash xs parts"
      | "seg_optional y" "pat_matches rx slash ys parts"
      | p ps where "parts = p # ps" "pat_matches rx slash xs ps" "pat_matches rx slash ys ps"
      using X Y False by fastforce
    then show ?thesis
      using 4 False compat wf by cases (auto simp del: pat_matches.simps)
  qed simp
next
  case (2 y ys)
  then show ?case using pat_matches_Nil_parts [of rx slash "y # ys"] by (simp del: pat_matches.simps(2))
next
  case (3 x xs)
  then have "parts = []" by simp
  with 3 show ?case using pat_matches_Nil_parts [of rx slash "x # xs"] by (simp del: pat_matches.simps(2))
qed simp

text \<open>The overlap guard never misses a request both patterns answer.\<close>

lemma patternsOverlap_sound:
  assumes "compilePattern re_ok a = Inr aIR" and "compilePattern re_ok b = Inr bIR"
    and "pat_matches rx slash (segments aIR) parts" and "pat_matches rx slash (segments bIR) parts"
  shows "patternsOverlap re_ok a b"
  using assms by (simp add: patternsOverlap_def) (blast intro: overlap_sound compilePattern_wf)

lemma patternsOverlap_sound_witness:
  "patternsOverlap (\<lambda>_. True) ''/u/:id'' ''/u/new''"
  by (rule patternsOverlap_sound [where rx = "\<lambda>_ _. True" and slash = False and parts = "[''u'', ''new'']"
        and aIR = "projr (compilePattern (\<lambda>_. True) ''/u/:id'')" and bIR = "projr (compilePattern (\<lambda>_. True) ''/u/new'')"])
    code_simp+

end
