(* ===== verification/Trie.thy ===== *)
theory Trie
  imports Pattern
begin

text \<open>
  The route trie, src/router/trie.ts. Nodes are a functional tree (each non-root node has one
  inbound edge); the mutable \<open>RouteTarget\<close> objects are shared by reference in the code and
  are numbers here, resolved in the store of theory Router. A terminal node that the code
  returns by reference is the list of edges leading to it. \<open>paramMore = null\<close> is the empty
  list.
\<close>

section \<open>Nodes\<close>

datatype trie_node = Node
    (nchildren: "(string \<times> trie_node) list")
    (nparam: "param_child option")
    (nparamMore: "param_child list")
    (nwildcard: "param_child option")
    (ntarget: "nat option")
    (nmatchNames: "string list option")
and param_child = PChild
    (pname: string)
    (ppattern: "string option")
    (pnode: trie_node)
    (pskip: "trie_node option")

definition createNode :: trie_node where
  "createNode = Node [] None [] None None None"

lemma createNode_simps [simp]:
  "nchildren createNode = []" "nparam createNode = None" "nparamMore createNode = []"
  "nwildcard createNode = None" "ntarget createNode = None" "nmatchNames createNode = None"
  by (simp_all add: createNode_def)

section \<open>Match products\<close>

type_synonym param_link = "(string \<times> string) list" \<comment> \<open>newest capture first\<close>

record trie_match =
  tm_target :: nat
  tm_names :: "string list"
  tm_values :: "string list"
  tm_offset :: nat

fun dedup_link :: "param_link \<Rightarrow> param_link \<Rightarrow> param_link" where
  "dedup_link acc [] = acc"
| "dedup_link acc ((n, v) # rest) =
     (if n \<in> fst ` set acc then dedup_link acc rest else dedup_link (acc @ [(n, v)]) rest)"

definition matchOf :: "nat \<Rightarrow> param_link \<Rightarrow> trie_match" where
  "matchOf t link =
     (let kept = dedup_link [] link in
      \<lparr>tm_target = t, tm_names = map fst kept, tm_values = map snd kept, tm_offset = 0\<rparr>)"

definition matchAt :: "trie_node \<Rightarrow> param_link \<Rightarrow> trie_match" where
  "matchAt n params =
     (let t = the (ntarget n) in
      case nmatchNames n of
        None \<Rightarrow> matchOf t params
      | Some names \<Rightarrow>
          if length names = 0 then \<lparr>tm_target = t, tm_names = [], tm_values = [], tm_offset = 0\<rparr>
          else if length params \<noteq> length names then matchOf t params
          else \<lparr>tm_target = t, tm_names = names, tm_values = rev (map snd params), tm_offset = 0\<rparr>)"

section \<open>The matcher: an explicit stack\<close>

type_synonym frame = "trie_node \<times> nat \<times> param_link"

text \<open>The head of the list is the top of the code's stack (\<open>push\<close> is Cons, \<open>pop\<close> takes the head).\<close>

definition pushVariant ::
  "(string \<Rightarrow> string \<Rightarrow> bool) \<Rightarrow> nat \<Rightarrow> string \<Rightarrow> string \<Rightarrow> param_link \<Rightarrow> param_child
     \<Rightarrow> frame list \<Rightarrow> frame list" where
  "pushVariant rx index segment decoded params variant stack =
     (let st = (case pskip variant of None \<Rightarrow> stack | Some sk \<Rightarrow> (sk, index, params) # stack) in
      if 0 < length segment
         \<and> (case ppattern variant of None \<Rightarrow> True | Some re \<Rightarrow> rx re decoded)
      then (pnode variant, index + 1, (pname variant, decoded) # params) # st else st)"

definition pushSkip :: "nat \<Rightarrow> param_link \<Rightarrow> param_child \<Rightarrow> frame list \<Rightarrow> frame list" where
  "pushSkip index params variant stack =
     (case pskip variant of None \<Rightarrow> stack | Some sk \<Rightarrow> (sk, index, params) # stack)"

definition trailing_slash :: "string \<Rightarrow> bool" where
  "trailing_slash path \<longleftrightarrow> path = ''/'' \<or> (1 < length path \<and> ends_with ''/'' path)"

text \<open>The branch at the end of the path (no target on the node).\<close>

definition pushEnd :: "string \<Rightarrow> trie_node \<Rightarrow> nat \<Rightarrow> param_link \<Rightarrow> frame list \<Rightarrow> frame list" where
  "pushEnd path node index params stack =
     (let st1 = (case nwildcard node of None \<Rightarrow> stack
                 | Some w \<Rightarrow> if ntarget (pnode w) \<noteq> None \<and> trailing_slash path
                             then (pnode w, index, (pname w, []) # params) # stack else stack);
          st2 = foldr (pushSkip index params) (nparamMore node) st1
      in (case nparam node of None \<Rightarrow> st2 | Some head \<Rightarrow> pushSkip index params head st2))"

definition staticChild :: "trie_node \<Rightarrow> string \<Rightarrow> trie_node option" where
  "staticChild node segment =
     (if CHR ''%'' \<notin> set segment then jm_get (nchildren node) segment
      else jm_get (nchildren node) (decodeSegment segment))"

definition pushMid ::
  "(string \<Rightarrow> string \<Rightarrow> bool) \<Rightarrow> string list \<Rightarrow> trie_node \<Rightarrow> nat \<Rightarrow> param_link
     \<Rightarrow> frame list \<Rightarrow> frame list" where
  "pushMid rx segs node index params stack =
     (let segment = segs ! index;
          st1 = (case nwildcard node of None \<Rightarrow> stack
                 | Some w \<Rightarrow> if ntarget (pnode w) \<noteq> None
                     then (let rest = js_join ''/'' (map decodeSegment (drop index segs)) in
                           (pnode w, length segs,
                            if 0 < length rest then (pname w, rest) # params else params) # stack)
                     else stack);
          st2 = (case nparam node of None \<Rightarrow> st1
                 | Some head \<Rightarrow>
                     let decoded = decodeSegment segment in
                     pushVariant rx index segment decoded params head
                       (foldr (pushVariant rx index segment decoded params) (nparamMore node) st1))
      in (case staticChild node segment of None \<Rightarrow> st2
          | Some child \<Rightarrow> (child, index + 1, params) # st2))"

text \<open>Every push goes to a proper subtree, each subtree at most once: the stack shrinks by weight.\<close>

definition stack_weight :: "frame list \<Rightarrow> nat" where
  "stack_weight st = sum_list (map (\<lambda>(n, _, _). size n) st)"

lemma stack_weight_simps [simp]:
  "stack_weight [] = 0" "stack_weight ((n, i, ps) # st) = size n + stack_weight st"
  by (simp_all add: stack_weight_def)

lemma size_pnode [simp, termination_simp]: "size (pnode v) < size v"
  by (cases v) simp

lemma size_pnode_le [simp]: "size (pnode v) \<le> Suc (size v)"
  by (cases v) simp

lemma size_pskip [simp, termination_simp]: "pskip v = Some s \<Longrightarrow> size s < size v"
  by (cases v) simp

lemma jm_get_node_size:
  "jm_get cs k = Some c \<Longrightarrow> size c \<le> size_list (size_prod (\<lambda>_. 0) size) cs"
  by (induction cs) (auto split: if_splits)

lemma weight_pushSkip: "stack_weight (pushSkip i ps v st) \<le> size v + stack_weight st"
  by (cases v) (simp add: pushSkip_def split: option.splits)

lemma weight_pushVariant:
  "stack_weight (pushVariant rx i s d ps v st) \<le> size v + stack_weight st"
  by (cases v) (simp add: pushVariant_def Let_def split: option.splits)

lemma weight_foldr:
  assumes "\<And>v st. stack_weight (f v st) \<le> size v + stack_weight st"
  shows "stack_weight (foldr f vs st) \<le> size_list size vs + stack_weight st"
proof (induction vs)
  case (Cons v vs)
  with assms [of v "foldr f vs st"] show ?case by simp
qed simp

lemma weight_pushEnd: "stack_weight (pushEnd path n i ps st) < size n + stack_weight st"
proof (cases n)
  case (Node cs p m w t mn)
  define st1 where "st1 = (case w of None \<Rightarrow> st
      | Some w \<Rightarrow> if ntarget (pnode w) \<noteq> None \<and> trailing_slash path
                  then (pnode w, i, (pname w, []) # ps) # st else st)"
  define st2 where "st2 = foldr (pushSkip i ps) m st1"
  have "stack_weight st1 \<le> size_option size w + stack_weight st"
    by (auto simp: st1_def split: option.splits intro: order.strict_implies_order)
  moreover have "stack_weight st2 \<le> size_list size m + stack_weight st1"
    unfolding st2_def by (rule weight_foldr) (rule weight_pushSkip)
  moreover have "stack_weight (pushEnd path n i ps st) \<le> size_option size p + stack_weight st2"
    using weight_pushSkip [THEN le_SucI] by (auto simp: pushEnd_def Node st1_def st2_def Let_def split: option.split)
  ultimately show ?thesis by (simp add: Node)
qed

lemma weight_pushMid: "stack_weight (pushMid rx segs n i ps st) < size n + stack_weight st"
proof (cases n)
  case (Node cs p m w t mn)
  define st1 where "st1 = (case w of None \<Rightarrow> st
      | Some w \<Rightarrow> if ntarget (pnode w) \<noteq> None
          then (let rest = js_join ''/'' (map decodeSegment (drop i segs)) in
                (pnode w, length segs, if 0 < length rest then (pname w, rest) # ps else ps) # st)
          else st)"
  define st2 where "st2 = (case p of None \<Rightarrow> st1
      | Some head \<Rightarrow> let decoded = decodeSegment (segs ! i) in
          pushVariant rx i (segs ! i) decoded ps head (foldr (pushVariant rx i (segs ! i) decoded ps) m st1))"
  have 1: "stack_weight st1 \<le> size_option size w + stack_weight st"
    by (auto simp: st1_def Let_def split: option.splits intro: order.strict_implies_order)
  have 2: "stack_weight (foldr (pushVariant rx i (segs ! i) d ps) m st1) \<le> size_list size m + stack_weight st1" for d
    by (rule weight_foldr) (rule weight_pushVariant)
  have 3: "stack_weight st2 \<le> size_option size p + (size_list size m + stack_weight st1)"
    using 2 by (auto simp: st2_def Let_def split: option.split
        intro!: le_SucI order_trans [OF weight_pushVariant])
  have "stack_weight (pushMid rx segs n i ps st)
      \<le> size_list (size_prod (\<lambda>_. 0) size) cs + stack_weight st2"
    using jm_get_node_size [of cs]
    by (fastforce simp: pushMid_def Node st1_def st2_def Let_def staticChild_def split: option.split)
  with 1 3 show ?thesis by (simp add: Node)
qed

function match_loop ::
  "(string \<Rightarrow> string \<Rightarrow> bool) \<Rightarrow> string \<Rightarrow> string list \<Rightarrow> frame list \<Rightarrow> trie_match option" where
  "match_loop rx path segs [] = None"
| "match_loop rx path segs ((node, index, params) # stack) =
     (if index = length segs then
        (if ntarget node \<noteq> None then Some (matchAt node params)
         else match_loop rx path segs (pushEnd path node index params stack))
      else match_loop rx path segs (pushMid rx segs node index params stack))"
  by pat_completeness auto
termination
  by (relation "measure (\<lambda>(_, _, _, st). stack_weight st)") (auto simp: weight_pushEnd weight_pushMid)

definition splitSegments :: "string \<Rightarrow> string list" where "splitSegments path = path_parts path"

definition matchPattern :: "(string \<Rightarrow> string \<Rightarrow> bool) \<Rightarrow> trie_node \<Rightarrow> string \<Rightarrow> trie_match option" where
  "matchPattern rx root path = match_loop rx path (splitSegments path) [(root, 0, [])]"

section \<open>Reference: all solutions in priority order\<close>

text \<open>
  \<open>trie_sols\<close> lists the terminals a depth-first search meets, best first: static child, then the
  variants in registration order (consume before skip), then the wildcard.
\<close>

lemma size_child [termination_simp]:
  "jm_get (nchildren n) k = Some c \<Longrightarrow> size c < size n"
  by (cases n) (auto dest: jm_get_node_size)

lemma size_staticChild [termination_simp]: "staticChild n k = Some c \<Longrightarrow> size c < size n"
  by (auto simp: staticChild_def split: if_splits intro: size_child)

lemma size_nparam [termination_simp]: "nparam n = Some v \<Longrightarrow> size v < size n"
  by (cases n) auto

lemma size_nparamMore [termination_simp]: "v \<in> set (nparamMore n) \<Longrightarrow> size v < size n"
  by (cases n) (auto dest: size_list_estimation' [of _ _ _ size, OF _ order_refl])

definition headVariant :: "trie_node \<Rightarrow> param_child list" where
  "headVariant n = (case nparam n of None \<Rightarrow> [] | Some v \<Rightarrow> [v])"

definition allVariants :: "trie_node \<Rightarrow> param_child list" where
  "allVariants n = (case nparam n of None \<Rightarrow> [] | Some v \<Rightarrow> v # nparamMore n)"

lemma size_headVariant [termination_simp]: "v \<in> set (headVariant n) \<Longrightarrow> size v < size n"
  by (auto simp: headVariant_def split: option.splits intro: size_nparam)

lemma size_allVariants [termination_simp]: "v \<in> set (allVariants n) \<Longrightarrow> size v < size n"
  by (auto simp: allVariants_def split: option.splits intro: size_nparam size_nparamMore)

lemma size_variant_node [termination_simp]: "v \<in> set (allVariants n) \<Longrightarrow> size (pnode v) < size n"
  using size_allVariants size_pnode by (rule order.strict_trans [rotated])

lemma size_variant_skip [termination_simp]:
  "v \<in> set (allVariants n) \<Longrightarrow> pskip v = Some s \<Longrightarrow> size s < size n"
  using size_allVariants size_pskip by (metis order.strict_trans)

lemma size_end_skip [termination_simp]:
  "v \<in> set (headVariant n @ nparamMore n) \<Longrightarrow> pskip v = Some s \<Longrightarrow> size s < size n"
  using size_headVariant size_nparamMore size_pskip by (metis UnE order.strict_trans set_append)

function trie_sols ::
  "(string \<Rightarrow> string \<Rightarrow> bool) \<Rightarrow> bool \<Rightarrow> trie_node \<Rightarrow> string list \<Rightarrow> param_link
     \<Rightarrow> (trie_node \<times> param_link) list" where
  "trie_sols rx slash n [] ps =
     (if ntarget n \<noteq> None then [(n, ps)]
      else concat (map (\<lambda>v. case pskip v of None \<Rightarrow> [] | Some s \<Rightarrow> trie_sols rx slash s [] ps)
             (headVariant n @ nparamMore n))
        @ (case nwildcard n of None \<Rightarrow> []
           | Some w \<Rightarrow> if ntarget (pnode w) \<noteq> None \<and> slash then [(pnode w, (pname w, []) # ps)] else []))"
| "trie_sols rx slash n (p # rest) ps =
     (case staticChild n p of None \<Rightarrow> [] | Some c \<Rightarrow> trie_sols rx slash c rest ps)
     @ concat (map (\<lambda>v. (if consumes rx (ppattern v) p
                          then trie_sols rx slash (pnode v) rest ((pname v, decodeSegment p) # ps) else [])
                        @ (case pskip v of None \<Rightarrow> [] | Some s \<Rightarrow> trie_sols rx slash s (p # rest) ps))
          (allVariants n))
     @ (case nwildcard n of None \<Rightarrow> []
        | Some w \<Rightarrow> if ntarget (pnode w) \<noteq> None
            then (let r = js_join ''/'' (map decodeSegment (p # rest)) in
                  [(pnode w, if 0 < length r then (pname w, r) # ps else ps)])
            else [])"
  by pat_completeness auto
termination
  by (relation "measure (\<lambda>(_, _, n, _, _). size n)") (auto simp: termination_simp size_end_skip simp del: set_append)

declare trie_sols.simps [simp del]

lemma trie_sols_target [simp]: "ntarget n = Some t \<Longrightarrow> trie_sols rx slash n [] ps = [(n, ps)]"
  by (simp add: trie_sols.simps(1))

definition frame_sols ::
  "(string \<Rightarrow> string \<Rightarrow> bool) \<Rightarrow> bool \<Rightarrow> string list \<Rightarrow> frame \<Rightarrow> (trie_node \<times> param_link) list" where
  "frame_sols rx slash segs fr = (case fr of (n, i, ps) \<Rightarrow> trie_sols rx slash n (drop i segs) ps)"

definition stack_sols where "stack_sols rx slash segs st = concat (map (frame_sols rx slash segs) st)"

lemma stack_sols_simps [simp]:
  "stack_sols rx slash segs [] = []"
  "stack_sols rx slash segs ((n, i, ps) # st) =
     trie_sols rx slash n (drop i segs) ps @ stack_sols rx slash segs st"
  by (simp_all add: stack_sols_def frame_sols_def)

lemma stack_sols_foldr:
  assumes "\<And>v st. stack_sols rx slash segs (f v st) = g v @ stack_sols rx slash segs st"
  shows "stack_sols rx slash segs (foldr f vs st) = concat (map g vs) @ stack_sols rx slash segs st"
  by (induction vs) (simp_all add: assms)

lemma stack_sols_pushSkip:
  "stack_sols rx slash segs (pushSkip i ps v st) =
     (case pskip v of None \<Rightarrow> [] | Some s \<Rightarrow> trie_sols rx slash s (drop i segs) ps)
     @ stack_sols rx slash segs st"
  by (simp add: pushSkip_def split: option.split)

lemma stack_sols_pushVariant:
  assumes "drop i segs = p # rest"
  shows "stack_sols rx slash segs (pushVariant rx i p (decodeSegment p) ps v st) =
     ((if consumes rx (ppattern v) p
       then trie_sols rx slash (pnode v) rest ((pname v, decodeSegment p) # ps) else [])
      @ (case pskip v of None \<Rightarrow> [] | Some s \<Rightarrow> trie_sols rx slash s (p # rest) ps))
     @ stack_sols rx slash segs st"
proof -
  have "drop (Suc i) segs = rest" using assms by (metis drop_Suc list.sel(3) tl_drop)
  with assms show ?thesis by (simp add: pushVariant_def Let_def consumes_def split: option.split)
qed

lemma stack_sols_pushEnd:
  assumes "i = length segs" and "ntarget n = None"
  shows "stack_sols rx (trailing_slash path) segs (pushEnd path n i ps st) =
     trie_sols rx (trailing_slash path) n [] ps @ stack_sols rx (trailing_slash path) segs st"
proof -
  have skip: "stack_sols rx slash segs (pushSkip i ps v st) =
     (case pskip v of None \<Rightarrow> [] | Some s \<Rightarrow> trie_sols rx slash s [] ps) @ stack_sols rx slash segs st"
    for slash v st
    using assms by (simp add: pushSkip_def split: option.split)
  have d: "drop i segs = []" using assms by simp
  note fold = stack_sols_foldr [where f = "pushSkip i ps" and rx = rx and segs = segs, OF skip]
  show ?thesis
    unfolding pushEnd_def headVariant_def trie_sols.simps(1) [of rx "trailing_slash path" n ps]
    by (cases "nwildcard n"; cases "nparam n") (auto simp: skip fold d assms(2) Let_def)
qed

lemma stack_sols_pushMid:
  assumes "i < length segs"
  shows "stack_sols rx slash segs (pushMid rx segs n i ps st) =
     trie_sols rx slash n (drop i segs) ps @ stack_sols rx slash segs st"
proof -
  define p rest where "p = segs ! i" and "rest = drop (Suc i) segs"
  with assms have d: "drop i segs = p # rest" by (simp add: Cons_nth_drop_Suc)
  note var = stack_sols_pushVariant [OF d]
  note fold = stack_sols_foldr [where f = "pushVariant rx i p (decodeSegment p) ps"
      and segs = segs and rx = rx and slash = slash, OF var]
  show ?thesis
    unfolding pushMid_def p_def [symmetric] d trie_sols.simps(2) [of rx slash n p rest ps]
      allVariants_def Let_def
    by (cases "nwildcard n"; cases "nparam n"; cases "staticChild n p")
      (auto simp: var fold d rest_def [symmetric])
qed

definition frames_ok :: "nat \<Rightarrow> frame list \<Rightarrow> bool" where
  "frames_ok m st \<longleftrightarrow> (\<forall>(n, i, ps) \<in> set st. i \<le> m)"

lemma frames_ok_simps [simp]:
  "frames_ok m []" "frames_ok m ((n, i, ps) # st) \<longleftrightarrow> i \<le> m \<and> frames_ok m st"
  by (simp_all add: frames_ok_def)

lemma frames_ok_foldr:
  assumes "\<And>v st. frames_ok m st \<Longrightarrow> frames_ok m (f v st)" and "frames_ok m st"
  shows "frames_ok m (foldr f vs st)"
  by (induction vs) (simp_all add: assms)

lemma frames_ok_push:
  "i \<le> m \<Longrightarrow> frames_ok m st \<Longrightarrow> frames_ok m (pushSkip i ps v st)"
  "i < m \<Longrightarrow> frames_ok m st \<Longrightarrow> frames_ok m (pushVariant rx i s d ps v st)"
  by (simp_all add: pushSkip_def pushVariant_def Let_def split: option.split)

lemma frames_ok_pushEnd: "i \<le> m \<Longrightarrow> frames_ok m st \<Longrightarrow> frames_ok m (pushEnd path n i ps st)"
  by (auto simp: pushEnd_def Let_def split: option.split intro!: frames_ok_push frames_ok_foldr)

lemma frames_ok_pushMid:
  "i < length segs \<Longrightarrow> frames_ok (length segs) st \<Longrightarrow> frames_ok (length segs) (pushMid rx segs n i ps st)"
  by (auto simp: pushMid_def Let_def split: option.split intro!: frames_ok_push frames_ok_foldr)

lemma match_loop_sols:
  "frames_ok (length segs) st \<Longrightarrow>
     match_loop rx path segs st =
     map_option (\<lambda>(n, ps). matchAt n ps) (hd_opt (stack_sols rx (trailing_slash path) segs st))"
proof (induction rx path segs st rule: match_loop.induct)
  case (2 rx path segs node index params stack)
  let ?s = "trailing_slash path"
  show ?case
  proof (cases "index = length segs")
    case True
    show ?thesis
    proof (cases "ntarget node")
      case None
      have "frames_ok (length segs) (pushEnd path node index params stack)"
        using "2.prems" by (simp add: frames_ok_pushEnd)
      with 2 True None show ?thesis by (simp add: stack_sols_pushEnd)
    next
      case (Some t)
      with True show ?thesis by (simp add: trie_sols.simps(1))
    qed
  next
    case False
    with 2 have lt: "index < length segs" by simp
    have "frames_ok (length segs) (pushMid rx segs node index params stack)"
      using "2.prems" lt by (simp add: frames_ok_pushMid)
    with 2 False lt show ?thesis by (simp add: stack_sols_pushMid)
  qed
qed simp

lemma matchPattern_sols:
  "matchPattern rx root path =
     map_option (\<lambda>(n, ps). matchAt n ps)
       (hd_opt (trie_sols rx (trailing_slash path) root (splitSegments path) []))"
  unfolding matchPattern_def by (subst match_loop_sols) simp_all

section \<open>The language of a trie\<close>

datatype step = SStatic string | SParam string "string option" | SWild string

text \<open>\<open>tword n w m\<close>: following the steps \<open>w\<close> (skip edges are silent) leads from n to a terminal m.\<close>

inductive tword :: "trie_node \<Rightarrow> step list \<Rightarrow> trie_node \<Rightarrow> bool" where
  here: "ntarget n \<noteq> None \<Longrightarrow> tword n [] n"
| static: "jm_get (nchildren n) k = Some c \<Longrightarrow> tword c w m \<Longrightarrow> tword n (SStatic k # w) m"
| consume: "v \<in> set (allVariants n) \<Longrightarrow> tword (pnode v) w m
     \<Longrightarrow> tword n (SParam (pname v) (ppattern v) # w) m"
| skip: "v \<in> set (allVariants n) \<Longrightarrow> pskip v = Some s \<Longrightarrow> tword s w m \<Longrightarrow> tword n w m"
| wild: "nwildcard n = Some v \<Longrightarrow> ntarget (pnode v) \<noteq> None \<Longrightarrow> tword n [SWild (pname v)] (pnode v)"

fun word_matches :: "(string \<Rightarrow> string \<Rightarrow> bool) \<Rightarrow> bool \<Rightarrow> step list \<Rightarrow> string list \<Rightarrow> bool" where
  "word_matches rx slash [] parts = (parts = [])"
| "word_matches rx slash (SStatic k # w) parts =
     (case parts of [] \<Rightarrow> False | p # ps \<Rightarrow> decodeSegment p = k \<and> word_matches rx slash w ps)"
| "word_matches rx slash (SParam nm pat # w) parts =
     (case parts of [] \<Rightarrow> False | p # ps \<Rightarrow> consumes rx pat p \<and> word_matches rx slash w ps)"
| "word_matches rx slash (SWild nm # w) parts = (parts \<noteq> [] \<or> slash)"

text \<open>The captures along a word, oldest first. A mid-path wildcard with an empty rest captures nothing.\<close>

fun word_caps :: "step list \<Rightarrow> string list \<Rightarrow> (string \<times> string) list" where
  "word_caps (SStatic k # w) (p # ps) = word_caps w ps"
| "word_caps (SParam nm pat # w) (p # ps) = (nm, decodeSegment p) # word_caps w ps"
| "word_caps (SWild nm # w) [] = [(nm, [])]"
| "word_caps (SWild nm # w) (p # ps) =
     (let r = js_join ''/'' (map decodeSegment (p # ps)) in if 0 < length r then [(nm, r)] else [])"
| "word_caps _ _ = []"

text \<open>What registration keeps of every node: one name and distinct patterns per position.\<close>

inductive trie_wf :: "trie_node \<Rightarrow> bool" where
  "(nparam n = None \<longrightarrow> nparamMore n = [])
   \<Longrightarrow> distinct (map ppattern (allVariants n))
   \<Longrightarrow> (\<forall>v \<in> set (allVariants n). \<forall>u \<in> set (allVariants n). pname v = pname u)
   \<Longrightarrow> (\<forall>k c. jm_get (nchildren n) k = Some c \<longrightarrow> trie_wf c)
   \<Longrightarrow> (\<forall>v \<in> set (allVariants n). trie_wf (pnode v) \<and> (\<forall>s. pskip v = Some s \<longrightarrow> trie_wf s))
   \<Longrightarrow> (\<forall>v. nwildcard n = Some v \<longrightarrow> trie_wf (pnode v) \<and> pname v = ''wildcard'')
   \<Longrightarrow> trie_wf n"

inductive_cases trie_wfE: "trie_wf n"

lemma trie_wfD:
  assumes "trie_wf n"
  shows trie_wf_more: "nparam n = None \<Longrightarrow> nparamMore n = []"
    and trie_wf_distinct: "distinct (map ppattern (allVariants n))"
    and trie_wf_name: "v \<in> set (allVariants n) \<Longrightarrow> u \<in> set (allVariants n) \<Longrightarrow> pname v = pname u"
    and trie_wf_child: "jm_get (nchildren n) k = Some c \<Longrightarrow> trie_wf c"
    and trie_wf_variant: "v \<in> set (allVariants n) \<Longrightarrow> trie_wf (pnode v)"
    and trie_wf_skip: "v \<in> set (allVariants n) \<Longrightarrow> pskip v = Some s \<Longrightarrow> trie_wf s"
    and trie_wf_wild: "nwildcard n = Some v \<Longrightarrow> trie_wf (pnode v)"
    and trie_wf_wild_name: "nwildcard n = Some v \<Longrightarrow> pname v = ''wildcard''"
  using assms by (auto elim: trie_wfE)

lemma trie_wf_createNode [simp]: "trie_wf createNode"
  by (rule trie_wf.intros) (simp_all add: allVariants_def)

lemma staticChild_decode: "staticChild n p = jm_get (nchildren n) (decodeSegment p)"
  by (simp add: staticChild_def)

lemma trie_wf_variants: "trie_wf n \<Longrightarrow> set (headVariant n @ nparamMore n) = set (allVariants n)"
  by (cases "nparam n") (simp_all add: headVariant_def allVariants_def trie_wf_more)

definition skip_sols ::
  "(string \<Rightarrow> string \<Rightarrow> bool) \<Rightarrow> bool \<Rightarrow> string list \<Rightarrow> param_link \<Rightarrow> param_child
     \<Rightarrow> (trie_node \<times> param_link) list" where
  "skip_sols rx slash parts ps v = (case pskip v of None \<Rightarrow> [] | Some s \<Rightarrow> trie_sols rx slash s parts ps)"

lemma in_skip_sols: "x \<in> set (skip_sols rx slash parts ps v) \<longleftrightarrow>
    (\<exists>s. pskip v = Some s \<and> x \<in> set (trie_sols rx slash s parts ps))"
  by (cases "pskip v") (simp_all add: skip_sols_def)

lemma in_sols_Nil:
  assumes "ntarget n = None"
  shows "x \<in> set (trie_sols rx slash n [] ps) \<longleftrightarrow>
     (\<exists>v \<in> set (headVariant n @ nparamMore n). x \<in> set (skip_sols rx slash [] ps v))
     \<or> (\<exists>v. nwildcard n = Some v \<and> ntarget (pnode v) \<noteq> None \<and> slash
          \<and> x = (pnode v, (pname v, []) # ps))"
proof -
  have "trie_sols rx slash n [] ps = concat (map (skip_sols rx slash [] ps) (headVariant n @ nparamMore n))
      @ (case nwildcard n of None \<Rightarrow> []
         | Some w \<Rightarrow> if ntarget (pnode w) \<noteq> None \<and> slash then [(pnode w, (pname w, []) # ps)] else [])"
    by (subst trie_sols.simps(1)) (simp only: assms skip_sols_def [abs_def] simp_thms if_False)
  then show ?thesis by (cases "nwildcard n") auto
qed

lemma in_sols_Cons:
  "x \<in> set (trie_sols rx slash n (p # rest) ps) \<longleftrightarrow>
     (\<exists>c. staticChild n p = Some c \<and> x \<in> set (trie_sols rx slash c rest ps))
     \<or> (\<exists>v \<in> set (allVariants n). consumes rx (ppattern v) p
          \<and> x \<in> set (trie_sols rx slash (pnode v) rest ((pname v, decodeSegment p) # ps)))
     \<or> (\<exists>v \<in> set (allVariants n). x \<in> set (skip_sols rx slash (p # rest) ps v))
     \<or> (\<exists>v. nwildcard n = Some v \<and> ntarget (pnode v) \<noteq> None
          \<and> x = (pnode v, rev (word_caps [SWild (pname v)] (p # rest)) @ ps))"
proof -
  have "trie_sols rx slash n (p # rest) ps =
     (case staticChild n p of None \<Rightarrow> [] | Some c \<Rightarrow> trie_sols rx slash c rest ps)
     @ concat (map (\<lambda>v. (if consumes rx (ppattern v) p
                          then trie_sols rx slash (pnode v) rest ((pname v, decodeSegment p) # ps) else [])
                        @ skip_sols rx slash (p # rest) ps v) (allVariants n))
     @ (case nwildcard n of None \<Rightarrow> []
        | Some w \<Rightarrow> if ntarget (pnode w) \<noteq> None
            then (let r = js_join ''/'' (map decodeSegment (p # rest)) in
                  [(pnode w, if 0 < length r then (pname w, r) # ps else ps)])
            else [])"
    by (subst trie_sols.simps(2)) (simp only: skip_sols_def)
  then show ?thesis
    by (cases "nwildcard n"; cases "staticChild n p") (auto simp: Let_def split: if_splits)
qed

lemma trie_sols_sound:
  "trie_wf n \<Longrightarrow> (m, qs) \<in> set (trie_sols rx slash n parts ps) \<Longrightarrow>
     \<exists>w. tword n w m \<and> word_matches rx slash w parts \<and> qs = rev (word_caps w parts) @ ps"
proof (induction rx slash n parts ps arbitrary: m qs rule: trie_sols.induct)
  case (1 rx slash n ps)
  note wf = "1.prems"(1)
  show ?case
  proof (cases "ntarget n")
    case (Some t)
    with "1.prems" show ?thesis by (intro exI [of _ "[]"]) (auto intro: tword.here)
  next
    case None
    from "1.prems"(2) consider
      (skip) v s where "v \<in> set (headVariant n @ nparamMore n)" "pskip v = Some s"
          "(m, qs) \<in> set (trie_sols rx slash s [] ps)"
      | (wild) v where "nwildcard n = Some v" "ntarget (pnode v) \<noteq> None" "slash"
          "m = pnode v" "qs = (pname v, []) # ps"
      using in_sols_Nil [OF None, of "(m, qs)" rx slash ps] by (auto simp: in_skip_sols)
    then show ?thesis
    proof cases
      case skip
      then have v: "v \<in> set (allVariants n)" using trie_wf_variants [OF wf] by blast
      have "\<not> (ntarget n \<noteq> None)" using None by simp
      from "1.IH" [OF this skip(1,2) trie_wf_skip [OF wf v skip(2)] skip(3)] show ?thesis
        using v skip(2) by (blast intro: tword.skip)
    next
      case wild
      then show ?thesis by (intro exI [of _ "[SWild (pname v)]"]) (auto intro: tword.wild)
    qed
  qed
next
  case (2 rx slash n p rest ps)
  note wf = "2.prems"(1)
  from "2.prems"(2) consider
    (static) c where "staticChild n p = Some c" "(m, qs) \<in> set (trie_sols rx slash c rest ps)"
    | (consume) v where "v \<in> set (allVariants n)" "consumes rx (ppattern v) p"
        "(m, qs) \<in> set (trie_sols rx slash (pnode v) rest ((pname v, decodeSegment p) # ps))"
    | (skip) v s where "v \<in> set (allVariants n)" "pskip v = Some s"
        "(m, qs) \<in> set (trie_sols rx slash s (p # rest) ps)"
    | (wild) v where "nwildcard n = Some v" "ntarget (pnode v) \<noteq> None" "m = pnode v"
        "qs = rev (word_caps [SWild (pname v)] (p # rest)) @ ps"
    using in_sols_Cons [of "(m, qs)" rx slash n p rest ps] by (auto simp: in_skip_sols)
  then show ?case
  proof cases
    case static
    then have c: "jm_get (nchildren n) (decodeSegment p) = Some c" by (simp add: staticChild_decode)
    from "2.IH"(1) [OF static(1) trie_wf_child [OF wf c] static(2)] obtain w where
      "tword c w m" "word_matches rx slash w rest" "qs = rev (word_caps w rest) @ ps" by blast
    with tword.static [OF c] show ?thesis by (intro exI [of _ "SStatic (decodeSegment p) # w"]) simp
  next
    case consume
    from "2.IH"(2) [OF consume(1,2) trie_wf_variant [OF wf consume(1)] consume(3)] obtain w where
      "tword (pnode v) w m" "word_matches rx slash w rest"
      "qs = rev (word_caps w rest) @ (pname v, decodeSegment p) # ps" by blast
    with tword.consume [OF consume(1)] consume(2) show ?thesis
      by (intro exI [of _ "SParam (pname v) (ppattern v) # w"]) simp
  next
    case skip
    from "2.IH"(3) [OF skip(1,2) trie_wf_skip [OF wf skip(1,2)] skip(3)] show ?thesis
      using skip(1,2) by (blast intro: tword.skip)
  next
    case wild
    then show ?thesis by (intro exI [of _ "[SWild (pname v)]"]) (auto intro: tword.wild)
  qed
qed

lemma trie_sols_complete:
  "tword n w m \<Longrightarrow> word_matches rx slash w parts \<Longrightarrow> \<exists>x. x \<in> set (trie_sols rx slash n parts ps)"
proof (induction arbitrary: parts ps rule: tword.induct)
  case (here n)
  then show ?case by auto
next
  case (static n k c w m)
  then obtain p rest where parts: "parts = p # rest" "staticChild n p = Some c" "word_matches rx slash w rest"
    by (cases parts) (auto simp: staticChild_decode)
  with static.IH [OF parts(3)] show ?case
    using in_sols_Cons [of _ rx slash n p rest ps] by blast
next
  case (consume v n w m)
  then obtain p rest where parts: "parts = p # rest" "consumes rx (ppattern v) p" "word_matches rx slash w rest"
    by (cases parts) auto
  with consume.IH [OF parts(3)] consume.hyps(1) show ?case
    using in_sols_Cons [of _ rx slash n p rest ps] by blast
next
  case (skip v n s w m)
  from skip.IH [OF skip.prems, of ps] skip.hyps(2) obtain x where
    x: "x \<in> set (skip_sols rx slash parts ps v)" by (auto simp: in_skip_sols)
  show ?case
  proof (cases parts)
    case Nil
    have v: "v \<in> set (headVariant n @ nparamMore n)"
      using skip.hyps(1) by (auto simp: headVariant_def allVariants_def split: option.splits)
    show ?thesis
    proof (cases "ntarget n")
      case None
      from x v show ?thesis unfolding Nil using in_sols_Nil [OF None, of _ rx slash ps] by blast
    qed (auto simp: Nil)
  next
    case (Cons p rest)
    with x skip.hyps(1) show ?thesis using in_sols_Cons [of _ rx slash n p rest ps] by blast
  qed
next
  case (wild n v)
  show ?case
  proof (cases parts)
    case Nil
    show ?thesis
    proof (cases "ntarget n")
      case None
      from wild Nil have slash by simp
      with wild show ?thesis unfolding Nil using in_sols_Nil [OF None, of _ rx slash ps] by blast
    qed (auto simp: Nil)
  next
    case (Cons p rest)
    with wild.hyps show ?thesis using in_sols_Cons [of _ rx slash n p rest ps] by blast
  qed
qed

end
