(* ===== verification/TrieInsert.thy ===== *)
theory TrieInsert
  imports Trie
begin

text \<open>
  Registration into the trie, src/router/trie.ts \<open>insertPattern\<close>, and the terminal bookkeeping of
  \<open>indexPattern\<close>. A terminal is returned as the list of edges from the root. The insert returns
  the node also when it throws: the code has then already created part of the branch.
\<close>

section \<open>Node updates\<close>

definition set_child :: "string \<Rightarrow> trie_node \<Rightarrow> trie_node \<Rightarrow> trie_node" where
  "set_child k c n = Node (jm_set k c (nchildren n)) (nparam n) (nparamMore n) (nwildcard n) (ntarget n) (nmatchNames n)"

definition set_wildcard :: "param_child \<Rightarrow> trie_node \<Rightarrow> trie_node" where
  "set_wildcard v n = Node (nchildren n) (nparam n) (nparamMore n) (Some v) (ntarget n) (nmatchNames n)"

definition set_variants :: "param_child option \<Rightarrow> param_child list \<Rightarrow> trie_node \<Rightarrow> trie_node" where
  "set_variants h m n = Node (nchildren n) h m (nwildcard n) (ntarget n) (nmatchNames n)"

definition set_ntarget :: "nat \<Rightarrow> trie_node \<Rightarrow> trie_node" where
  "set_ntarget t n = Node (nchildren n) (nparam n) (nparamMore n) (nwildcard n) (Some t) (nmatchNames n)"

definition set_matchNames :: "string list \<Rightarrow> trie_node \<Rightarrow> trie_node" where
  "set_matchNames ns n = Node (nchildren n) (nparam n) (nparamMore n) (nwildcard n) (ntarget n) (Some ns)"

definition with_node :: "trie_node \<Rightarrow> param_child \<Rightarrow> param_child" where
  "with_node c v = PChild (pname v) (ppattern v) c (pskip v)"

definition with_skip :: "trie_node \<Rightarrow> param_child \<Rightarrow> param_child" where
  "with_skip c v = PChild (pname v) (ppattern v) (pnode v) (Some c)"

lemmas node_updates = set_child_def set_wildcard_def set_variants_def set_ntarget_def
  set_matchNames_def

lemma node_updates_sel [simp]:
  "nchildren (set_child k c n) = jm_set k c (nchildren n)" "nparam (set_child k c n) = nparam n"
  "nparamMore (set_child k c n) = nparamMore n" "nwildcard (set_child k c n) = nwildcard n"
  "ntarget (set_child k c n) = ntarget n"
  "nchildren (set_wildcard v n) = nchildren n" "nparam (set_wildcard v n) = nparam n"
  "nparamMore (set_wildcard v n) = nparamMore n" "nwildcard (set_wildcard v n) = Some v"
  "ntarget (set_wildcard v n) = ntarget n"
  "nchildren (set_variants h m n) = nchildren n" "nparam (set_variants h m n) = h"
  "nparamMore (set_variants h m n) = m" "nwildcard (set_variants h m n) = nwildcard n"
  "ntarget (set_variants h m n) = ntarget n"
  "nchildren (set_ntarget t n) = nchildren n" "nparam (set_ntarget t n) = nparam n"
  "nparamMore (set_ntarget t n) = nparamMore n" "nwildcard (set_ntarget t n) = nwildcard n"
  "ntarget (set_ntarget t n) = Some t"
  "nchildren (set_matchNames ns n) = nchildren n" "nparam (set_matchNames ns n) = nparam n"
  "nparamMore (set_matchNames ns n) = nparamMore n" "nwildcard (set_matchNames ns n) = nwildcard n"
  "ntarget (set_matchNames ns n) = ntarget n"
  by (simp_all add: node_updates)

lemma with_sel [simp]:
  "pname (with_node c v) = pname v" "ppattern (with_node c v) = ppattern v"
  "pnode (with_node c v) = c" "pskip (with_node c v) = pskip v"
  "pname (with_skip c v) = pname v" "ppattern (with_skip c v) = ppattern v"
  "pnode (with_skip c v) = pnode v" "pskip (with_skip c v) = Some c"
  by (simp_all add: with_node_def with_skip_def)

section \<open>insertPattern\<close>

definition samePattern :: "string option \<Rightarrow> string option \<Rightarrow> bool" where
  "samePattern a b = (case (a, b) of (Some x, Some y) \<Rightarrow> x = y | _ \<Rightarrow> a = b)"

lemma samePattern_eq [simp]: "samePattern a b \<longleftrightarrow> a = b"
  by (auto simp: samePattern_def split: option.splits)

definition variantFor :: "trie_node \<Rightarrow> string option \<Rightarrow> param_child option" where
  "variantFor n pat =
     (case nparam n of
        Some head \<Rightarrow> if samePattern (ppattern head) pat then Some head
                     else List.find (\<lambda>v. samePattern (ppattern v) pat) (nparamMore n)
      | None \<Rightarrow> List.find (\<lambda>v. samePattern (ppattern v) pat) (nparamMore n))"

text \<open>Writing back the variant that \<open>variantFor\<close> returned by reference.\<close>

fun replace_first :: "('a \<Rightarrow> bool) \<Rightarrow> 'a \<Rightarrow> 'a list \<Rightarrow> 'a list" where
  "replace_first P y [] = []"
| "replace_first P y (x # xs) = (if P x then y # xs else x # replace_first P y xs)"

definition putVariant :: "trie_node \<Rightarrow> string option \<Rightarrow> param_child \<Rightarrow> trie_node" where
  "putVariant n pat v =
     (case nparam n of
        Some head \<Rightarrow> if samePattern (ppattern head) pat then set_variants (Some v) (nparamMore n) n
                     else set_variants (Some head) (replace_first (\<lambda>v. samePattern (ppattern v) pat) v (nparamMore n)) n
      | None \<Rightarrow> set_variants None (replace_first (\<lambda>v. samePattern (ppattern v) pat) v (nparamMore n)) n)"

definition ensureVariant :: "trie_node \<Rightarrow> compiled_segment \<Rightarrow> trie_node res" where
  "ensureVariant n s =
     (let created = PChild (seg_value s) (seg_pattern s) createNode None in
      case nparam n of
        None \<Rightarrow> ok (set_variants (Some created) (nparamMore n) n)
      | Some head \<Rightarrow>
          if pname head \<noteq> seg_value s
          then throw (TypeError ''Conflicting parameter names at the same position'')
          else if variantFor n (seg_pattern s) = None
            then ok (set_variants (Some head) (nparamMore n @ [created]) n)
          else ok n)"

datatype edge = EStatic string | EConsume "string option" | ESkip "string option" | EWild

type_synonym addr = "edge list"

definition down :: "edge \<Rightarrow> addr list res \<Rightarrow> addr list res" where
  "down e r = res_bind r (\<lambda>as. ok (map ((#) e) as))"

fun insert_at ::
  "string list \<Rightarrow> trie_node \<Rightarrow> compiled_segment list \<Rightarrow> trie_node \<times> addr list res" where
  "insert_at names n [] =
     (case nmatchNames n of None \<Rightarrow> (set_matchNames names n, ok [[]]) | Some _ \<Rightarrow> (n, ok [[]]))"
| "insert_at names n (s # ss) =
     (case kind s of
        Wildcard \<Rightarrow>
          (let w = (case nwildcard n of Some w \<Rightarrow> w | None \<Rightarrow> PChild ''wildcard'' None createNode None);
               (sub, r) = insert_at (names @ [''wildcard'']) (pnode w) ss
           in (set_wildcard (with_node sub w) n, down EWild r))
      | Param \<Rightarrow>
          (case ensureVariant n s of
             Inl e \<Rightarrow> (n, throw e)
           | Inr n1 \<Rightarrow>
              (case variantFor n1 (seg_pattern s) of
                 None \<Rightarrow> (n1, throw (TypeError ''unreachable param variant''))
               | Some v \<Rightarrow>
                  (let (sub, r) = insert_at (names @ [seg_value s]) (pnode v) ss;
                       v2 = with_node sub v; n2 = putVariant n1 (seg_pattern s) v2
                   in case r of
                        Inl e \<Rightarrow> (n2, throw e)
                      | Inr consumed \<Rightarrow>
                          if \<not> seg_optional s then (n2, down (EConsume (seg_pattern s)) r)
                          else (let (sub2, r2) = insert_at names
                                      (case pskip v2 of Some sk \<Rightarrow> sk | None \<Rightarrow> createNode) ss
                                in (putVariant n2 (seg_pattern s) (with_skip sub2 v2),
                                    res_bind (down (EConsume (seg_pattern s)) r) (\<lambda>a.
                                      res_bind (down (ESkip (seg_pattern s)) r2) (\<lambda>b. ok (a @ b))))))))
      | Static \<Rightarrow>
          (let (sub, r) = insert_at names
                 (case jm_get (nchildren n) (seg_value s) of Some c \<Rightarrow> c | None \<Rightarrow> createNode) ss
           in (set_child (seg_value s) sub n, down (EStatic (seg_value s)) r)))"

definition insertPattern :: "trie_node \<Rightarrow> compiled_segment list \<Rightarrow> trie_node \<times> addr list res" where
  "insertPattern root segs = insert_at [] root segs"

section \<open>Addresses\<close>

text \<open>The node at an address; a wildcard edge is always the last.\<close>

fun node_at :: "trie_node \<Rightarrow> addr \<Rightarrow> trie_node option" where
  "node_at n [] = Some n"
| "node_at n (EStatic k # a) = (case jm_get (nchildren n) k of None \<Rightarrow> None | Some c \<Rightarrow> node_at c a)"
| "node_at n (EConsume p # a) = (case variantFor n p of None \<Rightarrow> None | Some v \<Rightarrow> node_at (pnode v) a)"
| "node_at n (ESkip p # a) =
     (case variantFor n p of None \<Rightarrow> None
      | Some v \<Rightarrow> (case pskip v of None \<Rightarrow> None | Some s \<Rightarrow> node_at s a))"
| "node_at n (EWild # a) =
     (case nwildcard n of None \<Rightarrow> None | Some v \<Rightarrow> if a = [] then Some (pnode v) else None)"

fun update_at :: "(trie_node \<Rightarrow> trie_node) \<Rightarrow> addr \<Rightarrow> trie_node \<Rightarrow> trie_node" where
  "update_at f [] n = f n"
| "update_at f (EStatic k # a) n =
     (case jm_get (nchildren n) k of None \<Rightarrow> n | Some c \<Rightarrow> set_child k (update_at f a c) n)"
| "update_at f (EConsume p # a) n =
     (case variantFor n p of None \<Rightarrow> n | Some v \<Rightarrow> putVariant n p (with_node (update_at f a (pnode v)) v))"
| "update_at f (ESkip p # a) n =
     (case variantFor n p of None \<Rightarrow> n
      | Some v \<Rightarrow> (case pskip v of None \<Rightarrow> n | Some s \<Rightarrow> putVariant n p (with_skip (update_at f a s) v)))"
| "update_at f (EWild # a) n =
     (case nwildcard n of None \<Rightarrow> n
      | Some v \<Rightarrow> if a = [] then set_wildcard (with_node (f (pnode v)) v) n else n)"

fun word_at :: "trie_node \<Rightarrow> addr \<Rightarrow> step list" where
  "word_at n [] = []"
| "word_at n (EStatic k # a) =
     (case jm_get (nchildren n) k of None \<Rightarrow> [] | Some c \<Rightarrow> SStatic k # word_at c a)"
| "word_at n (EConsume p # a) =
     (case variantFor n p of None \<Rightarrow> [] | Some v \<Rightarrow> SParam (pname v) p # word_at (pnode v) a)"
| "word_at n (ESkip p # a) =
     (case variantFor n p of None \<Rightarrow> []
      | Some v \<Rightarrow> (case pskip v of None \<Rightarrow> [] | Some s \<Rightarrow> word_at s a))"
| "word_at n (EWild # a) = (case nwildcard n of None \<Rightarrow> [] | Some v \<Rightarrow> [SWild (pname v)])"

definition target_at :: "trie_node \<Rightarrow> addr \<Rightarrow> nat option" where
  "target_at n a = (case node_at n a of None \<Rightarrow> None | Some m \<Rightarrow> ntarget m)"

definition set_target :: "addr \<Rightarrow> nat \<Rightarrow> trie_node \<Rightarrow> trie_node" where
  "set_target a t n = update_at (set_ntarget t) a n"


section \<open>Laws of the updates\<close>

lemma variantFor_find: "nparam n \<noteq> None \<or> nparamMore n = [] \<Longrightarrow>
    variantFor n p = List.find (\<lambda>v. ppattern v = p) (allVariants n)"
  by (cases "nparam n") (simp_all add: variantFor_def allVariants_def)

lemma variantFor_pattern: "variantFor n p = Some v \<Longrightarrow> ppattern v = p"
  by (auto simp: variantFor_def find_Some_iff split: option.splits if_splits)

lemma find_replace_first:
  "List.find (\<lambda>v. ppattern v = p) vs = Some v \<Longrightarrow> ppattern v' = p \<Longrightarrow>
     List.find (\<lambda>v. ppattern v = q) (replace_first (\<lambda>v. ppattern v = p) v' vs) =
     (if q = p then Some v' else List.find (\<lambda>v. ppattern v = q) vs)"
  by (induction vs) auto

lemma variantFor_put [simp]:
  "variantFor n p = Some v \<Longrightarrow> ppattern v' = p \<Longrightarrow>
     variantFor (putVariant n p v') q = (if q = p then Some v' else variantFor n q)"
  by (cases "nparam n") (auto simp: variantFor_def putVariant_def find_replace_first)

lemma putVariant_sel [simp]:
  "nchildren (putVariant n p v) = nchildren n" "nwildcard (putVariant n p v) = nwildcard n"
  "ntarget (putVariant n p v) = ntarget n"
  by (simp_all add: putVariant_def split: option.split)

lemma variantFor_set [simp]:
  "variantFor (set_child k c n) p = variantFor n p" "variantFor (set_wildcard v n) p = variantFor n p"
  "variantFor (set_ntarget t n) p = variantFor n p" "variantFor (set_matchNames ns n) p = variantFor n p"
  by (simp_all add: variantFor_def split: option.split)

lemma find_app: "List.find P (xs @ ys) = (case List.find P xs of None \<Rightarrow> List.find P ys | Some x \<Rightarrow> Some x)"
  by (induction xs) auto

lemma ensureVariant_sel:
  assumes "ensureVariant n s = Inr n1"
  shows "nchildren n1 = nchildren n" "nwildcard n1 = nwildcard n" "ntarget n1 = ntarget n"
  using assms by (auto simp: ensureVariant_def Let_def split: option.splits if_splits)

lemma ensureVariant_variants:
  assumes "ensureVariant n s = Inr n1" and "trie_wf n"
  shows "variantFor n1 q =
     (if variantFor n q = None \<and> q = seg_pattern s
      then Some (PChild (seg_value s) (seg_pattern s) createNode None) else variantFor n q)"
  using assms trie_wf_more [OF assms(2)]
  by (cases "nparam n")
    (auto simp: ensureVariant_def variantFor_def Let_def find_app split: if_splits option.splits)

section \<open>Registration never disturbs what is there\<close>

definition extends :: "trie_node \<Rightarrow> trie_node \<Rightarrow> bool" where
  "extends n n' \<longleftrightarrow> (\<forall>a. target_at n' a = target_at n a
     \<and> (node_at n a \<noteq> None \<longrightarrow> node_at n' a \<noteq> None \<and> word_at n' a = word_at n a))"

lemma extends_refl [simp]: "extends n n" by (simp add: extends_def)

lemma extends_trans [trans]: "extends a b \<Longrightarrow> extends b c \<Longrightarrow> extends a c"
  by (simp add: extends_def)

lemma extendsD:
  "extends n n' \<Longrightarrow> target_at n' a = target_at n a"
  "extends n n' \<Longrightarrow> node_at n a = Some m \<Longrightarrow> \<exists>m'. node_at n' a = Some m'"
  "extends n n' \<Longrightarrow> node_at n a = Some m \<Longrightarrow> word_at n' a = word_at n a"
  unfolding extends_def by blast+

lemma target_at_simps [simp]:
  "target_at n [] = ntarget n"
  "target_at n (EStatic k # a) = (case jm_get (nchildren n) k of None \<Rightarrow> None | Some c \<Rightarrow> target_at c a)"
  "target_at n (EConsume p # a) = (case variantFor n p of None \<Rightarrow> None | Some v \<Rightarrow> target_at (pnode v) a)"
  "target_at n (ESkip p # a) =
     (case variantFor n p of None \<Rightarrow> None
      | Some v \<Rightarrow> (case pskip v of None \<Rightarrow> None | Some s \<Rightarrow> target_at s a))"
  "target_at n (EWild # a) =
     (case nwildcard n of None \<Rightarrow> None | Some v \<Rightarrow> if a = [] then ntarget (pnode v) else None)"
  by (simp_all add: target_at_def split: option.split)

lemma target_at_createNode [simp]: "target_at createNode a = None"
proof (cases a)
  case (Cons e b)
  then show ?thesis by (cases e) (simp_all add: variantFor_def)
qed simp

lemma extends_target: "extends n n' \<Longrightarrow> ntarget n' = ntarget n"
  using extendsD(1) [of n n' "[]"] by simp

lemma extends_edges:
  assumes "ntarget n' = ntarget n"
    and "\<And>k c. jm_get (nchildren n) k = Some c \<Longrightarrow> \<exists>c'. jm_get (nchildren n') k = Some c' \<and> extends c c'"
    and "\<And>k c. jm_get (nchildren n) k = None \<Longrightarrow> jm_get (nchildren n') k = Some c \<Longrightarrow> extends createNode c"
    and "\<And>p v. variantFor n p = Some v \<Longrightarrow> \<exists>v'. variantFor n' p = Some v' \<and> pname v' = pname v
      \<and> extends (pnode v) (pnode v')
      \<and> (\<forall>s. pskip v = Some s \<longrightarrow> (\<exists>s'. pskip v' = Some s' \<and> extends s s'))
      \<and> (\<forall>s'. pskip v = None \<longrightarrow> pskip v' = Some s' \<longrightarrow> extends createNode s')"
    and "\<And>p v. variantFor n p = None \<Longrightarrow> variantFor n' p = Some v \<Longrightarrow> extends createNode (pnode v)
      \<and> (\<forall>s. pskip v = Some s \<longrightarrow> extends createNode s)"
    and "\<And>v. nwildcard n = Some v \<Longrightarrow> \<exists>v'. nwildcard n' = Some v' \<and> pname v' = pname v
      \<and> ntarget (pnode v') = ntarget (pnode v)"
    and "\<And>v. nwildcard n = None \<Longrightarrow> nwildcard n' = Some v \<Longrightarrow> ntarget (pnode v) = None"
  shows "extends n n'"
  unfolding extends_def
proof (intro allI conjI impI)
  fix a
  have new: "extends createNode c \<Longrightarrow> target_at c b = None" for c b
    using extendsD(1) [of createNode c b] by simp
  show "target_at n' a = target_at n a"
  proof (cases a)
    case Nil
    with assms(1) show ?thesis by simp
  next
    case (Cons e b)
    show ?thesis
    proof (cases e)
      case (EStatic k)
      with Cons assms(2,3) [of k] show ?thesis
        by (cases "jm_get (nchildren n) k") (fastforce simp: new extendsD(1) split: option.split)+
    next
      case (EConsume p)
      with Cons assms(4,5) [of p] show ?thesis
        by (cases "variantFor n p") (fastforce simp: new extendsD(1) split: option.split)+
    next
      case (ESkip p)
      show ?thesis
      proof (cases "variantFor n p")
        case None
        with Cons ESkip assms(5) [of p] show ?thesis by (fastforce simp: new split: option.split)
      next
        case (Some v)
        with assms(4) [OF Some] Cons ESkip show ?thesis
          by (cases "pskip v") (fastforce simp: new extendsD(1) split: option.split)+
      qed
    next
      case EWild
      with Cons assms(6,7) show ?thesis
        by (cases "nwildcard n") (fastforce split: option.split)+
    qed
  qed
  assume def: "node_at n a \<noteq> None"
  have "node_at n' a \<noteq> None \<and> word_at n' a = word_at n a"
  proof (cases a)
    case (Cons e b)
    show ?thesis
    proof (cases e)
      case (EStatic k)
      with Cons def assms(2) [of k] show ?thesis
        by (auto split: option.splits dest: extendsD(2,3))
    next
      case (EConsume p)
      with Cons def assms(4) [of p] show ?thesis by (auto split: option.splits dest: extendsD(2,3))
    next
      case (ESkip p)
      with Cons def assms(4) [of p] show ?thesis by (auto split: option.splits dest: extendsD(2,3))
    next
      case EWild
      with Cons def assms(6) show ?thesis by (auto split: option.splits if_splits)
    qed
  qed simp
  then show "node_at n' a \<noteq> None" "word_at n' a = word_at n a" by blast+
qed


lemma extends_set_child:
  assumes "extends (case jm_get (nchildren n) k of Some c \<Rightarrow> c | None \<Rightarrow> createNode) c'"
  shows "extends n (set_child k c' n)"
  by (rule extends_edges) (use assms in \<open>auto split: if_splits\<close>)

lemma extends_put:
  assumes v: "variantFor n p = Some v" and u: "ppattern u = p" "pname u = pname v"
    and node: "extends (pnode v) (pnode u)"
    and skip: "\<And>s. pskip v = Some s \<Longrightarrow> \<exists>s'. pskip u = Some s' \<and> extends s s'"
    and fresh: "\<And>s'. pskip v = None \<Longrightarrow> pskip u = Some s' \<Longrightarrow> extends createNode s'"
  shows "extends n (putVariant n p u)"
proof (rule extends_edges)
  note put = variantFor_put [OF v u(1)]
  show "\<exists>v'. variantFor (putVariant n p u) q = Some v' \<and> pname v' = pname w
      \<and> extends (pnode w) (pnode v')
      \<and> (\<forall>s. pskip w = Some s \<longrightarrow> (\<exists>s'. pskip v' = Some s' \<and> extends s s'))
      \<and> (\<forall>s'. pskip w = None \<longrightarrow> pskip v' = Some s' \<longrightarrow> extends createNode s')"
    if "variantFor n q = Some w" for q w
  proof (cases "q = p")
    case True
    with that v have "w = v" by simp
    with True put u(2) node skip fresh show ?thesis by simp
  next
    case False
    with that put show ?thesis by simp
  qed
  show "extends createNode (pnode w) \<and> (\<forall>s. pskip w = Some s \<longrightarrow> extends createNode s)"
    if "variantFor n q = None" "variantFor (putVariant n p u) q = Some w" for q w
    using that put v by (simp split: if_splits)
qed simp_all

lemma extends_put_node:
  "variantFor n p = Some v \<Longrightarrow> extends (pnode v) c' \<Longrightarrow> extends n (putVariant n p (with_node c' v))"
  by (rule extends_put) (auto simp: variantFor_pattern)

lemma extends_put_skip:
  "variantFor n p = Some v \<Longrightarrow> extends (case pskip v of Some sk \<Rightarrow> sk | None \<Rightarrow> createNode) c' \<Longrightarrow>
     extends n (putVariant n p (with_skip c' v))"
  by (rule extends_put) (auto simp: variantFor_pattern)

lemma extends_set_wildcard:
  assumes "extends (pnode (case nwildcard n of Some w \<Rightarrow> w | None \<Rightarrow> PChild ''wildcard'' None createNode None)) c'"
  shows "extends n (set_wildcard (with_node c'
      (case nwildcard n of Some w \<Rightarrow> w | None \<Rightarrow> PChild ''wildcard'' None createNode None)) n)"
  using extends_target [OF assms] by - (rule extends_edges, auto)

lemma extends_ensure: "ensureVariant n s = Inr n1 \<Longrightarrow> trie_wf n \<Longrightarrow> extends n n1"
  by (rule extends_edges)
    (auto simp: ensureVariant_sel ensureVariant_variants split: if_splits)

lemma extends_set_matchNames: "extends n (set_matchNames ns n)"
  by (rule extends_edges) auto

section \<open>Well-formedness is kept\<close>

lemma allVariants_put:
  "trie_wf n \<Longrightarrow> variantFor n p = Some v \<Longrightarrow>
     allVariants (putVariant n p u) = replace_first (\<lambda>v. ppattern v = p) u (allVariants n)"
  by (cases "nparam n") (auto simp: allVariants_def putVariant_def variantFor_def trie_wf_more)

lemma replace_first_map:
  "ppattern u = p \<Longrightarrow> map ppattern (replace_first (\<lambda>v. ppattern v = p) u vs) = map ppattern vs"
  by (induction vs) auto

lemma replace_first_set: "x \<in> set (replace_first P u vs) \<Longrightarrow> x = u \<or> x \<in> set vs"
  by (induction vs) (auto split: if_splits)

lemma allVariants_set [simp]:
  "allVariants (set_child k c n) = allVariants n" "allVariants (set_wildcard v n) = allVariants n"
  "allVariants (set_ntarget t n) = allVariants n" "allVariants (set_matchNames ns n) = allVariants n"
  by (simp_all add: allVariants_def split: option.split)

lemma variantFor_in:
  assumes "trie_wf n" and "variantFor n p = Some v"
  shows "v \<in> set (allVariants n)"
proof -
  have "nparam n \<noteq> None \<or> nparamMore n = []" using trie_wf_more [OF assms(1)] by blast
  from variantFor_find [OF this] assms(2) show ?thesis by (auto simp: find_Some_iff)
qed

lemma wf_set_child: "trie_wf n \<Longrightarrow> trie_wf c \<Longrightarrow> trie_wf (set_child k c n)"
  by (rule trie_wf.intros) (auto elim: trie_wfE split: if_splits)

lemma wf_set_wildcard:
  "trie_wf n \<Longrightarrow> trie_wf (pnode v) \<Longrightarrow> pname v = ''wildcard'' \<Longrightarrow> trie_wf (set_wildcard v n)"
  by (rule trie_wf.intros) (auto elim: trie_wfE)

lemma wf_set_matchNames: "trie_wf n \<Longrightarrow> trie_wf (set_matchNames ns n)"
  by (rule trie_wf.intros) (auto elim: trie_wfE)

lemma wf_set_ntarget: "trie_wf n \<Longrightarrow> trie_wf (set_ntarget t n)"
  by (rule trie_wf.intros) (auto elim: trie_wfE)

lemma wf_put:
  assumes wf: "trie_wf n" and v: "variantFor n p = Some v"
    and u: "ppattern u = p" "pname u = pname v" "trie_wf (pnode u)" "\<And>s. pskip u = Some s \<Longrightarrow> trie_wf s"
  shows "trie_wf (putVariant n p u)"
proof (rule trie_wf.intros)
  note in_v = variantFor_in [OF wf v]
  have sub: "x = u \<or> x \<in> set (allVariants n)" if "x \<in> set (allVariants (putVariant n p u))" for x
    using that replace_first_set [of x] by (simp add: allVariants_put [OF wf v])
  show "nparam (putVariant n p u) = None \<longrightarrow> nparamMore (putVariant n p u) = []"
    using trie_wf_more [OF wf] by (auto simp: putVariant_def split: option.splits)
  show "distinct (map ppattern (allVariants (putVariant n p u)))"
    using trie_wf_distinct [OF wf] by (simp add: allVariants_put [OF wf v] replace_first_map [OF u(1)])
  show "\<forall>x\<in>set (allVariants (putVariant n p u)). \<forall>y\<in>set (allVariants (putVariant n p u)). pname x = pname y"
    using trie_wf_name [OF wf] in_v u(2) by (metis sub)
  show "\<forall>x\<in>set (allVariants (putVariant n p u)). trie_wf (pnode x) \<and> (\<forall>s. pskip x = Some s \<longrightarrow> trie_wf s)"
    using trie_wf_variant [OF wf] trie_wf_skip [OF wf] u(3,4) by (metis sub)
qed (use trie_wfD [OF wf] in auto)

lemma wf_variants:
  assumes wf: "trie_wf n" and "nchildren n' = nchildren n" and "nwildcard n' = nwildcard n"
    and "nparam n' \<noteq> None" and "distinct (map ppattern (allVariants n'))"
    and "\<And>v. v \<in> set (allVariants n') \<Longrightarrow> pname v = nm"
    and "\<And>v. v \<in> set (allVariants n') \<Longrightarrow> trie_wf (pnode v)"
    and "\<And>v s. v \<in> set (allVariants n') \<Longrightarrow> pskip v = Some s \<Longrightarrow> trie_wf s"
  shows "trie_wf n'"
proof (rule trie_wf.intros)
  show "\<forall>k c. jm_get (nchildren n') k = Some c \<longrightarrow> trie_wf c"
    using trie_wf_child [OF wf] assms(2) by simp
  show "\<forall>v. nwildcard n' = Some v \<longrightarrow> trie_wf (pnode v) \<and> pname v = ''wildcard''"
    using trie_wf_wild [OF wf] trie_wf_wild_name [OF wf] assms(3) by simp
qed (use assms(4-8) in auto)

lemma wf_ensure:
  assumes "ensureVariant n s = Inr n1" and wf: "trie_wf n"
  shows "trie_wf n1 \<and> (\<exists>v. variantFor n1 (seg_pattern s) = Some v \<and> pname v = seg_value s)"
proof -
  define created where "created = PChild (seg_value s) (seg_pattern s) createNode None"
  have fresh: "ppattern created = seg_pattern s" "pname created = seg_value s" "trie_wf (pnode created)" "pskip created = None"
    by (simp_all add: created_def)
  show ?thesis
  proof (cases "nparam n")
    case None
    then have n1: "n1 = set_variants (Some created) [] n"
      using assms trie_wf_more [OF wf] by (simp add: ensureVariant_def created_def Let_def)
    have all: "allVariants n1 = [created]" by (simp add: n1 allVariants_def)
    have "trie_wf n1" using fresh by (intro wf_variants [OF wf, of n1 "seg_value s"]) (simp_all add: all, simp_all add: n1)
    moreover have "variantFor n1 (seg_pattern s) = Some created" by (simp add: n1 variantFor_def fresh)
    ultimately show ?thesis using fresh by blast
  next
    case (Some head)
    then have hd: "pname head = seg_value s" and in_head: "head \<in> set (allVariants n)"
      using assms by (auto simp: ensureVariant_def Let_def allVariants_def split: if_splits)
    show ?thesis
    proof (cases "variantFor n (seg_pattern s)")
      case None
      then have n1: "n1 = set_variants (Some head) (nparamMore n @ [created]) n"
        using assms Some by (auto simp: ensureVariant_def created_def Let_def split: if_splits)
      have all: "allVariants n1 = allVariants n @ [created]" by (simp add: n1 allVariants_def Some)
      have "\<forall>v \<in> set (allVariants n). ppattern v \<noteq> seg_pattern s"
        using None variantFor_find [of n "seg_pattern s"] \<open>nparam n = Some head\<close>
        by (simp add: find_None_iff)
      moreover have "\<forall>v \<in> set (allVariants n). pname v = seg_value s"
        using trie_wf_name [OF wf _ in_head] hd by metis
      ultimately have "trie_wf n1" using fresh(2-4) trie_wf_distinct [OF wf] fresh(1)
        by (intro wf_variants [OF wf, of n1 "seg_value s"])
          (auto simp: all, auto simp: n1 intro: trie_wf_variant [OF wf] trie_wf_skip [OF wf])
      moreover have "variantFor n1 (seg_pattern s) = Some created"
        using ensureVariant_variants [OF assms] None by (simp add: created_def)
      ultimately show ?thesis using fresh by blast
    next
      case (Some v)
      with assms \<open>nparam n = Some head\<close> have "n1 = n" by (auto simp: ensureVariant_def Let_def split: if_splits)
      with Some wf trie_wf_name [OF wf variantFor_in [OF wf Some] in_head] hd show ?thesis by simp
    qed
  qed
qed


section \<open>The language added by a registration\<close>

text \<open>The words a pattern stands for: an optional param is consumed or skipped.\<close>

fun expand :: "compiled_segment list \<Rightarrow> step list list" where
  "expand [] = [[]]"
| "expand (s # ss) =
     (case kind s of
        Static \<Rightarrow> map ((#) (SStatic (seg_value s))) (expand ss)
      | Param \<Rightarrow> map ((#) (SParam (seg_value s) (seg_pattern s))) (expand ss)
                 @ (if seg_optional s then expand ss else [])
      | Wildcard \<Rightarrow> [[SWild ''wildcard'']])"

lemma down_ok: "down e r = Inr as \<longleftrightarrow> (\<exists>bs. r = Inr bs \<and> as = map ((#) e) bs)"
  by (cases r) (auto simp: down_def)

text \<open>The param step once the variant is there, with the two recursive results given.\<close>

definition insert_param ::
  "trie_node \<Rightarrow> compiled_segment \<Rightarrow> param_child \<Rightarrow> trie_node \<times> addr list res
     \<Rightarrow> trie_node \<times> addr list res \<Rightarrow> trie_node \<times> addr list res" where
  "insert_param n1 s v res1 res2 =
     (let (sub, r) = res1; v2 = with_node sub v; n2 = putVariant n1 (seg_pattern s) v2
      in case r of
           Inl e \<Rightarrow> (n2, throw e)
         | Inr consumed \<Rightarrow>
             if \<not> seg_optional s then (n2, down (EConsume (seg_pattern s)) r)
             else (let (sub2, r2) = res2
                   in (putVariant n2 (seg_pattern s) (with_skip sub2 v2),
                       res_bind (down (EConsume (seg_pattern s)) r) (\<lambda>a.
                         res_bind (down (ESkip (seg_pattern s)) r2) (\<lambda>b. ok (a @ b))))))"

lemma insert_param_wf:
  assumes wf1: "trie_wf n1" and v: "variantFor n1 (seg_pattern s) = Some v"
    and IH1: "trie_wf sub" "extends (pnode v) sub"
    and IH2: "trie_wf sub2" "extends (case pskip v of Some sk \<Rightarrow> sk | None \<Rightarrow> createNode) sub2"
    and res: "(n', r) = insert_param n1 s v (sub, r1) (sub2, r2)"
  shows "trie_wf n' \<and> extends n1 n'"
proof -
  let ?p = "seg_pattern s"
  note in1 = variantFor_in [OF wf1 v] and pat = variantFor_pattern [OF v]
  define v2 n2 where "v2 = with_node sub v" and "n2 = putVariant n1 ?p v2"
  have wf2: "trie_wf n2"
    unfolding n2_def v2_def by (rule wf_put [OF wf1 v]) (use IH1 trie_wf_skip [OF wf1 in1] pat in auto)
  have ext2: "extends n1 n2"
    using extends_put_node [OF v IH1(2)] by (simp add: n2_def v2_def)
  have vf2: "variantFor n2 ?p = Some v2"
    unfolding n2_def using v pat by (simp add: v2_def)
  have wf3: "trie_wf (putVariant n2 ?p (with_skip sub2 v2))"
    by (rule wf_put [OF wf2 vf2])
      (use IH2 trie_wf_variant [OF wf2 variantFor_in [OF wf2 vf2]] variantFor_pattern [OF vf2] in auto)
  have ext3: "extends n1 (putVariant n2 ?p (with_skip sub2 v2))"
    using extends_trans [OF ext2 extends_put_skip [OF vf2, of sub2]] IH2(2) by (simp add: v2_def)
  have "n' = n2 \<or> n' = putVariant n2 ?p (with_skip sub2 v2)"
    using res by (auto simp: insert_param_def n2_def v2_def Let_def split: sum.splits if_splits)
  with wf2 ext2 wf3 ext3 show ?thesis by blast
qed

lemma insert_at_wf:
  "trie_wf n \<Longrightarrow> insert_at names n ss = (n', r) \<Longrightarrow> trie_wf n' \<and> extends n n'"
proof (induction ss arbitrary: names n n' r)
  case Nil
  then show ?case
    by (auto simp: extends_set_matchNames wf_set_matchNames split: option.splits)
next
  case (Cons s ss)
  note wf = Cons.prems(1)
  show ?case
  proof (cases "kind s")
    case Static
    define c where "c = (case jm_get (nchildren n) (seg_value s) of Some c \<Rightarrow> c | None \<Rightarrow> createNode)"
    obtain sub r0 where sub: "insert_at names c ss = (sub, r0)" by fastforce
    have n': "n' = set_child (seg_value s) sub n"
      using Cons.prems(2) Static sub by (auto simp: c_def)
    have "trie_wf c" using trie_wf_child [OF wf] by (auto simp: c_def split: option.split)
    from Cons.IH [OF this sub] show ?thesis
      using wf_set_child [OF wf] extends_set_child [of n "seg_value s" sub] by (simp add: n' c_def)
  next
    case Wildcard
    define w where "w = (case nwildcard n of Some w \<Rightarrow> w | None \<Rightarrow> PChild ''wildcard'' None createNode None)"
    obtain sub r0 where sub: "insert_at (names @ [''wildcard'']) (pnode w) ss = (sub, r0)" by fastforce
    have n': "n' = set_wildcard (with_node sub w) n"
      using Cons.prems(2) Wildcard sub by (auto simp: w_def)
    have "trie_wf (pnode w)" "pname w = ''wildcard''"
      using trie_wf_wild [OF wf] trie_wf_wild_name [OF wf] by (auto simp: w_def split: option.split)
    with Cons.IH [OF this(1) sub] show ?thesis
      using wf_set_wildcard [OF wf] extends_set_wildcard [of n sub] by (simp add: n' w_def)
  next
    case Param
    show ?thesis
    proof (cases "ensureVariant n s")
      case (Inl e)
      with Cons.prems Param show ?thesis by simp
    next
      case (Inr n1)
      from wf_ensure [OF Inr wf] obtain v where
        wf1: "trie_wf n1" and v: "variantFor n1 (seg_pattern s) = Some v" by blast
      note in1 = variantFor_in [OF wf1 v]
      define sk where "sk = (case pskip v of Some sk \<Rightarrow> sk | None \<Rightarrow> createNode)"
      obtain sub r1 sub2 r2 where sub: "insert_at (names @ [seg_value s]) (pnode v) ss = (sub, r1)"
        and sub2: "insert_at names sk ss = (sub2, r2)" by fastforce
      have wfsk: "trie_wf sk" using trie_wf_skip [OF wf1 in1] by (auto simp: sk_def split: option.split)
      note IH1 = Cons.IH [OF trie_wf_variant [OF wf1 in1] sub] and IH2 = Cons.IH [OF wfsk sub2]
      have r: "(n', r) = insert_param n1 s v (sub, r1) (sub2, r2)"
        using Cons.prems(2) Param Inr v sub sub2 by (cases r1) (auto simp: insert_param_def sk_def Let_def)
      from IH1 IH2 have "trie_wf n' \<and> extends n1 n'"
        by (intro insert_param_wf [OF wf1 v _ _ _ _ r]) (auto simp: sk_def)
      with extends_trans [OF extends_ensure [OF Inr wf]] show ?thesis by blast
    qed
  qed
qed


definition added :: "trie_node \<Rightarrow> addr list \<Rightarrow> step list list \<Rightarrow> bool" where
  "added n as ws \<longleftrightarrow> (\<forall>a \<in> set as. node_at n a \<noteq> None) \<and> map (word_at n) as = ws"

lemma added_extends: "added n as ws \<Longrightarrow> extends n n' \<Longrightarrow> added n' as ws"
  by (auto simp: added_def extends_def)

lemma added_append: "added n as ws \<Longrightarrow> added n bs vs \<Longrightarrow> added n (as @ bs) (ws @ vs)"
  by (auto simp: added_def)

lemma added_static:
  "added c as ws \<Longrightarrow> added (set_child k c n) (map ((#) (EStatic k)) as) (map ((#) (SStatic k)) ws)"
  by (auto simp: added_def)

lemma added_consume:
  "variantFor n p = Some v \<Longrightarrow> added (pnode v) as ws \<Longrightarrow>
     added n (map ((#) (EConsume p)) as) (map ((#) (SParam (pname v) p)) ws)"
  by (auto simp: added_def)

lemma added_skip:
  "variantFor n p = Some v \<Longrightarrow> pskip v = Some s \<Longrightarrow> added s as ws \<Longrightarrow> added n (map ((#) (ESkip p)) as) ws"
  by (auto simp: added_def)

lemma insert_param_added:
  assumes wf1: "trie_wf n1" and v: "variantFor n1 (seg_pattern s) = Some v"
    and IH1: "\<And>as. r1 = Inr as \<Longrightarrow> added sub as ws"
    and IH2: "\<And>as. r2 = Inr as \<Longrightarrow> added sub2 as ws"
    and ext2: "extends (case pskip v of Some sk \<Rightarrow> sk | None \<Rightarrow> createNode) sub2"
    and res: "(n', Inr as) = insert_param n1 s v (sub, r1) (sub2, r2)"
  shows "added n' as (map ((#) (SParam (pname v) (seg_pattern s))) ws @ (if seg_optional s then ws else []))"
proof -
  let ?p = "seg_pattern s"
  note pat = variantFor_pattern [OF v]
  define v2 n2 where "v2 = with_node sub v" and "n2 = putVariant n1 ?p v2"
  have vf2: "variantFor n2 ?p = Some v2"
    unfolding n2_def using v pat by (simp add: v2_def)
  obtain bs where bs: "r1 = Inr bs" using res by (cases r1) (simp_all add: insert_param_def Let_def)
  from added_consume [OF vf2, of bs ws] IH1 [OF bs]
  have con: "added n2 (map ((#) (EConsume ?p)) bs) (map ((#) (SParam (pname v) ?p)) ws)"
    by (simp add: v2_def)
  show ?thesis
  proof (cases "seg_optional s")
    case False
    with res bs con show ?thesis by (simp add: insert_param_def down_def n2_def v2_def Let_def)
  next
    case True
    with res bs obtain cs where cs: "r2 = Inr cs" and n': "n' = putVariant n2 ?p (with_skip sub2 v2)"
      and as: "as = map ((#) (EConsume ?p)) bs @ map ((#) (ESkip ?p)) cs"
      by (cases r2) (auto simp: insert_param_def down_def n2_def v2_def Let_def)
    have "extends n2 n'"
      unfolding n' by (rule extends_put_skip [OF vf2]) (use ext2 in \<open>simp add: v2_def\<close>)
    moreover have "variantFor n' ?p = Some (with_skip sub2 v2)"
      unfolding n' using vf2 variantFor_pattern [OF vf2] by simp
    then have "added n' (map ((#) (ESkip ?p)) cs) ws" by (rule added_skip) (use IH2 [OF cs] in auto)
    ultimately show ?thesis
      using True added_append [OF added_extends [OF con]] by (simp add: as)
  qed
qed

lemma insert_at_added:
  "trie_wf n \<Longrightarrow> wf_segments ss \<Longrightarrow> insert_at names n ss = (n', Inr as) \<Longrightarrow> added n' as (expand ss)"
proof (induction ss arbitrary: names n n' as)
  case Nil
  then show ?case by (auto simp: added_def split: option.splits)
next
  case (Cons s ss)
  note wf = Cons.prems(1)
  have wfs: "wf_segments ss" using Cons.prems(2) by (simp add: wf_segments_Cons)
  show ?case
  proof (cases "kind s")
    case Static
    define c where "c = (case jm_get (nchildren n) (seg_value s) of Some c \<Rightarrow> c | None \<Rightarrow> createNode)"
    obtain sub r0 where sub: "insert_at names c ss = (sub, r0)" by fastforce
    with Cons.prems(3) Static obtain bs where r0: "r0 = Inr bs" and n': "n' = set_child (seg_value s) sub n"
      and as: "as = map ((#) (EStatic (seg_value s))) bs"
      by (auto simp: c_def down_ok)
    have "trie_wf c" using trie_wf_child [OF wf] by (auto simp: c_def split: option.split)
    from added_static [OF Cons.IH [OF this wfs sub [unfolded r0]]] show ?thesis
      using Static by (simp add: n' as)
  next
    case Wildcard
    then have "ss = []" using Cons.prems(2) by (simp add: wf_segments_Cons)
    with Cons.prems(3) Wildcard trie_wf_wild_name [OF wf] show ?thesis
      by (auto simp: added_def down_def with_node_def set_wildcard_def split: option.splits)
  next
    case Param
    with Cons.prems(3) obtain n1 where n1: "ensureVariant n s = Inr n1"
      by (cases "ensureVariant n s") auto
    from wf_ensure [OF n1 wf] obtain v where wf1: "trie_wf n1"
      and v: "variantFor n1 (seg_pattern s) = Some v" "pname v = seg_value s" by blast
    note in1 = variantFor_in [OF wf1 v(1)]
    define sk where "sk = (case pskip v of Some sk \<Rightarrow> sk | None \<Rightarrow> createNode)"
    obtain sub r1 sub2 r2 where sub: "insert_at (names @ [seg_value s]) (pnode v) ss = (sub, r1)"
      and sub2: "insert_at names sk ss = (sub2, r2)" by fastforce
    have wfsk: "trie_wf sk" using trie_wf_skip [OF wf1 in1] by (auto simp: sk_def split: option.split)
    have r: "(n', Inr as) = insert_param n1 s v (sub, r1) (sub2, r2)"
      using Cons.prems(3) Param n1 v sub sub2 by (cases r1) (auto simp: insert_param_def sk_def Let_def)
    have "added n' as (map ((#) (SParam (pname v) (seg_pattern s))) (expand ss)
        @ (if seg_optional s then expand ss else []))"
      using Cons.IH [OF trie_wf_variant [OF wf1 in1] wfs] Cons.IH [OF wfsk wfs] sub sub2
        insert_at_wf [OF wfsk sub2]
      by (intro insert_param_added [OF wf1 v(1) _ _ _ r]) (auto simp: sk_def)
    with Param v(2) show ?thesis by simp
  qed
qed


section \<open>Giving a terminal its target\<close>

definition keeps_words :: "trie_node \<Rightarrow> trie_node \<Rightarrow> bool" where
  "keeps_words n n' \<longleftrightarrow>
     (\<forall>b. node_at n b \<noteq> None \<longrightarrow> node_at n' b \<noteq> None \<and> word_at n' b = word_at n b)"

lemma set_target_simps [simp]:
  "set_target [] t n = set_ntarget t n"
  "set_target (EStatic k # a) t n =
     (case jm_get (nchildren n) k of None \<Rightarrow> n | Some c \<Rightarrow> set_child k (set_target a t c) n)"
  "set_target (EConsume p # a) t n =
     (case variantFor n p of None \<Rightarrow> n | Some v \<Rightarrow> putVariant n p (with_node (set_target a t (pnode v)) v))"
  "set_target (ESkip p # a) t n =
     (case variantFor n p of None \<Rightarrow> n
      | Some v \<Rightarrow> (case pskip v of None \<Rightarrow> n | Some s \<Rightarrow> putVariant n p (with_skip (set_target a t s) v)))"
  "set_target (EWild # a) t n =
     (case nwildcard n of None \<Rightarrow> n
      | Some v \<Rightarrow> if a = [] then set_wildcard (with_node (set_ntarget t (pnode v)) v) n else n)"
  by (simp_all add: set_target_def split: option.split)

lemma set_target_wf: "trie_wf n \<Longrightarrow> trie_wf (set_target a t n)"
proof (induction a arbitrary: n)
  case (Cons e a)
  note wf = Cons.prems
  show ?case
  proof (cases e)
    case (EStatic k)
    with Cons trie_wf_child [OF wf] show ?thesis by (auto intro: wf_set_child split: option.split)
  next
    case (EConsume p)
    with Cons show ?thesis
      using trie_wf_variant [OF wf] trie_wf_skip [OF wf] variantFor_in [OF wf]
      by (auto intro!: wf_put [OF wf] simp: variantFor_pattern split: option.split; metis)
  next
    case (ESkip p)
    with Cons show ?thesis
      using trie_wf_variant [OF wf] trie_wf_skip [OF wf] variantFor_in [OF wf]
      by (auto intro!: wf_put [OF wf] simp: variantFor_pattern split: option.split; metis)
  next
    case EWild
    with Cons show ?thesis
      using trie_wf_wild [OF wf] trie_wf_wild_name [OF wf]
      by (auto intro!: wf_set_wildcard wf_set_ntarget split: option.split)
  qed
qed (simp add: wf_set_ntarget)

lemma set_target_words: "keeps_words n (set_target a t n)"
proof (induction a arbitrary: n)
  case Nil
  have "node_at (set_ntarget t n) b \<noteq> None \<and> word_at (set_ntarget t n) b = word_at n b"
    if "node_at n b \<noteq> None" for b
    using that by (cases b; cases "hd b") auto
  then show ?case by (simp add: keeps_words_def)
next
  case (Cons e a)
  have IH: "node_at n b = Some m \<Longrightarrow> \<exists>m'. node_at (set_target a t n) b = Some m'"
    "node_at n b = Some m \<Longrightarrow> word_at (set_target a t n) b = word_at n b" for n b m
    using Cons [of n] by (auto simp: keeps_words_def)
  have "node_at (set_target (e # a) t n) b \<noteq> None \<and> word_at (set_target (e # a) t n) b = word_at n b"
    if "node_at n b \<noteq> None" for b
  proof (cases b)
    case (Cons f c)
    with that IH variantFor_pattern [of n] show ?thesis
      by (cases e; cases f) (auto split: option.splits if_splits)
  qed simp
  then show ?case by (simp add: keeps_words_def)
qed

lemma set_target_target:
  "node_at n a \<noteq> None \<Longrightarrow> target_at (set_target a t n) b = (if b = a then Some t else target_at n b)"
proof (induction a arbitrary: n b)
  case Nil
  show ?case by (cases b; cases "hd b") auto
next
  case (Cons e a)
  show ?case
  proof (cases b)
    case (Cons f c)
    with Cons.prems Cons.IH variantFor_pattern [of n] show ?thesis
      by (cases e; cases f) (auto split: option.splits if_splits)
  qed (use Cons.prems in \<open>cases e; auto split: option.splits if_splits\<close>)
qed

text \<open>
  \<open>indexPattern\<close>: \<open>terminal.target ??= createTarget()\<close> for every terminal, in order, and the
  deduplicated list of their targets. New targets are numbered from \<open>next\<close>.
\<close>

fun assignTargets :: "nat \<Rightarrow> trie_node \<Rightarrow> addr list \<Rightarrow> nat \<times> trie_node \<times> nat list" where
  "assignTargets next n [] = (next, n, [])"
| "assignTargets next n (a # as) =
     (let (t, next1, n1) = (case target_at n a of Some t \<Rightarrow> (t, next, n)
                            | None \<Rightarrow> (next, next + 1, set_target a next n));
          (next2, n2, ts) = assignTargets next1 n1 as
      in (next2, n2, t # filter (\<lambda>x. x \<noteq> t) ts))"

lemma keeps_words_trans: "keeps_words a b \<Longrightarrow> keeps_words b c \<Longrightarrow> keeps_words a c"
  by (simp add: keeps_words_def)

lemma assignTargets_spec:
  "trie_wf n \<Longrightarrow> \<forall>a \<in> set as. node_at n a \<noteq> None \<Longrightarrow> assignTargets k n as = (k', n', ts) \<Longrightarrow>
     trie_wf n' \<and> keeps_words n n' \<and> k \<le> k'
     \<and> (\<forall>b. target_at n b \<noteq> None \<longrightarrow> target_at n' b = target_at n b)
     \<and> (\<forall>b. b \<notin> set as \<longrightarrow> target_at n' b = target_at n b)
     \<and> (\<forall>b. target_at n b = None \<longrightarrow> b \<in> set as \<longrightarrow> (\<exists>t. target_at n' b = Some t \<and> k \<le> t \<and> t < k'))
     \<and> set ts = {t. \<exists>b \<in> set as. target_at n' b = Some t} \<and> distinct ts"
proof (induction as arbitrary: k n k' n' ts)
  case Nil
  then show ?case by (auto simp: keeps_words_def)
next
  case (Cons a as)
  obtain t k1 n1 where hd: "(case target_at n a of Some t \<Rightarrow> (t, k, n)
      | None \<Rightarrow> (k, k + 1, set_target a k n)) = (t, k1, n1)" by (metis prod_cases3)
  obtain k2 n2 us where tl: "assignTargets k1 n1 as = (k2, n2, us)" by (metis prod_cases3)
  have res: "k' = k2" "n' = n2" "ts = t # filter (\<lambda>x. x \<noteq> t) us"
    using Cons.prems(3) hd tl by auto
  have na: "node_at n a \<noteq> None" using Cons.prems(2) by simp
  have n1: "trie_wf n1" "keeps_words n n1" "k \<le> k1" "target_at n1 a = Some t"
    "\<And>b. b \<noteq> a \<Longrightarrow> target_at n1 b = target_at n b"
    "target_at n a \<noteq> None \<Longrightarrow> target_at n1 a = target_at n a"
    "target_at n a = None \<Longrightarrow> k \<le> t \<and> t < k1"
    using hd Cons.prems(1) set_target_wf [of n a k] set_target_words [of n a k] set_target_target [OF na]
    by (auto simp: keeps_words_def split: option.splits)
  have "\<forall>a \<in> set as. node_at n1 a \<noteq> None"
    using Cons.prems(2) n1(2) by (auto simp: keeps_words_def)
  note IH = Cons.IH [OF n1(1) this tl]
  then have a2: "target_at n2 a = Some t" using n1(4) by simp
  have A: "set ts = {t. \<exists>b \<in> set (a # as). target_at n' b = Some t} \<and> distinct ts"
    using IH a2 unfolding res by (auto intro: distinct_filter)
  have B: "\<exists>t. target_at n' b = Some t \<and> k \<le> t \<and> t < k'"
    if "target_at n b = None" "b \<in> set (a # as)" for b
  proof (cases "b = a")
    case True
    with that a2 n1(3,7) IH show ?thesis unfolding res by (intro exI [of _ t]) auto
  next
    case False
    with that n1(5) have "target_at n1 b = None" "b \<in> set as" by auto
    with IH obtain u where "target_at n2 b = Some u" "k1 \<le> u" "u < k2" by blast
    with n1(3) show ?thesis unfolding res by (intro exI [of _ u]) simp
  qed
  have C: "target_at n b \<noteq> None \<Longrightarrow> target_at n' b = target_at n b" for b
    using IH n1(5,6) unfolding res by (cases "b = a") auto
  have D: "b \<notin> set (a # as) \<Longrightarrow> target_at n' b = target_at n b" for b
    using IH n1(5) unfolding res by auto
  have E: "trie_wf n' \<and> keeps_words n n' \<and> k \<le> k'"
    using IH n1(2,3) keeps_words_trans [OF n1(2), of n2] unfolding res by simp
  show ?case using A E by (intro conjI allI impI B C D) simp_all
qed

end
