(* ===== verification/TrieCorrect.thy ===== *)
theory TrieCorrect
  imports TrieInsert
begin

text \<open>
  Correctness of the trie against the patterns registered in it: the terminals reachable by the
  matcher are exactly the addresses with a target, each registration adds exactly the language of
  its pattern, and a request is answered if and only if some registered pattern matches it.
\<close>

section \<open>Terminals and addresses\<close>

lemma find_self:
  "distinct (map f xs) \<Longrightarrow> x \<in> set xs \<Longrightarrow> List.find (\<lambda>u. f u = f x) xs = Some x"
  by (induction xs) (auto simp: rev_image_eqI)

lemma variantFor_self:
  assumes "trie_wf n" and "v \<in> set (allVariants n)"
  shows "variantFor n (ppattern v) = Some v"
proof -
  have "nparam n \<noteq> None \<or> nparamMore n = []" using trie_wf_more [OF assms(1)] by blast
  note find = variantFor_find [OF this]
  have "List.find (\<lambda>u. ppattern u = ppattern v) (allVariants n) = Some v"
    using trie_wf_distinct [OF assms(1)] assms(2) by (rule find_self)
  with find show ?thesis by simp
qed

lemma tword_address:
  "tword n w m \<Longrightarrow> trie_wf n \<Longrightarrow> \<exists>a. node_at n a = Some m \<and> word_at n a = w"
proof (induction rule: tword.induct)
  case (here n)
  show ?case by (intro exI [of _ "[]"]) simp
next
  case (static n k c w m)
  with trie_wf_child obtain a where "node_at c a = Some m" "word_at c a = w" by blast
  with static.hyps show ?case by (intro exI [of _ "EStatic k # a"]) simp
next
  case (consume v n w m)
  with trie_wf_variant obtain a where "node_at (pnode v) a = Some m" "word_at (pnode v) a = w" by blast
  with variantFor_self [OF consume.prems consume.hyps(1)] show ?case
    by (intro exI [of _ "EConsume (ppattern v) # a"]) simp
next
  case (skip v n s w m)
  with trie_wf_skip obtain a where "node_at s a = Some m" "word_at s a = w" by blast
  with variantFor_self [OF skip.prems skip.hyps(1)] skip.hyps(2) show ?case
    by (intro exI [of _ "ESkip (ppattern v) # a"]) simp
next
  case (wild n v)
  then show ?case by (intro exI [of _ "[EWild]"]) simp
qed

lemma address_tword:
  "node_at n a = Some m \<Longrightarrow> trie_wf n \<Longrightarrow> ntarget m \<noteq> None \<Longrightarrow> tword n (word_at n a) m"
proof (induction a arbitrary: n)
  case Nil
  then show ?case by (auto intro: tword.here)
next
  case (Cons e a)
  note wf = Cons.prems(2)
  show ?case
  proof (cases e)
    case (EStatic k)
    with Cons trie_wf_child [OF wf] show ?thesis by (auto split: option.splits intro: tword.static)
  next
    case (EConsume p)
    with Cons.prems obtain v where v: "variantFor n p = Some v" "node_at (pnode v) a = Some m"
      by (auto split: option.splits)
    note in_v = variantFor_in [OF wf v(1)]
    from Cons.IH [OF v(2) trie_wf_variant [OF wf in_v] Cons.prems(3)] tword.consume [OF in_v]
    show ?thesis using EConsume v variantFor_pattern [OF v(1)] by simp
  next
    case (ESkip p)
    with Cons.prems obtain v s where v: "variantFor n p = Some v" "pskip v = Some s" "node_at s a = Some m"
      by (auto split: option.splits)
    note in_v = variantFor_in [OF wf v(1)]
    from Cons.IH [OF v(3) trie_wf_skip [OF wf in_v v(2)] Cons.prems(3)] tword.skip [OF in_v v(2)]
    show ?thesis using ESkip v by simp
  next
    case EWild
    with Cons.prems show ?thesis by (auto split: option.splits if_splits intro: tword.wild)
  qed
qed

lemma matchPattern_terminals:
  assumes "trie_wf n"
  shows "matchPattern rx n path \<noteq> None \<longleftrightarrow>
    (\<exists>a. target_at n a \<noteq> None \<and> word_matches rx (trailing_slash path) (word_at n a) (splitSegments path))"
proof -
  let ?s = "trailing_slash path" and ?parts = "splitSegments path"
  have "matchPattern rx n path \<noteq> None \<longleftrightarrow> (\<exists>x. x \<in> set (trie_sols rx ?s n ?parts []))"
    by (cases "trie_sols rx ?s n ?parts []") (auto simp: matchPattern_sols)
  also have "\<dots> \<longleftrightarrow> (\<exists>w m. tword n w m \<and> word_matches rx ?s w ?parts)"
    using trie_sols_sound [OF assms, of _ _ rx ?s ?parts "[]"] trie_sols_complete [of n _ _ rx ?s ?parts "[]"]
    by (metis surj_pair)
  also have "\<dots> \<longleftrightarrow> (\<exists>a. target_at n a \<noteq> None \<and> word_matches rx ?s (word_at n a) ?parts)"
  proof
    assume "\<exists>w m. tword n w m \<and> word_matches rx ?s w ?parts"
    then obtain w m where w: "tword n w m" "word_matches rx ?s w ?parts" by blast
    obtain a where a: "node_at n a = Some m" "word_at n a = w" using tword_address [OF w(1) assms] by blast
    have "ntarget m \<noteq> None" using w(1) by (induction rule: tword.induct) auto
    with a w show "\<exists>a. target_at n a \<noteq> None \<and> word_matches rx ?s (word_at n a) ?parts"
      by (intro exI [of _ a]) (simp add: target_at_def)
  next
    assume "\<exists>a. target_at n a \<noteq> None \<and> word_matches rx ?s (word_at n a) ?parts"
    then show "\<exists>w m. tword n w m \<and> word_matches rx ?s w ?parts"
      using address_tword [OF _ assms] by (fastforce simp: target_at_def split: option.splits)
  qed
  finally show ?thesis .
qed

section \<open>A pattern and its words\<close>

lemma expand_matches:
  "wf_segments ss \<Longrightarrow>
     pat_matches rx slash ss parts \<longleftrightarrow> (\<exists>w \<in> set (expand ss). word_matches rx slash w parts)"
proof (induction ss arbitrary: parts)
  case (Cons s ss)
  then have wfs: "wf_segments ss" by (simp add: wf_segments_Cons)
  show ?case
    using Cons.IH [OF wfs] Cons.prems
    by (cases "kind s"; cases parts) (auto simp: wf_segments_Cons bex_Un)
qed simp

section \<open>Registration\<close>

text \<open>The trie part of \<open>indexPattern\<close>.\<close>

definition registerTrie ::
  "nat \<Rightarrow> trie_node \<Rightarrow> compiled_segment list \<Rightarrow> nat \<times> trie_node \<times> nat list res" where
  "registerTrie next root segs =
     (case insertPattern root segs of
        (root1, Inl e) \<Rightarrow> (next, root1, throw e)
      | (root1, Inr terminals) \<Rightarrow>
          (let (next2, root2, targets) = assignTargets next root1 terminals
           in (next2, root2, ok targets)))"

lemma registerTrie_spec:
  assumes wf: "trie_wf n" and segs: "wf_segments segs" and reg: "registerTrie k n segs = (k', n', Inr ts)"
  shows "trie_wf n' \<and> k \<le> k'"
    and "\<And>a. target_at n a \<noteq> None \<Longrightarrow> target_at n' a = target_at n a \<and> word_at n' a = word_at n a"
    and "\<And>a. target_at n a = None \<Longrightarrow> target_at n' a \<noteq> None \<Longrightarrow>
      word_at n' a \<in> set (expand segs) \<and> (\<exists>t. target_at n' a = Some t \<and> k \<le> t \<and> t < k')"
    and "\<And>w. w \<in> set (expand segs) \<Longrightarrow> \<exists>a t. word_at n' a = w \<and> target_at n' a = Some t \<and> t \<in> set ts"
    and "distinct ts"
proof -
  obtain n1 as where ins: "insertPattern n segs = (n1, Inr as)"
    using reg by (auto simp: registerTrie_def split: prod.splits sum.splits)
  have asg: "assignTargets k n1 as = (k', n', ts)"
    using reg by (auto simp: registerTrie_def ins split: prod.splits)
  from insert_at_wf [OF wf ins [unfolded insertPattern_def]]
  have n1: "trie_wf n1" "extends n n1" by blast+
  from insert_at_added [OF wf segs ins [unfolded insertPattern_def]]
  have add: "\<forall>a \<in> set as. node_at n1 a \<noteq> None" "map (word_at n1) as = expand segs"
    by (simp_all add: added_def)
  note A = assignTargets_spec [OF n1(1) add(1) asg]
  from A have keep: "keeps_words n1 n'" by blast
  have words: "word_at n' a = word_at n1 a" if "node_at n1 a \<noteq> None" for a
    using keep that by (simp add: keeps_words_def)
  show "trie_wf n' \<and> k \<le> k'" and "distinct ts" using A by blast+
  show "target_at n' a = target_at n a \<and> word_at n' a = word_at n a" if t: "target_at n a \<noteq> None" for a
  proof -
    have na: "node_at n a \<noteq> None" using t by (auto simp: target_at_def split: option.splits)
    have t1: "target_at n1 a = target_at n a" using n1(2) by (simp add: extends_def)
    have "word_at n1 a = word_at n a" "node_at n1 a \<noteq> None" using n1(2) na by (auto simp: extends_def)
    with A t t1 words show ?thesis by metis
  qed
  show "word_at n' a \<in> set (expand segs) \<and> (\<exists>t. target_at n' a = Some t \<and> k \<le> t \<and> t < k')"
    if "target_at n a = None" "target_at n' a \<noteq> None" for a
  proof -
    have t1: "target_at n1 a = None" using n1(2) that by (simp add: extends_def)
    with A that have "a \<in> set as" by metis
    moreover have "word_at n' a \<in> set (expand segs)"
      using words add calculation by (metis image_eqI image_set)
    ultimately show ?thesis using A t1 by blast
  qed
  show "\<exists>a t. word_at n' a = w \<and> target_at n' a = Some t \<and> t \<in> set ts" if w: "w \<in> set (expand segs)" for w
  proof -
    obtain a where a: "a \<in> set as" "word_at n1 a = w" using w add(2) by (metis imageE image_set)
    obtain t where "target_at n' a = Some t" using A a(1) by (metis not_None_eq)
    with A a words add(1) show ?thesis by (intro exI [of _ a] exI [of _ t]) auto
  qed
qed

text \<open>C1: one registration adds exactly the requests its pattern matches.\<close>

theorem registerTrie_matches:
  assumes "trie_wf n" and "wf_segments segs" and "registerTrie k n segs = (k', n', Inr ts)"
  shows "trie_wf n' \<and>
    (matchPattern rx n' path \<noteq> None \<longleftrightarrow>
       matchPattern rx n path \<noteq> None \<or> pat_matches rx (trailing_slash path) segs (splitSegments path))"
proof -
  note S = registerTrie_spec [OF assms]
  then have wf': "trie_wf n'" by blast
  show ?thesis
    unfolding matchPattern_terminals [OF wf'] matchPattern_terminals [OF assms(1)]
      expand_matches [OF assms(2)]
    using wf' S(2-4) by (metis option.distinct(1))
qed

section \<open>Priority\<close>

text \<open>
  The order in which the matcher prefers two routes that both answer a request: at the first
  difference static before param before wildcard, and a route that ends before one that goes on.
\<close>

fun word_le :: "step list \<Rightarrow> step list \<Rightarrow> bool" where
  "word_le [] w = True"
| "word_le (x # w) [] = False"
| "word_le (SStatic j # w) (SStatic k # u) = (j = k \<longrightarrow> word_le w u)"
| "word_le (SStatic j # w) (y # u) = True"
| "word_le (SParam a p # w) (SStatic k # u) = False"
| "word_le (SParam a p # w) (SParam b q # u) = (p = q \<longrightarrow> word_le w u)"
| "word_le (SParam a p # w) (SWild b # u) = True"
| "word_le (SWild a # w) (SWild b # u) = True"
| "word_le (SWild a # w) (y # u) = False"

text \<open>A trie (or a subtree) in which no pattern declared an optional or a constrained param.\<close>

inductive plain_trie :: "trie_node \<Rightarrow> bool" where
  "(\<forall>k c. jm_get (nchildren n) k = Some c \<longrightarrow> plain_trie c)
   \<Longrightarrow> (\<forall>v \<in> set (allVariants n). pskip v = None \<and> ppattern v = None \<and> plain_trie (pnode v))
   \<Longrightarrow> plain_trie n"

inductive_cases plain_trieE: "plain_trie n"

lemma plain_trieD:
  assumes "plain_trie n"
  shows plain_child: "jm_get (nchildren n) k = Some c \<Longrightarrow> plain_trie c"
    and plain_variant: "v \<in> set (allVariants n) \<Longrightarrow> pskip v = None \<and> ppattern v = None \<and> plain_trie (pnode v)"
  using assms by (auto elim: plain_trieE)

inductive_cases tword_NilE: "tword n [] m"
inductive_cases tword_StaticE: "tword n (SStatic k # w) m"
inductive_cases tword_ParamE: "tword n (SParam a p # w) m"
inductive_cases tword_WildE: "tword n (SWild a # w) m"

lemma plain_tword:
  assumes "plain_trie n"
  shows "tword n [] m \<Longrightarrow> m = n \<and> ntarget n \<noteq> None"
    and "tword n (SStatic k # w) m \<Longrightarrow> \<exists>c. jm_get (nchildren n) k = Some c \<and> tword c w m"
    and "tword n (SParam a p # w) m \<Longrightarrow>
      \<exists>v \<in> set (allVariants n). a = pname v \<and> p = ppattern v \<and> tword (pnode v) w m"
    and "tword n (SWild a # w) m \<Longrightarrow>
      \<exists>v. nwildcard n = Some v \<and> w = [] \<and> a = pname v \<and> m = pnode v \<and> ntarget m \<noteq> None"
  subgoal by (erule tword_NilE) (auto dest: plain_variant [OF assms])
  subgoal by (erule tword_StaticE) (auto dest: plain_variant [OF assms])
  subgoal by (erule tword_ParamE) (force dest: plain_variant [OF assms])+
  subgoal by (erule tword_WildE) (auto dest: plain_variant [OF assms])
  done

lemma plain_one_variant:
  assumes "trie_wf n" and "plain_trie n" and "v \<in> set (allVariants n)" and "u \<in> set (allVariants n)"
  shows "u = v"
proof -
  have "ppattern u = ppattern v" using plain_variant [OF assms(2)] assms(3,4) by simp
  with trie_wf_distinct [OF assms(1)] assms(3,4) show ?thesis by (auto simp: distinct_map dest: inj_onD)
qed

definition first_word ::
  "(string \<Rightarrow> string \<Rightarrow> bool) \<Rightarrow> bool \<Rightarrow> trie_node \<Rightarrow> step list \<Rightarrow> trie_node \<Rightarrow> string list \<Rightarrow> bool" where
  "first_word rx slash n w m parts \<longleftrightarrow> tword n w m \<and> word_matches rx slash w parts
     \<and> (\<forall>w' m'. tword n w' m' \<longrightarrow> word_matches rx slash w' parts \<longrightarrow> word_le w w')"

lemma sols_empty_no_word:
  "trie_sols rx slash n parts ps = [] \<Longrightarrow> tword n w m \<Longrightarrow> \<not> word_matches rx slash w parts"
  using trie_sols_complete [of n w m rx slash parts ps] by auto

lemma plain_variants:
  assumes "trie_wf n" and "plain_trie n"
  shows "nparamMore n = []"
proof (cases "nparam n")
  case (Some v)
  have "u = v" if "u \<in> set (nparamMore n)" for u
    using that Some plain_one_variant [OF assms, of v u] by (simp add: allVariants_def)
  then show ?thesis
    using trie_wf_distinct [OF assms(1)] Some by (cases "nparamMore n") (auto simp: allVariants_def)
qed (use trie_wf_more [OF assms(1)] in simp)

definition wild_sols ::
  "bool \<Rightarrow> trie_node \<Rightarrow> string list \<Rightarrow> param_link \<Rightarrow> (trie_node \<times> param_link) list" where
  "wild_sols slash n parts ps =
     (case nwildcard n of None \<Rightarrow> []
      | Some w \<Rightarrow> if ntarget (pnode w) \<noteq> None \<and> (parts \<noteq> [] \<or> slash)
                  then [(pnode w, rev (word_caps [SWild (pname w)] parts) @ ps)] else [])"

lemma sols_plain_Nil:
  assumes "trie_wf n" and "plain_trie n" and "ntarget n = None"
  shows "trie_sols rx slash n [] ps = wild_sols slash n [] ps"
proof -
  have "pskip v = None" if "nparam n = Some v" for v
    using that plain_variant [OF assms(2), of v] by (simp add: allVariants_def)
  then show ?thesis
    by (subst trie_sols.simps(1))
      (cases "nparam n"; simp add: assms(3) plain_variants [OF assms(1,2)] headVariant_def wild_sols_def split: option.split)
qed

lemma sols_plain_Cons:
  assumes "trie_wf n" and "plain_trie n"
  shows "trie_sols rx slash n (p # rest) ps =
     (case staticChild n p of None \<Rightarrow> [] | Some c \<Rightarrow> trie_sols rx slash c rest ps)
     @ (case nparam n of None \<Rightarrow> []
        | Some v \<Rightarrow> if consumes rx None p
                    then trie_sols rx slash (pnode v) rest ((pname v, decodeSegment p) # ps) else [])
     @ wild_sols slash n (p # rest) ps"
proof -
  have "pskip v = None \<and> ppattern v = None" if "nparam n = Some v" for v
    using that plain_variant [OF assms(2), of v] by (simp add: allVariants_def)
  then show ?thesis
    by (subst trie_sols.simps(2), cases "nparam n")
      (simp_all add: plain_variants [OF assms] allVariants_def wild_sols_def Let_def split: option.split)
qed

lemma first_word_wild:
  assumes "hd_opt (wild_sols slash n parts ps) = Some (m, qs)" and "plain_trie n"
    and "\<And>w m. tword n w m \<Longrightarrow> word_matches rx slash w parts \<Longrightarrow> \<exists>a u. w = SWild a # u"
  shows "\<exists>w. first_word rx slash n w m parts \<and> qs = rev (word_caps w parts) @ ps"
proof -
  from assms(1) obtain v where v: "nwildcard n = Some v" "ntarget (pnode v) \<noteq> None" "parts \<noteq> [] \<or> slash"
    "m = pnode v" "qs = rev (word_caps [SWild (pname v)] parts) @ ps"
    by (auto simp: wild_sols_def split: option.splits if_splits)
  have "word_le [SWild (pname v)] w'" if "tword n w' m'" "word_matches rx slash w' parts" for w' m'
    using assms(3) [OF that] by auto
  with v show ?thesis
    by (intro exI [of _ "[SWild (pname v)]"]) (auto simp: first_word_def intro: tword.wild)
qed

lemma sols_first:
  "trie_wf n \<Longrightarrow> plain_trie n \<Longrightarrow> hd_opt (trie_sols rx slash n parts ps) = Some (m, qs) \<Longrightarrow>
     \<exists>w. first_word rx slash n w m parts \<and> qs = rev (word_caps w parts) @ ps"
proof (induction parts arbitrary: n ps)
  case Nil
  show ?case
  proof (cases "ntarget n")
    case (Some t)
    with Nil.prems(3) have "m = n" "qs = ps" by simp_all
    with Some show ?thesis by (intro exI [of _ "[]"]) (simp add: first_word_def tword.here)
  next
    case None
    with Nil.prems have "hd_opt (wild_sols slash n [] ps) = Some (m, qs)" by (simp add: sols_plain_Nil)
    then show ?thesis
    proof (rule first_word_wild [OF _ Nil.prems(2)])
      fix w m assume "tword n w m" "word_matches rx slash w []"
      then show "\<exists>a u. w = SWild a # u"
        using plain_tword(1) [OF Nil.prems(2)] None by (cases w; cases "hd w") auto
    qed
  qed
next
  case (Cons p rest)
  note wf = Cons.prems(1) and plain = Cons.prems(2)
  define A where "A = (case staticChild n p of None \<Rightarrow> [] | Some c \<Rightarrow> trie_sols rx slash c rest ps)"
  define B where "B = (case nparam n of None \<Rightarrow> []
        | Some v \<Rightarrow> if consumes rx None p
                    then trie_sols rx slash (pnode v) rest ((pname v, decodeSegment p) # ps) else [])"
  have hd: "hd_opt (A @ B @ wild_sols slash n (p # rest) ps) = Some (m, qs)"
    using Cons.prems(3) by (simp add: sols_plain_Cons [OF wf plain] A_def B_def)
  have nonempty: "w \<noteq> []" if "word_matches rx slash w (p # rest)" for w using that by auto
  have static: "\<exists>c. staticChild n p = Some c \<and> k = decodeSegment p \<and> tword c u m' \<and> word_matches rx slash u rest"
    if "tword n (SStatic k # u) m'" "word_matches rx slash (SStatic k # u) (p # rest)" for k u m'
    using plain_tword(2) [OF plain that(1)] that(2) by (auto simp: staticChild_decode)
  have param: "\<exists>v. nparam n = Some v \<and> a = pname v \<and> q = None \<and> consumes rx None p
      \<and> tword (pnode v) u m' \<and> word_matches rx slash u rest"
    if "tword n (SParam a q # u) m'" "word_matches rx slash (SParam a q # u) (p # rest)" for a q u m'
    using plain_tword(3) [OF plain that(1)] plain_variant [OF plain] that(2) plain_variants [OF wf plain]
    by (cases "nparam n") (auto simp: allVariants_def)
  have noA: "\<not> word_matches rx slash (SStatic k # u) (p # rest)"
    if "A = []" "tword n (SStatic k # u) m'" for k u m'
    using static [OF that(2)] that(1) sols_empty_no_word by (fastforce simp: A_def)
  have noB: "\<not> word_matches rx slash (SParam a q # u) (p # rest)"
    if "B = []" "tword n (SParam a q # u) m'" for a q u m'
    using param [OF that(2)] that(1) sols_empty_no_word by (fastforce simp: B_def)
  consider "A \<noteq> []" | "A = []" "B \<noteq> []" | "A = []" "B = []" by blast
  then show ?case
  proof cases
    case 1
    then obtain c where c: "staticChild n p = Some c" and A: "A = trie_sols rx slash c rest ps"
      by (auto simp: A_def split: option.splits)
    then have child: "jm_get (nchildren n) (decodeSegment p) = Some c" by (simp add: staticChild_decode)
    from hd 1 A have "hd_opt (trie_sols rx slash c rest ps) = Some (m, qs)"
      by (auto simp: hd_opt_append split: option.splits)
    from Cons.IH [OF trie_wf_child [OF wf child] plain_child [OF plain child] this] obtain w where
      w: "first_word rx slash c w m rest" "qs = rev (word_caps w rest) @ ps" by blast
    have "word_le (SStatic (decodeSegment p) # w) w'"
      if "tword n w' m'" "word_matches rx slash w' (p # rest)" for w' m'
    proof (cases "\<exists>k u. w' = SStatic k # u")
      case True
      then obtain k u where w': "w' = SStatic k # u" by blast
      from static [of k u m'] that c have "tword c u m'" "word_matches rx slash u rest" by (auto simp: w')
      with w(1) show ?thesis by (auto simp: first_word_def w')
    next
      case False
      with nonempty [OF that(2)] show ?thesis by (cases w'; cases "hd w'") auto
    qed
    with w child show ?thesis
      by (intro exI [of _ "SStatic (decodeSegment p) # w"]) (auto simp: first_word_def intro: tword.static)
  next
    case 2
    then obtain v where v: "nparam n = Some v" "consumes rx None p"
      and B: "B = trie_sols rx slash (pnode v) rest ((pname v, decodeSegment p) # ps)"
      by (auto simp: B_def split: option.splits if_splits)
    have in_v: "v \<in> set (allVariants n)" using v(1) by (simp add: allVariants_def)
    from hd 2 B have "hd_opt (trie_sols rx slash (pnode v) rest ((pname v, decodeSegment p) # ps)) = Some (m, qs)"
      by (auto simp: hd_opt_append split: option.splits)
    from Cons.IH [OF trie_wf_variant [OF wf in_v] _ this] plain_variant [OF plain in_v] obtain w where
      w: "first_word rx slash (pnode v) w m rest" "qs = rev (word_caps w rest) @ (pname v, decodeSegment p) # ps"
      by blast
    have "word_le (SParam (pname v) None # w) w'"
      if "tword n w' m'" "word_matches rx slash w' (p # rest)" for w' m'
    proof (cases "\<exists>a q u. w' = SParam a q # u")
      case True
      then obtain a q u where w': "w' = SParam a q # u" by blast
      from param [of a q u m'] that v have "tword (pnode v) u m'" "word_matches rx slash u rest"
        by (auto simp: w')
      with w(1) show ?thesis by (auto simp: first_word_def w')
    next
      case False
      have "\<nexists>k u. w' = SStatic k # u" using noA [OF 2(1)] that by blast
      with False nonempty [OF that(2)] show ?thesis by (cases w'; cases "hd w'") auto
    qed
    with w v plain_variant [OF plain in_v] tword.consume [OF in_v] show ?thesis
      by (intro exI [of _ "SParam (pname v) None # w"]) (auto simp: first_word_def)
  next
    case 3
    with hd have "hd_opt (wild_sols slash n (p # rest) ps) = Some (m, qs)" by simp
    then show ?thesis
    proof (rule first_word_wild [OF _ plain])
      fix w m assume t: "tword n w m" "word_matches rx slash w (p # rest)"
      then show "\<exists>a u. w = SWild a # u"
        using noA [OF 3(1)] noB [OF 3(2)] nonempty [OF t(2)] by (cases w; cases "hd w") auto
    qed
  qed
qed

lemma matchAt_target: "ntarget n = Some t \<Longrightarrow> tm_target (matchAt n ps) = t"
  by (simp add: matchAt_def matchOf_def Let_def split: option.split)

lemma tword_target: "tword n w m \<Longrightarrow> ntarget m \<noteq> None"
  by (induction rule: tword.induct) auto

text \<open>C2: among routes without optional or constrained params the matcher answers with the
  preferred one.\<close>

theorem matchPattern_priority:
  assumes "trie_wf n" and "plain_trie n" and "matchPattern rx n path = Some r"
  shows "\<exists>a. target_at n a = Some (tm_target r)
    \<and> word_matches rx (trailing_slash path) (word_at n a) (splitSegments path)
    \<and> (\<forall>b. target_at n b \<noteq> None
         \<and> word_matches rx (trailing_slash path) (word_at n b) (splitSegments path)
         \<longrightarrow> word_le (word_at n a) (word_at n b))"
proof -
  obtain m qs where hd: "hd_opt (trie_sols rx (trailing_slash path) n (splitSegments path) []) = Some (m, qs)"
    and r: "r = matchAt m qs"
    using assms(3) by (auto simp: matchPattern_sols)
  obtain w where w: "first_word rx (trailing_slash path) n w m (splitSegments path)"
    using sols_first [OF assms(1,2) hd] by blast
  then have tw: "tword n w m" by (simp add: first_word_def)
  obtain a where a: "node_at n a = Some m" "word_at n a = w" using tword_address [OF tw assms(1)] by blast
  obtain t where t: "ntarget m = Some t" using tword_target [OF tw] by blast
  have "word_le w (word_at n b)"
    if "target_at n b \<noteq> None" "word_matches rx (trailing_slash path) (word_at n b) (splitSegments path)" for b
    using that w address_tword [OF _ assms(1), of b]
    by (auto simp: target_at_def first_word_def split: option.splits)
  with w a t show ?thesis
    by (intro exI [of _ a]) (auto simp: target_at_def first_word_def r matchAt_target)
qed

section \<open>Static routes win\<close>

text \<open>A terminal spelled literally by the request wins over every param and wildcard route.\<close>

lemma matchPattern_static_first:
  assumes "target_at n (map (\<lambda>p. EStatic (decodeSegment p)) (splitSegments path)) = Some t"
  shows "\<exists>r. matchPattern rx n path = Some r \<and> tm_target r = t"
proof -
  have "\<exists>m. hd_opt (trie_sols rx slash n parts ps) = Some (m, ps) \<and> ntarget m = Some t"
    if "target_at n (map (\<lambda>p. EStatic (decodeSegment p)) parts) = Some t" for slash parts ps
    using that
  proof (induction parts arbitrary: n)
    case Nil
    then show ?case by simp
  next
    case (Cons p rest)
    then obtain c where c: "staticChild n p = Some c" "target_at c (map (\<lambda>p. EStatic (decodeSegment p)) rest) = Some t"
      by (auto simp: staticChild_decode split: option.splits)
    from Cons.IH [OF c(2)] obtain m where "hd_opt (trie_sols rx slash c rest ps) = Some (m, ps)" "ntarget m = Some t"
      by blast
    with c(1) show ?case by (subst trie_sols.simps(2)) (simp add: hd_opt_append)
  qed
  from this [OF assms, of "trailing_slash path" "[]"] show ?thesis
    by (auto simp: matchPattern_sols matchAt_target)
qed

section \<open>The properties on a two-route trie\<close>

definition me_trie :: trie_node where
  "me_trie = fst (snd (registerTrie 0 createNode [static_seg ''u'', static_seg ''me'']))"

definition id_segs :: "compiled_segment list" where
  "id_segs = [static_seg ''u'', \<lparr>kind = Param, seg_value = ''id'', seg_pattern = None, seg_optional = False\<rparr>]"

definition users_trie :: trie_node where
  "users_trie = fst (snd (registerTrie 1 me_trie id_segs))"

lemma me_trie_wf: "trie_wf me_trie"
  unfolding me_trie_def
  by (rule conjunct1 [OF registerTrie_spec(1) [where n = createNode and k = 0 and ts = "[0]" and k' = 1 and segs = "[static_seg ''u'', static_seg ''me'']"]])
    (simp, code_simp+)

lemma users_trie_wf: "trie_wf users_trie"
  unfolding users_trie_def
  by (rule conjunct1 [OF registerTrie_spec(1) [where n = me_trie and k = 1 and ts = "[1]" and k' = 2 and segs = id_segs]])
    (rule me_trie_wf, code_simp+)

lemma matchPattern_static_first_witness:
  "\<exists>r. matchPattern (\<lambda>_ _. True) users_trie ''/u/me'' = Some r \<and> tm_target r = 0"
  by (rule matchPattern_static_first) code_simp

lemma registerTrie_matches_witness:
  "matchPattern (\<lambda>_ _. True) users_trie ''/u/bob'' \<noteq> None"
proof -
  have "registerTrie 1 me_trie id_segs = (2, users_trie, Inr [1])" "wf_segments id_segs"
    "pat_matches (\<lambda>_ _. True) (trailing_slash ''/u/bob'') id_segs (splitSegments ''/u/bob'')" by code_simp+
  with registerTrie_matches [OF me_trie_wf, of id_segs 1 2 users_trie "[1]" "\<lambda>_ _. True" "''/u/bob''"]
  show ?thesis by blast
qed

lemma users_trie_eq: "users_trie = Node [(''u'', Node [(''me'', Node [] None [] None (Some 0) (Some []))]
   (Some (PChild ''id'' None (Node [] None [] None (Some 1) (Some [''id''])) None)) [] None None None)] None [] None None None"
  by code_simp

lemma plain_leaf: "plain_trie (Node [] None [] None t ns)"
  by (rule plain_trie.intros) (simp_all add: allVariants_def)

lemma plain_static: "plain_trie n \<Longrightarrow> plain_trie (Node [(k, n)] None [] None t ns)"
  by (rule plain_trie.intros) (auto simp: allVariants_def split: if_splits)

lemma plain_mixed: "plain_trie n \<Longrightarrow> plain_trie m \<Longrightarrow> plain_trie (Node [(k, n)] (Some (PChild p None m None)) [] None t ns)"
  by (rule plain_trie.intros) (auto simp: allVariants_def split: if_splits)

lemma users_trie_plain: "plain_trie users_trie"
  unfolding users_trie_eq by (intro plain_static plain_mixed plain_leaf)

lemma matchPattern_priority_witness:
  "\<exists>a. target_at users_trie a = Some 0
    \<and> word_matches (\<lambda>_ _. True) (trailing_slash ''/u/me'') (word_at users_trie a) (splitSegments ''/u/me'')
    \<and> (\<forall>b. target_at users_trie b \<noteq> None
         \<and> word_matches (\<lambda>_ _. True) (trailing_slash ''/u/me'') (word_at users_trie b) (splitSegments ''/u/me'')
         \<longrightarrow> word_le (word_at users_trie a) (word_at users_trie b))"
proof -
  have "matchPattern (\<lambda>_ _. True) users_trie ''/u/me'' = Some \<lparr>tm_target = 0, tm_names = [], tm_values = [], tm_offset = 0\<rparr>"
    by code_simp
  from matchPattern_priority [OF users_trie_wf users_trie_plain this] show ?thesis by simp
qed

end
