(* ===== verification/FastMatch.thy ===== *)
theory FastMatch
  imports TrieCorrect
begin

text \<open>
  The fast layers of the request matcher: the slice matcher \<open>fastMatch\<close> of src/router/match.ts and
  the whole-table regular expression of src/router/bucket-regex.ts. The regular expression is
  modelled by its syntax tree and a backtracking matcher with the leftmost-first alternation, the
  greedy captures and the capture groups of JavaScript; an unset group is None.
\<close>

record route_match =
  rm_target :: nat
  rm_names :: "string list"
  rm_values :: "string option list"
  rm_offset :: nat

definition of_trie_match :: "trie_match \<Rightarrow> route_match" where
  "of_trie_match m = \<lparr>rm_target = tm_target m, rm_names = tm_names m,
     rm_values = map Some (tm_values m), rm_offset = tm_offset m\<rparr>"

text \<open>\<open>paramsRecord\<close>: a later capture of a repeated name overwrites the earlier.\<close>

definition paramsRecord :: "string list \<Rightarrow> string option list \<Rightarrow> nat \<Rightarrow> (string, string option) js_map" where
  "paramsRecord names values offset =
     foldl (\<lambda>record (i, name). jm_set name (if i + offset < length values then values ! (i + offset) else None) record)
       [] (zip [0..<length names] names)"

section \<open>The slice matcher\<close>

record fast_matcher =
  fm_prefix :: string
  fm_names :: "string list"
  fm_target :: nat

definition fastMatch :: "fast_matcher option \<Rightarrow> string \<Rightarrow> route_match option" where
  "fastMatch fast path =
     (case fast of None \<Rightarrow> None
      | Some f \<Rightarrow>
          if \<not> starts_with (fm_prefix f) path then None
          else (let rest = drop (length (fm_prefix f)) path; names = fm_names f in
            if \<not> starts_with ''/'' rest then None
            else if length names = 1 then
              (if length rest \<le> 1 then None
               else (let value = tl rest in
                 if CHR ''/'' \<in> set value then None
                 else Some \<lparr>rm_target = fm_target f, rm_names = names, rm_values = [Some value], rm_offset = 0\<rparr>))
            else if length rest \<le> 1 then None
            else (let parts = js_split CHR ''/'' (tl rest) in
              if length parts \<noteq> length names then None
              else if \<exists>p \<in> set parts. length p = 0 then None
              else Some \<lparr>rm_target = fm_target f, rm_names = names, rm_values = map Some parts, rm_offset = 0\<rparr>)))"

section \<open>The table regular expression\<close>

datatype rx_atom =
    RLit string      \<comment> \<open>an escaped literal "/v"\<close>
  | RSeg             \<comment> \<open>"/([^/]+)"\<close>
  | RRest            \<comment> \<open>"/(.*)"\<close>
  | ROptSlash        \<comment> \<open>"/?"\<close>

text \<open>The characters "." does not match: line feed, carriage return and the two Unicode separators.\<close>

fun line_free_prefix :: "string \<Rightarrow> nat" where
  "line_free_prefix [] = 0"
| "line_free_prefix (x # xs) =
     (if x = CHR 0x0A \<or> x = CHR 0x0D
        \<or> prefix [CHR 0xE2, CHR 0x80, CHR 0xA8] (x # xs) \<or> prefix [CHR 0xE2, CHR 0x80, CHR 0xA9] (x # xs)
      then 0 else Suc (line_free_prefix xs))"

definition seg_run :: "string \<Rightarrow> nat" where
  "seg_run s = length (takeWhile (\<lambda>c. c \<noteq> CHR ''/'') s)"

text \<open>Greedy: the longest run first, then shorter ones down to the least length.\<close>

definition down_from :: "nat \<Rightarrow> nat \<Rightarrow> nat list" where
  "down_from least most = rev [least..<Suc most]"

fun rx_exec :: "rx_atom list \<Rightarrow> string \<Rightarrow> string list option" where
  "rx_exec [] s = (if s = [] then Some [] else None)"
| "rx_exec (RLit l # as) s = (if starts_with l s then rx_exec as (drop (length l) s) else None)"
| "rx_exec (RSeg # as) s =
     (if starts_with ''/'' s then
        first_some (\<lambda>n. map_option ((#) (take n (tl s))) (rx_exec as (drop n (tl s)))) (down_from 1 (seg_run (tl s)))
      else None)"
| "rx_exec (RRest # as) s =
     (if starts_with ''/'' s then
        first_some (\<lambda>n. map_option ((#) (take n (tl s))) (rx_exec as (drop n (tl s)))) (down_from 0 (line_free_prefix (tl s)))
      else None)"
| "rx_exec (ROptSlash # as) s =
     (if starts_with ''/'' s
      then (case rx_exec as (tl s) of Some c \<Rightarrow> Some c | None \<Rightarrow> rx_exec as s)
      else rx_exec as s)"

text \<open>An alternative is left unanchored by \<open>^(?:a|b)$\<close> only through the shared "$": each one ends there.\<close>

record eligible_pattern =
  ep_segments :: "compiled_segment list"
  ep_target :: nat

record regex_route =
  rr_target :: nat
  rr_names :: "string list"
  rr_groupStart :: nat
  rr_wildLast :: bool

record table_regex =
  tr_regex :: "rx_atom list list"
  tr_routes :: "regex_route list"

text \<open>\<open>regex.exec\<close>: slot 0 is the whole match, then every group of every alternative.\<close>

definition group_count :: "rx_atom list \<Rightarrow> nat" where
  "group_count alt = length (filter (\<lambda>a. a = RSeg \<or> a = RRest) alt)"

fun exec_alts :: "rx_atom list list \<Rightarrow> string \<Rightarrow> string option list option" where
  "exec_alts [] path = None"
| "exec_alts (alt # alts) path =
     (case rx_exec alt path of
        Some caps \<Rightarrow> Some (map Some caps @ replicate (sum_list (map group_count alts)) None)
      | None \<Rightarrow> map_option (\<lambda>rest. replicate (group_count alt) None @ rest) (exec_alts alts path))"

definition table_exec :: "table_regex \<Rightarrow> string \<Rightarrow> string option list option" where
  "table_exec t path = map_option ((#) (Some path)) (exec_alts (tr_regex t) path)"

section \<open>Eligibility and order\<close>

fun eligible_rest :: "compiled_segment list \<Rightarrow> bool" where
  "eligible_rest [] = True"
| "eligible_rest (s # ss) =
     (if kind s = Static then eligible_rest ss
      else if kind s = Wildcard then ss = [] \<and> eligible_rest ss
      else if seg_optional s \<or> seg_pattern s \<noteq> None then False
      else eligible_rest ss)"

definition isRegexEligible :: "compiled_segment list \<Rightarrow> bool" where
  "isRegexEligible segs =
     (case segs of [] \<Rightarrow> False
      | first # rest \<Rightarrow> kind first = Static \<and> eligible_rest rest
          \<and> 0 < length (filter (\<lambda>s. kind s \<noteq> Static) rest))"

definition RANK :: "seg_kind \<Rightarrow> int" where
  "RANK k = (case k of Static \<Rightarrow> 0 | Param \<Rightarrow> 1 | Wildcard \<Rightarrow> 2)"

definition staticCountOf :: "compiled_segment list \<Rightarrow> int" where
  "staticCountOf segs = int (length (filter (\<lambda>s. kind s = Static) segs))"

fun rank_diff :: "compiled_segment list \<Rightarrow> compiled_segment list \<Rightarrow> int option" where
  "rank_diff (x # xs) (y # ys) =
     (if RANK (kind x) \<noteq> RANK (kind y) then Some (RANK (kind x) - RANK (kind y)) else rank_diff xs ys)"
| "rank_diff _ _ = None"

definition triePrecedence :: "compiled_segment list \<Rightarrow> compiled_segment list \<Rightarrow> int" where
  "triePrecedence a b =
     (case rank_diff a b of Some d \<Rightarrow> d
      | None \<Rightarrow>
          (let longer = (if length a > length b then a else b) in
           if length a \<noteq> length b \<and> length longer = min (length a) (length b) + 1
              \<and> kind (last longer) = Wildcard
           then (if length a < length b then -1 else 1)
           else (let statics = staticCountOf b - staticCountOf a in
             if statics \<noteq> 0 then statics else int (length b) - int (length a))))"

text \<open>\<open>Array.prototype.sort\<close> with a comparator: a stable sort.\<close>

fun insert_by :: "('a \<Rightarrow> 'a \<Rightarrow> int) \<Rightarrow> 'a \<Rightarrow> 'a list \<Rightarrow> 'a list" where
  "insert_by cmp x [] = [x]"
| "insert_by cmp x (y # ys) = (if cmp x y \<le> 0 then x # y # ys else y # insert_by cmp x ys)"

definition sort_by :: "('a \<Rightarrow> 'a \<Rightarrow> int) \<Rightarrow> 'a list \<Rightarrow> 'a list" where
  "sort_by cmp xs = foldr (insert_by cmp) xs []"

section \<open>compileTableRegex and matchTableRegex\<close>

fun alt_tail :: "compiled_segment list \<Rightarrow> rx_atom list" where
  "alt_tail [] = []"
| "alt_tail (s # ss) =
     (case kind s of Static \<Rightarrow> RLit (CHR ''/'' # seg_value s) | Wildcard \<Rightarrow> RRest | Param \<Rightarrow> RSeg) # alt_tail ss"

definition compile_alt :: "compiled_segment list \<Rightarrow> rx_atom list" where
  "compile_alt segs =
     RLit (CHR ''/'' # seg_value (hd segs)) # alt_tail (tl segs)
       @ (if kind (last segs) = Wildcard then [] else [ROptSlash])"

fun compile_routes :: "nat \<Rightarrow> eligible_pattern list \<Rightarrow> regex_route list" where
  "compile_routes groupCount [] = []"
| "compile_routes groupCount (e # es) =
     (let names = map seg_value (filter (\<lambda>s. kind s \<noteq> Static) (tl (ep_segments e))) in
      \<lparr>rr_target = ep_target e, rr_names = names, rr_groupStart = groupCount + 1,
       rr_wildLast = (kind (last (ep_segments e)) = Wildcard)\<rparr>
      # compile_routes (groupCount + length names) es)"

definition collect_patterns :: "(string, eligible_pattern) js_map \<Rightarrow> string list \<Rightarrow> eligible_pattern list" where
  "collect_patterns patterns impureFirst =
     filter (\<lambda>e. (\<exists>s \<in> set (ep_segments e). kind s \<noteq> Static)
               \<and> seg_value (hd (ep_segments e)) \<notin> set impureFirst) (map snd patterns)"

definition compileTableRegex ::
  "(string, eligible_pattern) js_map \<Rightarrow> string list \<Rightarrow> table_regex option" where
  "compileTableRegex patterns impureFirst =
     (let collected = collect_patterns patterns impureFirst in
      if length collected = 0 then None
      else (let sorted = sort_by (\<lambda>x y. triePrecedence (ep_segments x) (ep_segments y)) collected in
        Some \<lparr>tr_regex = map (\<lambda>e. compile_alt (ep_segments e)) sorted,
              tr_routes = compile_routes 0 sorted\<rparr>))"

definition strip_wild :: "regex_route \<Rightarrow> bool \<Rightarrow> string option list \<Rightarrow> string option list" where
  "strip_wild route slash result =
     (if rr_wildLast route \<and> slash then
        (let index = rr_groupStart route + length (rr_names route) - 1 in
         case result ! index of
           Some capture \<Rightarrow> if 1 < length capture \<and> ends_with ''/'' capture
                           then result[index := Some (butlast capture)] else result
         | None \<Rightarrow> result)
      else result)"

definition matchTableRegex :: "table_regex \<Rightarrow> string \<Rightarrow> route_match option" where
  "matchTableRegex table path =
     (if ends_with ''//'' path then None
      else case table_exec table path of None \<Rightarrow> None
        | Some result \<Rightarrow>
            first_some (\<lambda>route.
              if result ! rr_groupStart route \<noteq> None
              then Some \<lparr>rm_target = rr_target route, rm_names = rr_names route,
                     rm_values = strip_wild route (1 < length path \<and> ends_with ''/'' path) result,
                     rm_offset = rr_groupStart route\<rparr>
              else None) (tr_routes table))"

end
