(* ===== verification/Strings.thy ===== *)
theory Strings
  imports Uri
begin

text \<open>
  Further string operations of the language: decimal and hexadecimal numerals, \<open>trim\<close>, splitting at a
  substring, and the class of word characters several grammars share.
\<close>

section \<open>Decimal numerals\<close>

text \<open>\<open>String(n)\<close> of a natural number.\<close>

fun show_digits :: "nat \<Rightarrow> string" where
  "show_digits n = (if n < 10 then [char_of (48 + n)] else show_digits (n div 10) @ [char_of (48 + n mod 10)])"

declare show_digits.simps [simp del]

definition show_int :: "int \<Rightarrow> string" where
  "show_int i = (if i < 0 then CHR ''-'' # show_digits (nat (- i)) else show_digits (nat i))"

lemma dec_value_snoc: "dec_value (s @ [c]) = 10 * dec_value s + digit_val c"
  by (simp add: dec_value_def)

lemma dec_value_show [simp]: "dec_value (show_digits n) = n"
proof (induction n rule: show_digits.induct)
  case (1 n)
  show ?case
  proof (cases "n < 10")
    case True
    then show ?thesis by (simp add: show_digits.simps dec_value_def digit_val_def)
  next
    case False
    with 1 show ?thesis
      by (subst show_digits.simps) (simp add: dec_value_snoc digit_val_def)
  qed
qed

lemma show_digits_digits: "\<forall>c \<in> set (show_digits n). is_digit c"
proof (induction n rule: show_digits.induct)
  case (1 n)
  then show ?case by (subst show_digits.simps) (auto simp: is_digit_def)
qed

lemma show_digits_no: "\<not> is_digit c \<Longrightarrow> c \<notin> set (show_digits n)"
  using show_digits_digits by blast

lemma show_digits_no_colon: "CHR '':'' \<notin> set (show_digits n)"
  by (rule show_digits_no) (simp add: is_digit_def)

lemma show_digits_not_Nil [simp]: "show_digits n \<noteq> []"
  by (subst show_digits.simps) simp

lemma show_digits_length: "n < 10 ^ k \<Longrightarrow> 0 < k \<Longrightarrow> length (show_digits n) \<le> k"
proof (induction k arbitrary: n)
  case (Suc k)
  show ?case
  proof (cases "n < 10")
    case True
    then show ?thesis by (simp add: show_digits.simps)
  next
    case False
    with Suc.prems have "n div 10 < 10 ^ k" "0 < k" by (auto simp: less_mult_imp_div_less intro: gr0I)
    with Suc.IH have "length (show_digits (n div 10)) \<le> k" by blast
    with False show ?thesis by (subst show_digits.simps) simp
  qed
qed simp

section \<open>Hexadecimal numerals\<close>

text \<open>\<open>n.toString(16)\<close> and \<open>Number.parseInt(s, 16)\<close> of a string of hexadecimal digits.\<close>

definition lower_hex :: "nat \<Rightarrow> char" where
  "lower_hex n = char_of (if n < 10 then n + 48 else n + 87)"

fun show_hex :: "nat \<Rightarrow> string" where
  "show_hex n = (if n < 16 then [lower_hex n] else show_hex (n div 16) @ [lower_hex (n mod 16)])"

declare show_hex.simps [simp del]

definition is_hex :: "char \<Rightarrow> bool" where "is_hex c \<longleftrightarrow> hex_val c \<noteq> None"

definition hex_value :: "string \<Rightarrow> nat" where
  "hex_value s = foldl (\<lambda>n c. 16 * n + (case hex_val c of None \<Rightarrow> 0 | Some d \<Rightarrow> d)) 0 s"

lemma hex_val_lower: "n < 16 \<Longrightarrow> hex_val (lower_hex n) = Some n"
  by (auto simp: hex_val_def lower_hex_def Let_def)

lemma hex_value_snoc: "hex_value (s @ [c]) = 16 * hex_value s + (case hex_val c of None \<Rightarrow> 0 | Some d \<Rightarrow> d)"
  by (simp add: hex_value_def)

lemma hex_value_show [simp]: "hex_value (show_hex n) = n"
proof (induction n rule: show_hex.induct)
  case (1 n)
  show ?case
  proof (cases "n < 16")
    case True
    then show ?thesis by (simp add: show_hex.simps hex_value_def hex_val_lower)
  next
    case False
    with 1 show ?thesis by (subst show_hex.simps) (simp add: hex_value_snoc hex_val_lower)
  qed
qed

lemma show_hex_hex: "\<forall>c \<in> set (show_hex n). is_hex c"
proof (induction n rule: show_hex.induct)
  case (1 n)
  then show ?case by (subst show_hex.simps) (auto simp: is_hex_def hex_val_lower)
qed

lemma show_hex_no: "\<not> is_hex c \<Longrightarrow> c \<notin> set (show_hex n)"
  using show_hex_hex by blast

lemma show_hex_not_Nil [simp]: "show_hex n \<noteq> []"
  by (subst show_hex.simps) simp

lemma show_hex_length: "n < 16 ^ k \<Longrightarrow> 0 < k \<Longrightarrow> length (show_hex n) \<le> k"
proof (induction k arbitrary: n)
  case (Suc k)
  show ?case
  proof (cases "n < 16")
    case True
    then show ?thesis by (simp add: show_hex.simps)
  next
    case False
    with Suc.prems have "n div 16 < 16 ^ k" "0 < k" by (auto simp: less_mult_imp_div_less intro: gr0I)
    with Suc.IH have "length (show_hex (n div 16)) \<le> k" by blast
    with False show ?thesis by (subst show_hex.simps) simp
  qed
qed simp

lemma hex_val_bound: "hex_val c = Some d \<Longrightarrow> d < 16"
  by (auto simp: hex_val_def Let_def split: if_splits)

lemma hex_value_bound: "hex_value s < 16 ^ length s"
proof (induction s rule: rev_induct)
  case (snoc c s)
  then show ?case using hex_val_bound [of c] by (auto simp: hex_value_snoc split: option.split)
qed (simp add: hex_value_def)

section \<open>White space\<close>

text \<open>The white space and line terminators \<open>trim\<close> removes, as UTF-8.\<close>

definition js_ws :: "string list" where
  "js_ws = [
    [CHR 0x09], [CHR 0x0A], [CHR 0x0B], [CHR 0x0C], [CHR 0x0D], [CHR 0x20], [CHR 0xC2, CHR 0xA0],
    [CHR 0xE1, CHR 0x9A, CHR 0x80], [CHR 0xE2, CHR 0x80, CHR 0x80], [CHR 0xE2, CHR 0x80, CHR 0x81],
    [CHR 0xE2, CHR 0x80, CHR 0x82], [CHR 0xE2, CHR 0x80, CHR 0x83], [CHR 0xE2, CHR 0x80, CHR 0x84],
    [CHR 0xE2, CHR 0x80, CHR 0x85], [CHR 0xE2, CHR 0x80, CHR 0x86], [CHR 0xE2, CHR 0x80, CHR 0x87],
    [CHR 0xE2, CHR 0x80, CHR 0x88], [CHR 0xE2, CHR 0x80, CHR 0x89], [CHR 0xE2, CHR 0x80, CHR 0x8A],
    [CHR 0xE2, CHR 0x80, CHR 0xA8], [CHR 0xE2, CHR 0x80, CHR 0xA9], [CHR 0xE2, CHR 0x80, CHR 0xAF],
    [CHR 0xE2, CHR 0x81, CHR 0x9F], [CHR 0xE3, CHR 0x80, CHR 0x80], [CHR 0xEF, CHR 0xBB, CHR 0xBF]]"

lemma js_ws_nonempty: "w \<in> set js_ws \<Longrightarrow> w \<noteq> []"
  by (auto simp: js_ws_def)

function trim_start :: "string \<Rightarrow> string" where
  "trim_start s = (case find (\<lambda>w. prefix w s) js_ws of None \<Rightarrow> s | Some w \<Rightarrow> trim_start (drop (length w) s))"
  by pat_completeness auto
termination
  by (relation "measure length") (auto simp: find_Some_iff dest!: nth_mem dest: js_ws_nonempty elim!: prefixE)

function trim_end :: "string \<Rightarrow> string" where
  "trim_end s = (case find (\<lambda>w. suffix w s) js_ws of None \<Rightarrow> s
     | Some w \<Rightarrow> trim_end (take (length s - length w) s))"
  by pat_completeness auto
termination
  by (relation "measure length") (auto simp: find_Some_iff dest!: nth_mem dest: js_ws_nonempty elim!: suffixE)

declare trim_start.simps [simp del] trim_end.simps [simp del]

definition js_trim :: "string \<Rightarrow> string" where "js_trim s = trim_end (trim_start s)"

text \<open>Trimming leaves a string alone that starts and ends with a visible character.\<close>

definition visible :: "char \<Rightarrow> bool" where "visible c \<longleftrightarrow> (32::nat) < of_char c \<and> of_char c < (127::nat)"

lemma js_ws_invisible: "w \<in> set js_ws \<Longrightarrow> \<not> visible (hd w) \<and> \<not> visible (last w)"
  by (auto simp: js_ws_def visible_def)

lemma trim_start_visible:
  assumes "visible (hd s)" and "s \<noteq> []"
  shows "trim_start s = s"
proof -
  have "\<not> prefix w s" if "w \<in> set js_ws" for w
    using js_ws_invisible [OF that] js_ws_nonempty [OF that] assms by (cases s; cases w) auto
  then have "find (\<lambda>w. prefix w s) js_ws = None" by (simp add: find_None_iff)
  then show ?thesis by (subst trim_start.simps) simp
qed

lemma trim_end_visible:
  assumes "visible (last s)"
  shows "trim_end s = s"
proof -
  have "\<not> suffix w s" if "w \<in> set js_ws" for w
    using js_ws_invisible [OF that] js_ws_nonempty [OF that] assms by (auto simp: suffix_def)
  then have "find (\<lambda>w. suffix w s) js_ws = None" by (simp add: find_None_iff)
  then show ?thesis by (subst trim_end.simps) simp
qed

lemma trim_visible: "s \<noteq> [] \<Longrightarrow> visible (hd s) \<Longrightarrow> visible (last s) \<Longrightarrow> js_trim s = s"
  by (simp add: js_trim_def trim_start_visible trim_end_visible)

lemma trim_start_space: "trim_start (CHR '' '' # s) = trim_start s"
  by (subst trim_start.simps) (simp add: js_ws_def)

lemma trim_space: "js_trim (CHR '' '' # s) = js_trim s"
  by (simp add: js_trim_def trim_start_space)

text \<open>The white space HTTP allows around a token goes at either end.\<close>

definition ows :: "char \<Rightarrow> bool" where "ows c \<longleftrightarrow> c = CHR '' '' \<or> c = CHR 0x09"

lemma trim_start_tab: "trim_start (CHR 0x09 # s) = trim_start s"
  by (subst trim_start.simps) (simp add: js_ws_def)

lemma trim_start_ows: "list_all ows u \<Longrightarrow> trim_start (u @ s) = trim_start s"
  by (induction u) (auto simp: ows_def trim_start_tab trim_start_space)

lemma suffix_at_end: "suffix w (s @ [c]) \<longleftrightarrow> w = [] \<or> (last w = c \<and> suffix (butlast w) s)"
  by (cases w rule: rev_cases) (auto simp: suffix_def)

lemma trim_end_space: "trim_end (s @ [CHR '' '']) = trim_end s"
  by (subst trim_end.simps) (simp add: js_ws_def suffix_at_end)

lemma trim_end_tab: "trim_end (s @ [CHR 0x09]) = trim_end s"
  by (subst trim_end.simps) (simp add: js_ws_def suffix_at_end)

lemma trim_end_ows: "list_all ows u \<Longrightarrow> trim_end (s @ u) = trim_end s"
proof (induction u rule: rev_induct)
  case (snoc c u)
  have "trim_end ((s @ u) @ [c]) = trim_end (s @ u)"
    using snoc.prems trim_end_space [of "s @ u"] trim_end_tab [of "s @ u"] by (auto simp: ows_def)
  then show ?case using snoc by simp
qed simp

lemma trim_around:
  assumes "list_all ows u" "list_all ows w" "t \<noteq> []" "visible (hd t)" "visible (last t)"
  shows "js_trim (u @ t @ w) = t"
proof -
  have "trim_start (u @ t @ w) = t @ w"
    using assms trim_start_ows [OF assms(1)] trim_start_visible [of "t @ w"] by simp
  then show ?thesis using assms trim_end_ows [OF assms(2), of t] trim_end_visible [of t] by (simp add: js_trim_def)
qed

lemma trim_all_ows: "list_all ows u \<Longrightarrow> js_trim u = []"
proof -
  assume "list_all ows u"
  then have "trim_start u = trim_start []" using trim_start_ows [of u "[]"] by simp
  also have "\<dots> = []" by (subst trim_start.simps) (simp add: js_ws_def)
  moreover have "trim_end [] = []" by (subst trim_end.simps) (simp add: js_ws_def suffix_def)
  ultimately show ?thesis by (simp add: js_trim_def)
qed

lemma append_sep_inj: "x \<notin> set a \<Longrightarrow> x \<notin> set c \<Longrightarrow> a @ x # b = c @ x # d \<Longrightarrow> a = c \<and> b = d"
proof (induction a arbitrary: c)
  case Nil
  then show ?case by (cases c) auto
next
  case (Cons y a)
  then show ?case by (cases c) auto
qed

section \<open>Splitting at a substring\<close>

function js_split_str :: "string \<Rightarrow> string \<Rightarrow> string list" where
  "js_split_str p s = (if p = [] then [s] else case index_of_str p s 0 of None \<Rightarrow> [s]
     | Some i \<Rightarrow> take i s # js_split_str p (drop (i + length p) s))"
  by pat_completeness auto
termination
proof (relation "measure (\<lambda>(p, s). length s)", simp)
  fix p s :: string and i assume p: "p \<noteq> []" and i: "index_of_str p s 0 = Some i"
  have "s \<noteq> []" using p i by (auto simp: index_of_str_def)
  with p show "((p, drop (i + length p) s), p, s) \<in> measure (\<lambda>(p, s). length s)" by simp
qed

declare js_split_str.simps [simp del]

lemma find_from_bound: "find_from p s i = Some j \<Longrightarrow> i \<le> j \<and> j - i \<le> length s \<and> prefix p (drop (j - i) s)"
proof (induction p s i rule: find_from.induct)
  case (2 p x xs i)
  show ?case
  proof (cases "prefix p (x # xs)")
    case False
    with 2 have *: "Suc i \<le> j" "j - Suc i \<le> length xs" "prefix p (drop (j - Suc i) xs)" by auto
    then have "j - i = Suc (j - Suc i)" by simp
    with * show ?thesis by simp
  qed (use 2 in auto)
qed (auto split: if_splits)

lemma find_from_None: "find_from p s i = None \<longleftrightarrow> (\<forall>k \<le> length s. \<not> prefix p (drop k s))"
proof (induction p s i rule: find_from.induct)
  case (2 p x xs i)
  have "(\<forall>k \<le> length (x # xs). \<not> prefix p (drop k (x # xs)))
    \<longleftrightarrow> \<not> prefix p (x # xs) \<and> (\<forall>k \<le> length xs. \<not> prefix p (drop k xs))"
    by (auto simp: less_Suc_eq_le) (metis Suc_le_mono drop_Suc_Cons drop0 not0_implies_Suc)+
  with 2 show ?case by simp
qed simp

end
