(* ===== verification/MiddlewareStack.thy ===== *)
theory MiddlewareStack
  imports TrieCorrect Strings
begin

text \<open>
  Application middleware and its path scopes, src/core/middleware-stack.ts. A middleware function
  is a value of a type \<open>'h\<close>; the wrapper built by \<open>conditional\<close> carries its metadata (the code
  keeps it in a WeakMap keyed by the wrapper). A composed chain is the list it composes. The
  transparency declarations (\<open>noOpMeta\<close>) are the argument \<open>noop\<close>.
\<close>

section \<open>Data\<close>

record mw_scope =
  sc_pattern :: string
  sc_segments :: "string list"
  sc_prefix :: bool

record 'h mw_layer =
  ly_scope :: "mw_scope option"
  ly_handler :: 'h

datatype 'h fallback_node = FNode
  (fchildren: "(string \<times> 'h fallback_node) list")
  (exactChain: "'h list option")
  (prefixChain: "'h list option")

record 'h mw_stack =
  layers :: "'h mw_layer list"
  global :: "'h list"
  globalChain :: "'h list option"
  fallbackRoot :: "'h fallback_node"

datatype 'h mw = Plain 'h | Conditional mw_scope 'h nat

definition createFallbackNode :: "'h fallback_node" where
  "createFallbackNode = FNode [] None None"

definition createMiddlewareStack :: "'h mw_stack" where
  "createMiddlewareStack = \<lparr>layers = [], global = [], globalChain = None, fallbackRoot = createFallbackNode\<rparr>"

section \<open>Scopes\<close>

text \<open>\<open>startsWithSegments\<close> of src/router/router.ts.\<close>

definition startsWithSegments :: "string list \<Rightarrow> string list \<Rightarrow> bool" where
  "startsWithSegments pre full \<longleftrightarrow>
     length pre \<le> length full \<and> list_all (\<lambda>(a, b). a = b) (zip pre full)"

lemma startsWithSegments_prefix [simp]: "startsWithSegments pre full \<longleftrightarrow> prefix pre full"
proof (induction pre arbitrary: full)
  case (Cons x pre)
  then show ?case by (cases full) (auto simp: startsWithSegments_def)
qed (simp add: startsWithSegments_def)

definition keyOf :: "string list \<Rightarrow> string" where
  "keyOf segs = concat (map (\<lambda>s. show_digits (length s) @ '':'' @ s) segs)"

definition scopeMatchesSegments :: "mw_scope \<Rightarrow> string list \<Rightarrow> bool" where
  "scopeMatchesSegments scope segs =
     (if sc_prefix scope then startsWithSegments (sc_segments scope) segs
      else length (sc_segments scope) = length segs \<and> startsWithSegments (sc_segments scope) segs)"

definition pathSegments :: "string \<Rightarrow> string list" where
  "pathSegments path =
     (let parts = tl (js_split CHR ''/'' (normalizePath path)) in
      if length parts = 1 \<and> hd parts = [] then [] else map decodeSegment parts)"

fun scope_loop :: "nat \<Rightarrow> nat \<Rightarrow> compiled_segment list \<Rightarrow> (string list \<times> bool) res" where
  "scope_loop index len [] = ok ([], False)"
| "scope_loop index len (s # ss) =
     (if kind s = Static then
        res_bind (scope_loop (Suc index) len ss) (\<lambda>(segs, p). ok (seg_value s # segs, p))
      else if kind s = Wildcard \<and> index = len - 1 then
        res_bind (scope_loop (Suc index) len ss) (\<lambda>(segs, p). ok (segs, True))
      else throw (TypeError ''app.use() scope must be a static path or end in /*''))"

definition compileMiddlewareScope :: "(string \<Rightarrow> bool) \<Rightarrow> string \<Rightarrow> mw_scope res" where
  "compileMiddlewareScope re_ok pattern =
     res_bind (compilePattern re_ok pattern) (\<lambda>ir.
       res_bind (scope_loop 0 (length (segments ir)) (segments ir)) (\<lambda>(segs, p).
         ok \<lparr>sc_pattern = pattern, sc_segments = segs, sc_prefix = p\<rparr>))"

section \<open>Transparency declarations\<close>

record noop_decl =
  nd_methods :: "string list option"
  nd_bodyless :: bool

definition BODYLESS_METHODS :: "string list" where "BODYLESS_METHODS = [''GET'', ''HEAD'']"

definition noOpFor :: "string list option \<Rightarrow> bool \<Rightarrow> noop_decl res" where
  "noOpFor methods bodyless =
     (case methods of
        Some ms \<Rightarrow>
          if \<exists>m \<in> set ms. length m = 0 then throw (TypeError ''noOpFor methods must be non-empty strings'')
          else if ms = [] then throw (TypeError ''noOpFor declaration needs methods, bodyless, or both'')
          else ok \<lparr>nd_methods = Some (map to_upper ms), nd_bodyless = bodyless\<rparr>
      | None \<Rightarrow>
          if \<not> bodyless then throw (TypeError ''noOpFor declaration needs methods, bodyless, or both'')
          else ok \<lparr>nd_methods = None, nd_bodyless = True\<rparr>)"

definition noOpExcuses :: "('h \<Rightarrow> noop_decl option) \<Rightarrow> 'h \<Rightarrow> string list \<Rightarrow> bool" where
  "noOpExcuses noop handler methods =
     (case noop handler of None \<Rightarrow> False
      | Some d \<Rightarrow>
          if nd_bodyless d \<and> list_all (\<lambda>m. m \<in> set BODYLESS_METHODS) methods then True
          else (case nd_methods d of None \<Rightarrow> False
                | Some ms \<Rightarrow> list_all (\<lambda>m. m \<in> set ms) methods))"

section \<open>The fallback chains\<close>

definition chainOf :: "'h list \<Rightarrow> 'h list option" where
  "chainOf handlers = (if handlers = [] then None else Some handlers)"

definition layer_applies :: "string list \<Rightarrow> bool \<Rightarrow> 'h mw_layer \<Rightarrow> bool" where
  "layer_applies segs includeExact layer =
     (case ly_scope layer of None \<Rightarrow> True
      | Some scope \<Rightarrow>
          if sc_prefix scope then startsWithSegments (sc_segments scope) segs
          else includeExact \<and> scopeMatchesSegments scope segs)"

definition handlersForSegments :: "'h mw_stack \<Rightarrow> string list \<Rightarrow> bool \<Rightarrow> 'h list" where
  "handlersForSegments stack segs includeExact =
     map ly_handler (filter (layer_applies segs includeExact) (layers stack))"

fun nodeUpdate :: "('h fallback_node \<Rightarrow> 'h fallback_node) \<Rightarrow> string list \<Rightarrow> 'h fallback_node \<Rightarrow> 'h fallback_node" where
  "nodeUpdate f [] n = f n"
| "nodeUpdate f (s # ss) n =
     FNode (jm_set s (nodeUpdate f ss (case jm_get (fchildren n) s of Some c \<Rightarrow> c | None \<Rightarrow> createFallbackNode))
              (fchildren n))
       (exactChain n) (prefixChain n)"

definition set_exact :: "'h list \<Rightarrow> 'h fallback_node \<Rightarrow> 'h fallback_node" where
  "set_exact c n = FNode (fchildren n) (Some c) (prefixChain n)"

definition set_prefix :: "'h list \<Rightarrow> 'h fallback_node \<Rightarrow> 'h fallback_node" where
  "set_prefix c n = FNode (fchildren n) (exactChain n) (Some c)"

definition scope_table :: "bool \<Rightarrow> 'h mw_layer list \<Rightarrow> (string, string list) js_map" where
  "scope_table want ls =
     foldl (\<lambda>m layer. case ly_scope layer of None \<Rightarrow> m
              | Some scope \<Rightarrow> if sc_prefix scope = want
                              then jm_set (keyOf (sc_segments scope)) (sc_segments scope) m else m) [] ls"

definition install_chains ::
  "('h list \<Rightarrow> 'h fallback_node \<Rightarrow> 'h fallback_node) \<Rightarrow> (string list \<Rightarrow> 'h list) \<Rightarrow> string list list
     \<Rightarrow> 'h fallback_node \<Rightarrow> 'h fallback_node" where
  "install_chains setter handlers segss root =
     foldl (\<lambda>n segs. case chainOf (handlers segs) of None \<Rightarrow> n | Some c \<Rightarrow> nodeUpdate (setter c) segs n)
       root segss"

definition rebuildFallbacks :: "'h mw_stack \<Rightarrow> 'h mw_stack" where
  "rebuildFallbacks stack =
     (let exactScopes = map snd (scope_table False (layers stack));
          prefixScopes = map snd (scope_table True (layers stack));
          root1 = install_chains set_exact (\<lambda>s. handlersForSegments stack s True) exactScopes createFallbackNode;
          root2 = install_chains set_prefix (\<lambda>s. handlersForSegments stack s False) prefixScopes root1
      in stack\<lparr>globalChain := chainOf (global stack), fallbackRoot := root2\<rparr>)"

definition addMiddleware :: "'h mw_stack \<Rightarrow> mw_scope option \<Rightarrow> 'h list \<Rightarrow> 'h mw_stack" where
  "addMiddleware stack scope handlers =
     rebuildFallbacks (foldl (\<lambda>st h.
        st\<lparr>layers := layers st @ [\<lparr>ly_scope = scope, ly_handler = h\<rparr>],
           global := (if scope = None then global st @ [h] else global st)\<rparr>) stack handlers)"

fun fallback_walk :: "'h fallback_node \<Rightarrow> 'h list option \<Rightarrow> 'h list option \<Rightarrow> string list \<Rightarrow> 'h list option" where
  "fallback_walk node pre glob [] =
     (case exactChain node of Some c \<Rightarrow> Some c | None \<Rightarrow> (case pre of Some c \<Rightarrow> Some c | None \<Rightarrow> glob))"
| "fallback_walk node pre glob (s # ss) =
     (case jm_get (fchildren node) s of
        None \<Rightarrow> (case pre of Some c \<Rightarrow> Some c | None \<Rightarrow> glob)
      | Some child \<Rightarrow>
          fallback_walk child (case prefixChain child of Some c \<Rightarrow> Some c | None \<Rightarrow> pre) glob ss)"

definition fallbackMiddlewareForPath :: "'h mw_stack \<Rightarrow> string \<Rightarrow> 'h list option" where
  "fallbackMiddlewareForPath stack path =
     (if length (layers stack) = length (global stack) then globalChain stack
      else fallback_walk (fallbackRoot stack) (prefixChain (fallbackRoot stack)) (globalChain stack) (pathSegments path))"

definition hasMiddlewareForPath :: "'h mw_stack \<Rightarrow> string \<Rightarrow> bool" where
  "hasMiddlewareForPath stack path \<longleftrightarrow> 0 < length (global stack)
     \<or> (\<exists>layer \<in> set (layers stack). case ly_scope layer of None \<Rightarrow> False
          | Some scope \<Rightarrow> scopeMatchesSegments scope (pathSegments path))"

section \<open>Routes\<close>

datatype relation = Always | Never | Cond

fun prefix_relation :: "string list \<Rightarrow> compiled_segment list \<Rightarrow> compiled_segment list \<Rightarrow> relation" where
  "prefix_relation [] rest route = Always"
| "prefix_relation (v # vs) [] route =
     (if \<exists>c \<in> set route. kind c \<noteq> Static then Cond else Never)"
| "prefix_relation (v # vs) (s # ss) route =
     (if kind s \<noteq> Static then Cond else if seg_value s \<noteq> v then Never else prefix_relation vs ss route)"

definition routeRelation :: "mw_scope \<Rightarrow> compiled_segment list \<Rightarrow> relation" where
  "routeRelation scope route =
     (if \<not> sc_prefix scope then
        (if length route = length (sc_segments scope)
            \<and> list_all (\<lambda>(s, v). kind s = Static \<and> seg_value s = v) (zip route (sc_segments scope))
         then Always
         else if list_all (\<lambda>s. kind s = Static) route then Never else Cond)
      else if length (sc_segments scope) = 0 then Always
      else prefix_relation (sc_segments scope) route route)"

text \<open>Calling a wrapper: does its inner handler run (True) or only \<open>next()\<close>.\<close>

definition mw_runs :: "string \<Rightarrow> 'h mw \<Rightarrow> bool" where
  "mw_runs path m =
     (case m of Plain h \<Rightarrow> True
      | Conditional scope h pathOffset \<Rightarrow> scopeMatchesSegments scope (drop pathOffset (pathSegments path)))"

definition mw_handler :: "'h mw \<Rightarrow> 'h" where
  "mw_handler m = (case m of Plain h \<Rightarrow> h | Conditional _ h _ \<Rightarrow> h)"

fun route_layers :: "compiled_segment list \<Rightarrow> nat \<Rightarrow> 'h mw_layer list \<Rightarrow> 'h mw list" where
  "route_layers route off [] = []"
| "route_layers route off (layer # ls) =
     (case ly_scope layer of
        None \<Rightarrow> Plain (ly_handler layer) # route_layers route off ls
      | Some scope \<Rightarrow>
          (case routeRelation scope route of
             Always \<Rightarrow> Plain (ly_handler layer) # route_layers route off ls
           | Cond \<Rightarrow> Conditional scope (ly_handler layer) off # route_layers route off ls
           | Never \<Rightarrow> route_layers route off ls))"

definition middlewareForRoute :: "(string \<Rightarrow> bool) \<Rightarrow> 'h mw_stack \<Rightarrow> string \<Rightarrow> nat \<Rightarrow> 'h mw list res" where
  "middlewareForRoute re_ok stack path pathOffset =
     res_bind (compilePattern re_ok path) (\<lambda>ir. ok (route_layers (segments ir) pathOffset (layers stack)))"

definition rebaseMountedMiddleware :: "'h mw list \<Rightarrow> nat \<Rightarrow> 'h mw list" where
  "rebaseMountedMiddleware handlers pathOffset =
     map (\<lambda>m. case m of Plain h \<Rightarrow> Plain h
              | Conditional scope h off \<Rightarrow> Conditional scope h (off + pathOffset)) handlers"

section \<open>Sink guards\<close>

record sink_guard =
  sg_path :: string
  sg_methods :: "string list"

definition scopeOverlapsPath :: "(string \<Rightarrow> bool) \<Rightarrow> mw_scope \<Rightarrow> string \<Rightarrow> bool" where
  "scopeOverlapsPath re_ok scope pattern = patternsOverlap re_ok (sc_pattern scope) pattern"

definition middlewareConflictForPath ::
  "(string \<Rightarrow> bool) \<Rightarrow> ('h \<Rightarrow> noop_decl option) \<Rightarrow> 'h mw_stack \<Rightarrow> string \<Rightarrow> string list \<Rightarrow> string option" where
  "middlewareConflictForPath re_ok noop stack path methods =
     first_some (\<lambda>layer.
       if noOpExcuses noop (ly_handler layer) methods then None
       else (case ly_scope layer of None \<Rightarrow> Some ''global''
             | Some scope \<Rightarrow> if scopeOverlapsPath re_ok scope path then Some (sc_pattern scope) else None))
       (layers stack)"

text \<open>The arguments of \<open>app.use\<close>: a plugin is the effect its \<open>install\<close> has on the stack.\<close>

datatype 'h use_arg =
    UString string
  | UFun 'h
  | UPlugin "'h mw_stack \<Rightarrow> 'h mw_stack res"
  | UOther

definition hasUnexcusedFn :: "('h \<Rightarrow> noop_decl option) \<Rightarrow> sink_guard list \<Rightarrow> 'h use_arg list \<Rightarrow> bool" where
  "hasUnexcusedFn noop specs args \<longleftrightarrow>
     (\<exists>a \<in> set args. case a of
        UFun h \<Rightarrow> \<not> list_all (\<lambda>spec. noOpExcuses noop h (sg_methods spec)) specs
      | _ \<Rightarrow> False)"

definition flush :: "mw_scope option \<Rightarrow> 'h mw_stack \<Rightarrow> 'h list \<Rightarrow> bool \<Rightarrow> 'h mw_stack \<times> bool" where
  "flush scope stack pending changed =
     (if length pending = 0 then (stack, changed) else (addMiddleware stack scope pending, True))"

fun use_loop ::
  "mw_scope option \<Rightarrow> 'h mw_stack \<Rightarrow> 'h list \<Rightarrow> bool \<Rightarrow> 'h use_arg list \<Rightarrow> 'h mw_stack \<times> bool res" where
  "use_loop scope stack pending changed [] =
     (let (st, ch) = flush scope stack pending changed in (st, ok ch))"
| "use_loop scope stack pending changed (a # args) =
     (case a of
        UPlugin install \<Rightarrow>
          if scope \<noteq> None then (stack, throw (TypeError ''app.use(pattern, plugin) is invalid''))
          else (let (st, ch) = flush scope stack pending changed in
                case install st of Inl e \<Rightarrow> (st, throw e) | Inr st2 \<Rightarrow> use_loop scope st2 [] ch args)
      | UFun h \<Rightarrow> use_loop scope stack (pending @ [h]) changed args
      | _ \<Rightarrow> (stack, throw (TypeError ''app.use() requires a middleware function or plugin'')))"

definition registerMiddleware ::
  "(string \<Rightarrow> bool) \<Rightarrow> ('h \<Rightarrow> noop_decl option) \<Rightarrow> 'h mw_stack \<Rightarrow> sink_guard list \<Rightarrow> 'h use_arg list
     \<Rightarrow> 'h mw_stack \<times> bool res" where
  "registerMiddleware re_ok noop stack sinkSpecs input =
     (let (pattern, args) = (case input of UString p # rest \<Rightarrow> (Some p, rest) | _ \<Rightarrow> (None, input)) in
      case (case pattern of None \<Rightarrow> ok None | Some p \<Rightarrow> map_sum id Some (compileMiddlewareScope re_ok p)) of
        Inl e \<Rightarrow> (stack, throw e)
      | Inr scope \<Rightarrow>
          if scope \<noteq> None \<and> args = []
          then (stack, throw (TypeError ''app.use(pattern) requires at least one middleware function''))
          else if scope = None \<and> 0 < length sinkSpecs \<and> hasUnexcusedFn noop sinkSpecs args
          then (stack, throw (TypeError ''app.use(fn) cannot run alongside sunk routes''))
          else if (case scope of None \<Rightarrow> False
                   | Some sc \<Rightarrow> \<exists>spec \<in> set sinkSpecs.
                       scopeOverlapsPath re_ok sc (sg_path spec) \<and> hasUnexcusedFn noop sinkSpecs args)
          then (stack, throw (TypeError ''app.use(pattern) middleware overlaps a natively-sunk path''))
          else use_loop scope stack [] False args)"

end
