(* ===== verification/Router.thy ===== *)
theory Router
  imports FastMatch MiddlewareStack
begin

text \<open>
  The router: its state, transactional registration and the request-side matcher. Models
  src/router/router.ts, src/router/match.ts and src/router/chains.ts. Route targets are mutable
  objects shared between the static map, the trie, the fast matchers and the table; they live in
  the store \<open>rs_targets\<close> and are referred to by index. \<open>resetIndex\<close> drops every reference, so the
  store starts afresh there.
\<close>

section \<open>Targets and chains\<close>

datatype 'h chain_item = Item "'h mw" | MarkReached

datatype 'h chain = Direct "'h mw" | Composed "'h chain_item list"

record 'h route_target =
  rt_methods :: "(string, 'h chain) js_map"
  rt_layers :: "(string, 'h mw list) js_map"
  rt_allowed :: "string list"
  rt_pattern :: string
  rt_name :: "string option"
  rt_staticMatch :: "route_match option"

definition createTarget :: "'h route_target" where
  "createTarget = \<lparr>rt_methods = [], rt_layers = [], rt_allowed = [], rt_pattern = [],
     rt_name = None, rt_staticMatch = None\<rparr>"

text \<open>\<open>chainOf\<close> of src/router/chains.ts.\<close>

definition route_chainOf :: "'h mw list \<Rightarrow> 'h mw list \<Rightarrow> bool \<Rightarrow> 'h chain" where
  "route_chainOf handlers appMiddleware devTrace =
     (if length appMiddleware = 0 then
        (if length handlers = 1 then Direct (hd handlers) else Composed (map Item handlers))
      else Composed (if devTrace then map Item appMiddleware @ [MarkReached] @ map Item handlers
                     else map Item appMiddleware @ map Item handlers))"

fun staticHeadOf :: "compiled_segment list \<Rightarrow> string" where
  "staticHeadOf [] = []"
| "staticHeadOf (s # ss) = (if kind s \<noteq> Static then [] else CHR ''/'' # seg_value s @ staticHeadOf ss)"

section \<open>State\<close>

record 'h route_def =
  rd_method :: string
  rd_path :: string
  rd_handlers :: "'h mw list"
  rd_name :: "string option"
  rd_prefixMiddleware :: "'h mw list"
  rd_wsKey :: "string option"

record bucket =
  bk_fast :: "fast_matcher option"
  bk_count :: nat

record fast_index =
  fx_mutations :: nat
  fx_matchers :: "fast_matcher list"
  fx_table :: "table_regex option"

record 'h router_state =
  defs :: "'h route_def list"
  named :: "(string, 'h route_def) js_map"
  paramMiddlewares :: "(string, 'h) js_map"
  staticMap :: "(string, nat) js_map"
  buckets :: "(string, bucket) js_map"
  fastIndex :: "fast_index option"
  trieRoot :: trie_node
  hasDynamic :: bool
  rs_prefix :: string
  regexIndex :: "(string, eligible_pattern) js_map"
  impureFirst :: "string list"
  mutations :: nat
  sunkPaths :: "string list"
  devTrace :: bool
  rs_targets :: "'h route_target list"

definition set_add :: "'a \<Rightarrow> 'a list \<Rightarrow> 'a list" where
  "set_add x xs = (if x \<in> set xs then xs else xs @ [x])"

definition normalizePrefix :: "string \<Rightarrow> string" where
  "normalizePrefix p =
     (if length p = 0 \<or> p = ''/'' then [] else if ends_with ''/'' p then butlast p else p)"

definition createRouterState :: "string \<Rightarrow> 'h router_state" where
  "createRouterState p = \<lparr>defs = [], named = [], paramMiddlewares = [], staticMap = [], buckets = [],
     fastIndex = None, trieRoot = createNode, hasDynamic = False, rs_prefix = normalizePrefix p,
     regexIndex = [], impureFirst = [], mutations = 0, sunkPaths = [], devTrace = False, rs_targets = []\<rparr>"

definition KNOWN_METHODS :: "string list" where
  "KNOWN_METHODS = [''HEAD'', ''OPTIONS'', ''GET'', ''PUT'', ''PATCH'', ''POST'', ''DELETE'', ''TRACE'', ''CONNECT'']"

section \<open>Static keys\<close>

definition esc_key :: "string \<Rightarrow> string" where
  "esc_key s = concat (map (\<lambda>c. if c = CHR ''%'' then ''%25'' else if c = CHR ''/'' then ''%2F'' else [c]) s)"

definition canonicalKey :: "string \<Rightarrow> string" where
  "canonicalKey path = js_join ''/'' (map (\<lambda>segment. esc_key (decodeSegment segment)) (js_split CHR ''/'' path))"

section \<open>Indexing\<close>

definition new_static :: "nat \<Rightarrow> 'h route_target" where
  "new_static t = createTarget\<lparr>rt_staticMatch := Some \<lparr>rm_target = t, rm_names = [], rm_values = [], rm_offset = 0\<rparr>\<rparr>"

definition add_bucket :: "pattern_ir \<Rightarrow> nat \<Rightarrow> (string, bucket) js_map \<Rightarrow> (string, bucket) js_map" where
  "add_bucket ir target bs =
     (let first = hd (segments ir);
          bucket = (case jm_get bs (seg_value first) of Some b \<Rightarrow> b | None \<Rightarrow> \<lparr>bk_fast = None, bk_count = 0\<rparr>);
          count = bk_count bucket + 1
      in jm_set (seg_value first)
           \<lparr>bk_fast = (if count = 1 \<and> isSimple ir \<and> fastComparable (segments ir)
                       then Some \<lparr>fm_prefix = staticHeadOf (segments ir),
                              fm_names = paramNamesOf (segments ir), fm_target = target\<rparr> else None),
            bk_count = count\<rparr> bs)"

definition indexPattern :: "'h router_state \<Rightarrow> pattern_ir \<Rightarrow> string \<Rightarrow> 'h router_state \<times> nat list res" where
  "indexPattern state ir fullPath =
     (if isStatic ir then
        (let key = (if CHR ''%'' \<in> set fullPath then canonicalKey fullPath else fullPath) in
         case jm_get (staticMap state) key of
           Some target \<Rightarrow> (state, ok [target])
         | None \<Rightarrow>
             (let t = length (rs_targets state) in
              (state\<lparr>staticMap := jm_set key t (staticMap state),
                     rs_targets := rs_targets state @ [new_static t]\<rparr>, ok [t])))
      else
        (case registerTrie (length (rs_targets state)) (trieRoot state) (segments ir) of
           (_, root, Inl e) \<Rightarrow> (state\<lparr>trieRoot := root\<rparr>, throw e)
         | (next, root, Inr targets) \<Rightarrow>
             (let st = state\<lparr>trieRoot := root, hasDynamic := True,
                    rs_targets := rs_targets state @ replicate (next - length (rs_targets state)) createTarget\<rparr> in
              if kind (hd (segments ir)) \<noteq> Static then (st, ok targets)
              else (st\<lparr>buckets := add_bucket ir (hd targets) (buckets st)\<rparr>, ok targets))))"

definition paramChainFor :: "'h router_state \<Rightarrow> compiled_segment list \<Rightarrow> 'h list" where
  "paramChainFor state segs =
     foldl (\<lambda>chain name. case jm_get (paramMiddlewares state) name of
              Some m \<Rightarrow> if m \<in> set chain then chain else chain @ [m] | None \<Rightarrow> chain) [] (paramNamesOf segs)"

definition bind_target ::
  "'h route_def \<Rightarrow> 'h mw list \<Rightarrow> 'h mw list \<Rightarrow> bool \<Rightarrow> 'h route_target \<Rightarrow> 'h route_target" where
  "bind_target def handlers appMiddleware trace target =
     (let layers = (case jm_get (rt_layers target) (rd_method def) of
                      None \<Rightarrow> handlers | Some previous \<Rightarrow> previous @ handlers);
          allowed1 = set_add (rd_method def) (rt_allowed target);
          allowed2 = (if rd_method def = ''ALL'' then set_add ''*'' allowed1 else allowed1);
          allowed3 = (if rd_method def = ''GET'' then set_add ''HEAD'' allowed2 else allowed2)
      in target\<lparr>rt_layers := jm_set (rd_method def) layers (rt_layers target),
                rt_methods := jm_set (rd_method def) (route_chainOf layers appMiddleware trace) (rt_methods target),
                rt_allowed := allowed3,
                rt_name := (case rd_name def of Some n \<Rightarrow> Some n | None \<Rightarrow> rt_name target),
                rt_pattern := rd_path def\<rparr>)"

definition bindDef ::
  "(string \<Rightarrow> bool) \<Rightarrow> 'h router_state \<Rightarrow> 'h route_def \<Rightarrow> 'h mw_stack \<Rightarrow> 'h router_state \<times> unit res" where
  "bindDef re_ok state def middleware =
     (case compilePattern re_ok (rd_path def) of
        Inl e \<Rightarrow> (state, throw e)
      | Inr ir \<Rightarrow>
          (case indexPattern state ir (rd_path def) of
             (st, Inl e) \<Rightarrow> (st, throw e)
           | (st, Inr targets) \<Rightarrow>
               (let st1 = st\<lparr>mutations := mutations st + 1\<rparr>;
                    st2 = (if isRegexEligible (segments ir) \<and> fastComparable (segments ir)
                           then st1\<lparr>regexIndex := jm_set (rd_path def)
                                  \<lparr>ep_segments = segments ir, ep_target = hd targets\<rparr> (regexIndex st1)\<rparr>
                           else if \<not> isStatic ir \<and> kind (hd (segments ir)) = Static
                           then st1\<lparr>impureFirst := set_add (seg_value (hd (segments ir))) (impureFirst st1)\<rparr>
                           else st1)
                in case middlewareForRoute re_ok middleware (rd_path def) 0 of
                     Inl e \<Rightarrow> (st2, throw e)
                   | Inr appMiddleware \<Rightarrow>
                       (let handlers = rd_prefixMiddleware def @ map Plain (paramChainFor st2 (segments ir))
                                       @ rd_handlers def in
                        (st2\<lparr>rs_targets := foldl (\<lambda>ts t.
                             ts[t := bind_target def handlers appMiddleware (devTrace st2) (ts ! t)])
                             (rs_targets st2) targets\<rparr>, ok ())))))"

definition resetIndex :: "'h router_state \<Rightarrow> 'h router_state" where
  "resetIndex state = state\<lparr>staticMap := [], buckets := [], fastIndex := None, trieRoot := createNode,
     hasDynamic := False, regexIndex := [], impureFirst := [], mutations := mutations state + 1, rs_targets := []\<rparr>"

fun bind_all ::
  "(string \<Rightarrow> bool) \<Rightarrow> 'h mw_stack \<Rightarrow> 'h router_state \<Rightarrow> 'h route_def list \<Rightarrow> 'h router_state \<times> unit res" where
  "bind_all re_ok middleware state [] = (state, ok ())"
| "bind_all re_ok middleware state (def # ds) =
     (case bindDef re_ok state def middleware of
        (st, Inl e) \<Rightarrow> (st, throw e) | (st, Inr _) \<Rightarrow> bind_all re_ok middleware st ds)"

definition rebuildChains :: "(string \<Rightarrow> bool) \<Rightarrow> 'h router_state \<Rightarrow> 'h mw_stack \<Rightarrow> 'h router_state \<times> unit res" where
  "rebuildChains re_ok state middleware = bind_all re_ok middleware (resetIndex state) (defs state)"

section \<open>Overlap with natively sunk paths\<close>

definition canonicalSegments :: "string \<Rightarrow> string list" where
  "canonicalSegments path =
     (let base = (if ends_with ''/*'' path then take (length path - 2) path else path);
          parts = tl (concat (map (\<lambda>segment. js_split CHR ''/'' (decodeSegment segment)) (js_split CHR ''/'' base)))
      in if length parts = 1 \<and> hd parts = [] then [] else parts)"

definition pathsConflict :: "string \<Rightarrow> string \<Rightarrow> bool" where
  "pathsConflict a b =
     (let aSegs = canonicalSegments a; bSegs = canonicalSegments b;
          aWild = ends_with ''/*'' a; bWild = ends_with ''/*'' b in
      if length aSegs = length bSegs \<and> startsWithSegments aSegs bSegs then True
      else if aWild \<and> length bSegs > length aSegs \<and> startsWithSegments aSegs bSegs then True
      else if bWild \<and> length aSegs > length bSegs \<and> startsWithSegments bSegs aSegs then True
      else False)"

section \<open>registerDef\<close>

definition make_def ::
  "'h router_state \<Rightarrow> string \<Rightarrow> string \<Rightarrow> 'h mw list \<Rightarrow> string option \<Rightarrow> 'h mw list \<Rightarrow> 'h route_def" where
  "make_def state upper path handlers name prefixMiddleware =
     (let joined = rs_prefix state @ normalizePrefix path in
      \<lparr>rd_method = upper, rd_path = normalizePath (if length joined = 0 then ''/'' else joined),
       rd_handlers = handlers, rd_name = name, rd_prefixMiddleware = prefixMiddleware, rd_wsKey = None\<rparr>)"

definition registerDef ::
  "(string \<Rightarrow> bool) \<Rightarrow> 'h router_state \<Rightarrow> string \<Rightarrow> string \<Rightarrow> 'h mw list \<Rightarrow> string option \<Rightarrow> 'h mw_stack
     \<Rightarrow> 'h mw list \<Rightarrow> 'h router_state \<times> 'h route_def res" where
  "registerDef re_ok state method path handlers name middleware prefixMiddleware =
     (let upper = to_upper method in
      if upper \<notin> set KNOWN_METHODS \<and> upper \<noteq> ''ALL'' then (state, throw (TypeError ''Unknown HTTP method''))
      else if length handlers = 0
      then (state, throw (TypeError ''Route registration requires at least one handler''))
      else (let def = make_def state upper path handlers name prefixMiddleware in
        if \<exists>sunk \<in> set (sunkPaths state). pathsConflict (rd_path def) sunk \<or> patternsOverlap re_ok (rd_path def) sunk
        then (state, throw (TypeError ''route overlaps a natively-sunk path''))
        else (let st1 = state\<lparr>defs := defs state @ [def],
                     named := (case name of Some n \<Rightarrow> jm_set n def (named state) | None \<Rightarrow> named state)\<rparr> in
          case bindDef re_ok st1 def middleware of
            (st2, Inr _) \<Rightarrow> (st2, ok def)
          | (st2, Inl err) \<Rightarrow>
              (let st3 = st2\<lparr>defs := butlast (defs st2),
                     named := (case name of None \<Rightarrow> named st2
                       | Some n \<Rightarrow> (case jm_get (named state) n of
                           None \<Rightarrow> jm_delete n (named st2) | Some previous \<Rightarrow> jm_set n previous (named st2)))\<rparr> in
               case rebuildChains re_ok st3 middleware of
                 (st4, Inl err2) \<Rightarrow> (st4, throw err2)
               | (st4, Inr _) \<Rightarrow> (st4, throw err)))))"

section \<open>The request-side matcher\<close>

definition FAST_MATCHER_CAP :: nat where "FAST_MATCHER_CAP = 8"

definition bucket_matchers :: "'h router_state \<Rightarrow> fast_matcher list" where
  "bucket_matchers state =
     (if length (buckets state) \<le> FAST_MATCHER_CAP
      then List.map_filter (\<lambda>(_, b). bk_fast b) (buckets state) else [])"

definition compute_index :: "'h router_state \<Rightarrow> fast_index" where
  "compute_index state = \<lparr>fx_mutations = mutations state, fx_matchers = bucket_matchers state,
     fx_table = compileTableRegex (regexIndex state) (impureFirst state)\<rparr>"

definition fastIndexOf :: "'h router_state \<Rightarrow> 'h router_state \<times> fast_index" where
  "fastIndexOf state =
     (case fastIndex state of
        Some cached \<Rightarrow>
          if fx_mutations cached = mutations state then (state, cached)
          else (state\<lparr>fastIndex := Some (compute_index state)\<rparr>, compute_index state)
      | None \<Rightarrow> (state\<lparr>fastIndex := Some (compute_index state)\<rparr>, compute_index state))"

definition static_candidate :: "'h router_state \<Rightarrow> string \<Rightarrow> nat option" where
  "static_candidate state path =
     (let stripped = (if 1 < length path \<and> ends_with ''/'' path then butlast path else path);
          t1 = (if stripped \<noteq> path then jm_get (staticMap state) stripped else None) in
      if t1 = None \<and> CHR ''%'' \<in> set path
      then (case jm_get (staticMap state) (canonicalKey path) of
              Some t \<Rightarrow> Some t
            | None \<Rightarrow> if stripped \<noteq> path then jm_get (staticMap state) (canonicalKey stripped) else None)
      else t1)"

definition fast_layers :: "fast_index \<Rightarrow> string \<Rightarrow> route_match option" where
  "fast_layers fast path =
     (case first_some (\<lambda>m. fastMatch (Some m) path) (fx_matchers fast) of
        Some matched \<Rightarrow> Some matched
      | None \<Rightarrow> (case fx_table fast of None \<Rightarrow> None | Some table \<Rightarrow> matchTableRegex table path))"

definition static_match :: "'h router_state \<Rightarrow> nat \<Rightarrow> route_match option" where
  "static_match state t = rt_staticMatch (rs_targets state ! t)"

definition trie_match_of :: "(string \<Rightarrow> string \<Rightarrow> bool) \<Rightarrow> 'h router_state \<Rightarrow> string \<Rightarrow> route_match option" where
  "trie_match_of rx state path = map_option of_trie_match (matchPattern rx (trieRoot state) path)"

definition matchDynamic ::
  "(string \<Rightarrow> string \<Rightarrow> bool) \<Rightarrow> 'h router_state \<Rightarrow> string \<Rightarrow> 'h router_state \<times> route_match option" where
  "matchDynamic rx state path =
     (case static_candidate state path of
        Some target \<Rightarrow> (state, static_match state target)
      | None \<Rightarrow>
          if \<not> hasDynamic state then (state, None)
          else if CHR ''%'' \<in> set path then (state, trie_match_of rx state path)
          else (let (st, fast) = fastIndexOf state in
            case fast_layers fast path of
              Some matched \<Rightarrow> (st, Some matched)
            | None \<Rightarrow> (st, trie_match_of rx st path)))"

definition matchRoute ::
  "(string \<Rightarrow> string \<Rightarrow> bool) \<Rightarrow> 'h router_state \<Rightarrow> string \<Rightarrow> 'h router_state \<times> route_match option" where
  "matchRoute rx state path =
     (case jm_get (staticMap state) path of
        None \<Rightarrow> matchDynamic rx state path
      | Some target \<Rightarrow> (state, static_match state target))"

end
