(* ===== verification/UrlBuild.thy ===== *)
theory UrlBuild
  imports Router
begin

text \<open>
  URLs of named routes and destinations of redirects, src/router/url.ts. The parameters of a URL are a
  partial function from names to values: a lookup in the given record, or \<open>c.params\<close>.
\<close>

section \<open>Building a URL\<close>

type_synonym url_params = "string \<Rightarrow> string option"

definition encodePathValue :: "string \<Rightarrow> string" where
  "encodePathValue v = js_join ''/'' (map encodeURIComponent (js_split CHR ''/'' v))"

text \<open>A value a segment can carry: an empty one only fits a wildcard.\<close>

definition usable :: "url_params \<Rightarrow> compiled_segment \<Rightarrow> string option" where
  "usable ps s = (case ps (seg_value s) of None \<Rightarrow> None
     | Some v \<Rightarrow> if kind s = Param \<and> v = [] then None else Some v)"

definition MISSING :: js_error where "MISSING = PlainError ''Missing required parameter for url()''"

fun url_parts :: "compiled_segment list \<Rightarrow> url_params \<Rightarrow> string list res" where
  "url_parts [] ps = ok []"
| "url_parts (s # ss) ps =
     (if kind s = Static then map_sum id (Cons (encodeURIComponent (seg_value s))) (url_parts ss ps)
      else (case usable ps s of
          None \<Rightarrow> if seg_optional s then url_parts ss ps else throw MISSING
        | Some v \<Rightarrow> map_sum id (Cons (if kind s = Wildcard then encodePathValue v else encodeURIComponent v)) (url_parts ss ps)))"

definition buildURL :: "compiled_segment list \<Rightarrow> url_params \<Rightarrow> string res" where
  "buildURL segs ps =
     res_bind (url_parts segs ps) (\<lambda>parts.
       if length parts = 0 then ok ''/''
       else (let joined = js_join ''/'' parts in ok (if starts_with ''/'' joined then joined else CHR ''/'' # joined)))"

definition urlFor :: "(string \<Rightarrow> bool) \<Rightarrow> 'h router_state \<Rightarrow> string \<Rightarrow> url_params \<Rightarrow> string res" where
  "urlFor re_ok state name ps =
     (case jm_get (named state) name of
        None \<Rightarrow> throw (PlainError ''No route registered under name'')
      | Some def \<Rightarrow> res_bind (compilePattern re_ok (rd_path def)) (\<lambda>ir. buildURL (segments ir) ps))"

definition routePathOf :: "'h router_state \<Rightarrow> string \<Rightarrow> string option" where
  "routePathOf state name = map_option rd_path (jm_get (named state) name)"

section \<open>Redirect destinations\<close>

text \<open>The scan for the end of the path: \<open>depth\<close> counts the parentheses of a custom pattern.\<close>

definition in_param :: "string \<Rightarrow> nat \<Rightarrow> bool" where
  "in_param dest i = (case last_index_of CHR ''/'' (take (i + 1) dest) of
     None \<Rightarrow> starts_with '':'' dest | Some k \<Rightarrow> starts_with '':'' (drop (k + 1) dest))"

fun redirect_cut :: "string \<Rightarrow> nat \<Rightarrow> nat \<Rightarrow> string \<Rightarrow> nat option" where
  "redirect_cut dest i depth [] = None"
| "redirect_cut dest i depth (ch # rest) =
     (let param = in_param dest i;
          d = (if param then (if ch = CHR ''('' then depth + 1 else if ch = CHR '')'' then depth - 1 else depth) else depth)
      in if d \<noteq> 0 then redirect_cut dest (i + 1) d rest
         else if ch = CHR ''#'' then Some i
         else if ch \<noteq> CHR ''?'' then redirect_cut dest (i + 1) d rest
         else if param \<and> (rest = [] \<or> hd rest \<in> {CHR ''/'', CHR ''?'', CHR ''#''}) then redirect_cut dest (i + 1) d rest
         else Some i)"

definition redirectTargetSegments :: "(string \<Rightarrow> bool) \<Rightarrow> string \<Rightarrow> (compiled_segment list \<times> string) option res" where
  "redirectTargetSegments re_ok destination =
     (if \<not> starts_with ''/'' destination \<or> starts_with ''//'' destination then ok None
      else (let cut = redirect_cut destination 0 0 destination;
                pathPart = (case cut of None \<Rightarrow> destination | Some i \<Rightarrow> take i destination);
                suffix = (case cut of None \<Rightarrow> [] | Some i \<Rightarrow> drop i destination) in
            if \<not> (\<exists>segment \<in> set (js_split CHR ''/'' pathPart). starts_with '':'' segment) then ok None
            else res_bind (compilePattern re_ok pathPart) (\<lambda>ir. ok (Some (segments ir, suffix)))))"

definition assertRedirectCaptures :: "(string \<Rightarrow> bool) \<Rightarrow> string \<Rightarrow> compiled_segment list \<Rightarrow> unit res" where
  "assertRedirectCaptures re_ok source dest =
     res_bind (compilePattern re_ok source) (\<lambda>ir.
       let available = map seg_value (filter (\<lambda>s. kind s \<noteq> Static \<and> \<not> seg_optional s) (segments ir)) in
       if \<exists>s \<in> set dest. \<not> (kind s = Static \<or> seg_optional s) \<and> seg_value s \<notin> set available
       then throw (TypeError ''redirect destination references a parameter the source never captures'') else ok ())"

section \<open>A built URL addresses its route\<close>

text \<open>Arguments that survive the trip: strings with a UTF-8 form that the custom patterns accept, and a
  wildcard value with no empty ends.\<close>

definition arg_ok :: "(string \<Rightarrow> string \<Rightarrow> bool) \<Rightarrow> url_params \<Rightarrow> compiled_segment \<Rightarrow> bool" where
  "arg_ok rx ps s =
     (case kind s of
        Static \<Rightarrow> valid_utf8 (seg_value s)
      | Param \<Rightarrow> (\<forall>v. usable ps s = Some v \<longrightarrow> valid_utf8 v \<and> (\<forall>src. seg_pattern s = Some src \<longrightarrow> rx src v))
      | Wildcard \<Rightarrow> (\<forall>v. usable ps s = Some v \<longrightarrow>
          v \<noteq> [] \<and> \<not> starts_with ''/'' v \<and> \<not> ends_with ''/'' v \<and> list_all valid_utf8 (js_split CHR ''/'' v)))"

fun url_flat :: "compiled_segment list \<Rightarrow> url_params \<Rightarrow> string list" where
  "url_flat [] ps = []"
| "url_flat (s # ss) ps =
     (if kind s = Static then encodeURIComponent (seg_value s) # url_flat ss ps
      else (case usable ps s of None \<Rightarrow> url_flat ss ps
        | Some v \<Rightarrow> (if kind s = Wildcard then map encodeURIComponent (js_split CHR ''/'' v) else [encodeURIComponent v]) @ url_flat ss ps))"

definition url_caps :: "compiled_segment list \<Rightarrow> url_params \<Rightarrow> (string \<times> string) list" where
  "url_caps segs ps = List.map_filter (\<lambda>s. if kind s = Static then None else map_option (Pair (seg_value s)) (usable ps s)) segs"

lemma url_caps_simps [simp]: "url_caps [] ps = []"
  "url_caps (s # ss) ps = (case (if kind s = Static then None else usable ps s) of
     None \<Rightarrow> url_caps ss ps | Some v \<Rightarrow> (seg_value s, v) # url_caps ss ps)"
  by (simp_all add: url_caps_def map_filter_simps split: option.split)

lemma url_parts_ok: "url_parts (s # ss) ps = Inr parts \<Longrightarrow> \<exists>parts'. url_parts ss ps = Inr parts'"
  by (cases "url_parts ss ps") (auto split: if_splits option.splits)

lemma url_parts_flat:
  "wf_segments segs \<Longrightarrow> url_parts segs ps = Inr parts \<Longrightarrow>
    (parts = [] \<longleftrightarrow> url_flat segs ps = []) \<and> js_join ''/'' parts = js_join ''/'' (url_flat segs ps)"
proof (induction segs arbitrary: parts)
  case (Cons s ss)
  obtain rest where rest: "url_parts ss ps = Inr rest" using url_parts_ok [OF Cons.prems(2)] by blast
  have wf: "wf_segments ss" "kind s = Wildcard \<Longrightarrow> ss = []" using Cons.prems(1) by (simp_all add: wf_segments_Cons)
  have IH: "(rest = [] \<longleftrightarrow> url_flat ss ps = []) \<and> js_join ''/'' rest = js_join ''/'' (url_flat ss ps)"
    by (rule Cons.IH [OF wf(1) rest])
  have join: "js_join ''/'' (p # rest) = js_join ''/'' (p # url_flat ss ps)" for p
    using IH by (cases "rest = []") (simp_all add: js_join_Cons)
  show ?case
  proof (cases "kind s = Wildcard")
    case True
    with wf(2) Cons.prems(2) rest show ?thesis
      by (auto simp: encodePathValue_def split: option.splits if_splits)
  next
    case False
    with Cons.prems(2) rest IH join show ?thesis
      by (auto split: option.splits if_splits)
  qed
qed simp

lemma flat_matches:
  "wf_segments segs \<Longrightarrow> url_parts segs ps = Inr parts \<Longrightarrow> \<forall>s \<in> set segs. arg_ok rx ps s \<Longrightarrow>
    \<exists>w \<in> set (expand segs). word_matches rx slash w (url_flat segs ps) \<and> word_caps w (url_flat segs ps) = url_caps segs ps"
proof (induction segs arbitrary: parts)
  case (Cons s ss)
  obtain rest where rest: "url_parts ss ps = Inr rest" using url_parts_ok [OF Cons.prems(2)] by blast
  have wf: "wf_segments ss" "kind s = Wildcard \<Longrightarrow> ss = []" "wf_segment s" using Cons.prems(1) by (simp_all add: wf_segments_Cons)
  have arg: "arg_ok rx ps s" using Cons.prems(3) by simp
  have "\<forall>s \<in> set ss. arg_ok rx ps s" using Cons.prems(3) by simp
  from Cons.IH [OF wf(1) rest this] obtain w where w: "w \<in> set (expand ss)" "word_matches rx slash w (url_flat ss ps)"
    "word_caps w (url_flat ss ps) = url_caps ss ps" by blast
  show ?case
  proof (cases "kind s")
    case Static
    with arg w show ?thesis
      by (intro bexI [of _ "SStatic (seg_value s) # w"]) (simp_all add: arg_ok_def decodeSegment_encode)
  next
    case Param
    show ?thesis
    proof (cases "usable ps s")
      case None
      then have "seg_optional s" using Cons.prems(2) Param by (auto split: if_splits)
      with None Param w show ?thesis by (intro bexI [of _ w]) simp_all
    next
      case (Some v)
      then have v: "v \<noteq> []" using Param by (auto simp: usable_def split: option.splits if_splits)
      have u: "valid_utf8 v" "\<forall>src. seg_pattern s = Some src \<longrightarrow> rx src v" using arg Param Some by (simp_all add: arg_ok_def)
      have "encodeURIComponent v \<noteq> []" using v codec.enc_empty by blast
      with u have "consumes rx (seg_pattern s) (encodeURIComponent v)"
        by (simp add: consumes_def decodeSegment_encode split: option.split)
      with Some Param w u(1) show ?thesis
        by (intro bexI [of _ "SParam (seg_value s) (seg_pattern s) # w"]) (simp_all add: decodeSegment_encode)
    qed
  next
    case Wildcard
    then obtain v where v: "usable ps s = Some v" using Cons.prems(2) wf(3) by (auto simp: wf_segment_def split: option.splits if_splits)
    have ss: "ss = []" using wf(2) Wildcard by blast
    have ok: "v \<noteq> []" "list_all valid_utf8 (js_split CHR ''/'' v)" using arg Wildcard v by (simp_all add: arg_ok_def)
    have "map decodeSegment (map encodeURIComponent (js_split CHR ''/'' v)) = js_split CHR ''/'' v"
      using ok(2) by (simp add: list_all_iff map_idI decodeSegment_encode)
    then have dec: "js_join ''/'' (map decodeSegment (map encodeURIComponent (js_split CHR ''/'' v))) = v"
      by (simp only: js_join_split)
    obtain p q where pq: "map encodeURIComponent (js_split CHR ''/'' v) = p # q"
      by (cases "js_split CHR ''/'' v") simp_all
    have "seg_value s = ''wildcard''" using wf(3) Wildcard by (simp add: wf_segment_def)
    with Wildcard v ss pq dec ok(1) show ?thesis by (simp add: Let_def)
  qed
qed simp

lemma join_last:
  "fs \<noteq> [] \<Longrightarrow> last fs \<noteq> [] \<Longrightarrow> js_join d fs \<noteq> [] \<and> last (js_join d fs) = last (last fs)"
proof (induction fs)
  case (Cons p fs)
  then show ?case by (cases "fs = []") (auto simp: js_join_Cons)
qed simp

lemma join_starts: "fs \<noteq> [] \<Longrightarrow> hd fs \<noteq> [] \<Longrightarrow> c \<notin> set (hd fs) \<Longrightarrow> \<not> prefix [c] (js_join d fs)"
  by (cases fs; cases "hd fs"; cases "tl fs") auto

text \<open>Joining parts and splitting the URL again.\<close>

lemma split_built:
  assumes "fs \<noteq> []" and "\<forall>f \<in> set fs. CHR ''/'' \<notin> set f" and "hd fs \<noteq> []" and "last fs \<noteq> []"
  shows "splitSegments (CHR ''/'' # js_join ''/'' fs) = fs"
proof -
  let ?u = "CHR ''/'' # js_join ''/'' fs"
  have l: "js_join ''/'' fs \<noteq> []" "last (js_join ''/'' fs) = last (last fs)" using join_last [OF assms(1,4)] by blast+
  have "last fs \<in> set fs" using assms(1) by simp
  then have "last (last fs) \<noteq> CHR ''/''" using assms(2,4) by (metis last_in_set)
  then have "last ?u \<noteq> CHR ''/''" using l by simp
  then have "\<not> suffix ''/'' ?u" unfolding suffix_def by (metis last_snoc)
  then have "normalizePath ?u = ?u" by (simp add: normalizePath_def)
  moreover have "js_split CHR ''/'' ?u = [] # fs" using js_split_join [OF assms(1,2)] by simp
  ultimately show ?thesis using assms(1,3) by (cases fs) (auto simp: splitSegments_def path_parts_def)
qed

lemma join_snoc_empty: "xs \<noteq> [] \<Longrightarrow> js_join d (xs @ [[]]) = js_join d xs @ d"
proof (induction xs)
  case (Cons x xs)
  then show ?case by (cases "xs = []") (simp_all add: js_join_Cons)
qed simp

lemma flat_parts:
  assumes "wf_segments segs" and "\<forall>s \<in> set segs. arg_ok rx ps s"
  shows "(\<forall>f \<in> set (url_flat segs ps). CHR ''/'' \<notin> set f) \<and>
    (url_flat segs ps \<noteq> [] \<longrightarrow> hd (url_flat segs ps) \<noteq> [] \<and> last (url_flat segs ps) \<noteq> [])"
  using assms
proof (induction segs)
  case (Cons s ss)
  have wf: "wf_segments ss" "kind s = Wildcard \<Longrightarrow> ss = []" "seg_value s \<noteq> []"
    using Cons.prems(1) by (simp_all add: wf_segments_Cons wf_segment_def)
  note IH = Cons.IH [OF wf(1)]
  have enc: "encodeURIComponent v = [] \<longleftrightarrow> v = []" for v by (rule codec.enc_empty)
  show ?case
  proof (cases "usable ps s = None \<or> kind s \<noteq> Wildcard")
    case True
    have "usable ps s = Some [] \<Longrightarrow> kind s = Wildcard \<or> kind s = Static"
      by (cases "kind s") (auto simp: usable_def split: option.splits if_splits)
    with True IH Cons.prems(2) wf(3) show ?thesis
      by (auto simp: encode_no_slash enc split: option.splits)
  next
    case False
    then obtain v where v: "usable ps s = Some v" "kind s = Wildcard" by auto
    then have ok: "v \<noteq> []" "\<not> prefix ''/'' v" "\<not> suffix ''/'' v" using Cons.prems(2) by (auto simp: arg_ok_def)
    let ?vs = "js_split CHR ''/'' v"
    have join: "js_join ''/'' ?vs = v" by (rule js_join_split)
    have "hd ?vs \<noteq> []"
    proof
      assume "hd ?vs = []"
      with join ok(1,2) show False by (cases ?vs; cases "tl ?vs") auto
    qed
    moreover have "last ?vs \<noteq> []"
    proof
      assume l: "last ?vs = []"
      have ne: "butlast ?vs \<noteq> []"
      proof
        assume "butlast ?vs = []"
        then have "?vs = [[]]" using l by (cases ?vs) (auto split: if_splits)
        with join ok(1) show False by simp
      qed
      have "js_join ''/'' ?vs = js_join ''/'' (butlast ?vs) @ ''/''"
        using join_snoc_empty [OF ne] l by (metis append_butlast_last_id js_split_not_Nil)
      with join ok(3) show False by (metis suffixI)
    qed
    moreover have "?vs \<noteq> []" by simp
    ultimately show ?thesis using v wf(2)
      by (auto simp: encode_no_slash enc hd_map last_map)
  qed
qed simp


definition demo_segs :: "compiled_segment list" where
  "demo_segs = segments (projr (compilePattern (\<lambda>_. True) ''/a%2Fb/:id/:tag?/*''))"


end
