(* ===== verification/Group.thy ===== *)
theory Group
  imports UrlBuild
begin

text \<open>
  Standalone route groups, src/router/group.ts, and the redirect handler they share with the application
  (src/core/registration.ts). The arguments of the registration verbs are values of any kind: a string, a
  function, undefined, something else. The closure \<open>redirect\<close> creates is a value of the handler type made
  from its captured variables by the parameter \<open>redirect_h\<close>; what it computes is \<open>redirect_target\<close>.
\<close>

section \<open>Arguments\<close>

datatype 'h route_arg = AStr string | AFn "'h mw" | AUndef | AOther

definition is_fn :: "'h route_arg \<Rightarrow> bool" where
  "is_fn a = (case a of AFn _ \<Rightarrow> True | _ \<Rightarrow> False)"

fun fn_args :: "'h route_arg list \<Rightarrow> 'h mw list option" where
  "fn_args [] = Some []"
| "fn_args (a # as) = (case a of AFn h \<Rightarrow> map_option (Cons h) (fn_args as) | _ \<Rightarrow> None)"

section \<open>Redirects\<close>

record redirect_spec =
  re_dest :: "(compiled_segment list \<times> string) option"
  re_destination :: string
  re_code :: int

definition redirect_target :: "redirect_spec \<Rightarrow> url_params \<Rightarrow> string res" where
  "redirect_target spec ps =
     (case re_dest spec of None \<Rightarrow> ok (re_destination spec)
      | Some (segs, sfx) \<Rightarrow> res_bind (buildURL segs ps) (\<lambda>url. ok (url @ sfx)))"

definition BAD_CODE :: js_error where "BAD_CODE = TypeError ''redirect() code must be a 3xx integer''"

text \<open>The eager checks of a redirect; \<open>code\<close> defaults to 301.\<close>

definition check_redirect :: "(string \<Rightarrow> bool) \<Rightarrow> string \<Rightarrow> string \<Rightarrow> js_value \<Rightarrow> redirect_spec res" where
  "check_redirect re_ok source destination code =
     (case (case code of Absent \<Rightarrow> Some 301 | JInt n \<Rightarrow> if n < 300 \<or> n > 399 then None else Some n | _ \<Rightarrow> None) of
        None \<Rightarrow> throw BAD_CODE
      | Some n \<Rightarrow>
          res_bind (redirectTargetSegments re_ok destination) (\<lambda>dest.
            res_bind (case dest of None \<Rightarrow> ok () | Some (segs, sfx) \<Rightarrow> assertRedirectCaptures re_ok source segs) (\<lambda>_.
              ok \<lparr>re_dest = dest, re_destination = destination, re_code = n\<rparr>)))"

section \<open>The group\<close>

record 'h group =
  g_defs :: "'h route_def list"
  g_middleware :: "'h mw list"
  g_params :: "(string, 'h) js_map"
  g_named :: "(string, 'h route_def) js_map"
  g_prefix :: string

definition newGroup :: "string option \<Rightarrow> 'h group res" where
  "newGroup pre =
     (let raw = (case pre of None \<Rightarrow> [] | Some p \<Rightarrow> p) in
      if 0 < length raw \<and> hd raw \<noteq> CHR ''/'' then throw (TypeError ''Router prefix must start with /'')
      else ok \<lparr>g_defs = [], g_middleware = [], g_params = [], g_named = [], g_prefix = normalizePrefix raw\<rparr>)"

definition group_def :: "'h group \<Rightarrow> string \<Rightarrow> string \<Rightarrow> 'h mw list \<Rightarrow> string option \<Rightarrow> 'h route_def" where
  "group_def g method path handlers name =
     (let full = (if g_prefix g @ path = [] then ''/'' else g_prefix g @ path) in
      \<lparr>rd_method = to_upper method, rd_path = normalizePath full, rd_handlers = handlers, rd_name = name,
       rd_prefixMiddleware = [], rd_wsKey = None\<rparr>)"

definition group_add :: "'h group \<Rightarrow> string \<Rightarrow> string \<Rightarrow> 'h route_arg list \<Rightarrow> string option \<Rightarrow> 'h group res" where
  "group_add g method path handlers name =
     (if length handlers = 0 then throw (TypeError ''Route registration requires at least one handler'')
      else case fn_args handlers of
        None \<Rightarrow> throw (TypeError ''Route handlers must be functions'')
      | Some hs \<Rightarrow>
          (if 0 < length path \<and> hd path \<noteq> CHR ''/'' then throw (TypeError ''Route path must start with /'')
           else (let def = group_def g method path hs name in
             ok (g\<lparr>g_defs := g_defs g @ [def],
                   g_named := (case name of None \<Rightarrow> g_named g | Some n \<Rightarrow> jm_set n def (g_named g))\<rparr>))))"

definition group_shortcut :: "'h group \<Rightarrow> string \<Rightarrow> string \<Rightarrow> 'h route_arg \<Rightarrow> 'h route_arg list \<Rightarrow> 'h group res" where
  "group_shortcut g method pathOrName pathOrHandler rest =
     (case pathOrHandler of
        AStr path \<Rightarrow> group_add g method path rest (Some pathOrName)
      | AUndef \<Rightarrow> group_add g method pathOrName rest None
      | h \<Rightarrow> group_add g method pathOrName (h # rest) None)"

definition group_on :: "'h group \<Rightarrow> string \<Rightarrow> string \<Rightarrow> 'h route_arg list \<Rightarrow> 'h group res" where
  "group_on g method path handlers = group_add g method path handlers None"

text \<open>\<open>use\<close> pushes one function after the other: those before a bad argument stay.\<close>

fun group_use :: "'h group \<Rightarrow> 'h route_arg list \<Rightarrow> 'h group \<times> unit res" where
  "group_use g [] = (g, ok ())"
| "group_use g (a # as) =
     (case a of AFn h \<Rightarrow> group_use (g\<lparr>g_middleware := g_middleware g @ [h]\<rparr>) as
      | _ \<Rightarrow> (g, throw (TypeError ''router.use() requires middleware functions'')))"

definition group_param :: "'h group \<Rightarrow> 'h route_arg \<Rightarrow> 'h option \<Rightarrow> 'h group res" where
  "group_param g name middleware =
     (case name of
        AStr n \<Rightarrow>
          if length n = 0 then throw (TypeError ''router.param() requires a parameter name'')
          else (case middleware of
              None \<Rightarrow> throw (TypeError ''router.param() requires a middleware function'')
            | Some h \<Rightarrow> ok (g\<lparr>g_params := jm_set n h (g_params g)\<rparr>))
      | _ \<Rightarrow> throw (TypeError ''router.param() requires a parameter name''))"

definition group_redirect ::
  "(string \<Rightarrow> bool) \<Rightarrow> (redirect_spec \<Rightarrow> 'h) \<Rightarrow> 'h group \<Rightarrow> string \<Rightarrow> string \<Rightarrow> js_value \<Rightarrow> 'h group res" where
  "group_redirect re_ok redirect_h g source destination code =
     res_bind (check_redirect re_ok source destination code) (\<lambda>spec.
       group_add g ''GET'' source [AFn (Plain (redirect_h spec))] None)"

definition group_url :: "(string \<Rightarrow> bool) \<Rightarrow> 'h group \<Rightarrow> string \<Rightarrow> url_params \<Rightarrow> string res" where
  "group_url re_ok g name values =
     (case jm_get (g_named g) name of
        None \<Rightarrow> throw (PlainError ''No route registered under name'')
      | Some def \<Rightarrow> res_bind (compilePattern re_ok (rd_path def)) (\<lambda>ir. buildURL (segments ir) values))"

definition group_route :: "'h group \<Rightarrow> string \<Rightarrow> string option" where
  "group_route g name = map_option rd_path (jm_get (g_named g) name)"

section \<open>An accepted redirect never fails\<close>

text \<open>What the source captured, as \<open>c.params\<close> reads it: the last capture of a name.\<close>

definition last_capture :: "(string \<times> string) list \<Rightarrow> url_params" where
  "last_capture caps name = map_of (rev caps) name"

lemma last_capture_Some: "name \<in> fst ` set caps \<Longrightarrow> \<exists>v. last_capture caps name = Some v \<and> (name, v) \<in> set caps"
proof -
  assume "name \<in> fst ` set caps"
  then have "name \<in> fst ` set (rev caps)" by simp
  then obtain v where "map_of (rev caps) name = Some v" by (metis map_of_eq_None_iff not_None_eq)
  then show ?thesis by (auto simp: last_capture_def dest: map_of_SomeD)
qed

text \<open>Captures of a path: every required parameter of the pattern has one, and without a wildcard none is empty.\<close>

lemma word_caps_required:
  "w \<in> set (expand segs) \<Longrightarrow> word_matches rx slash w parts \<Longrightarrow> list_all (\<lambda>s. kind s \<noteq> Wildcard) segs \<Longrightarrow>
    s \<in> set segs \<Longrightarrow> kind s \<noteq> Static \<Longrightarrow> \<not> seg_optional s \<Longrightarrow> seg_value s \<in> fst ` set (word_caps w parts)"
proof (induction segs arbitrary: w parts)
  case (Cons t segs)
  show ?case
  proof (cases "kind t")
    case Static
    with Cons.prems obtain w' p ps where "w = SStatic (seg_value t) # w'" "w' \<in> set (expand segs)" "parts = p # ps"
      "word_matches rx slash w' ps" "s \<in> set segs" by (auto split: list.splits)
    with Cons show ?thesis by simp
  next
    case Param
    then consider (take) w' p ps where "w = SParam (seg_value t) (seg_pattern t) # w'" "w' \<in> set (expand segs)" "parts = p # ps" "word_matches rx slash w' ps"
      | (skip) "seg_optional t" "w \<in> set (expand segs)" using Cons.prems(1,2) by (auto split: if_splits list.splits)
    then show ?thesis
    proof cases
      case take
      show ?thesis
      proof (cases "s = t")
        case False
        then have "s \<in> set segs" using Cons.prems(4) by simp
        with Cons.IH [OF take(2,4)] Cons.prems take(1,3) show ?thesis by simp
      qed (use take in simp)
    next
      case skip
      then have "s \<in> set segs" using Cons.prems(4,6) by auto
      with Cons.IH [OF skip(2) Cons.prems(2)] Cons.prems show ?thesis by simp
    qed
  qed (use Cons.prems(3) in simp)
qed simp

lemma word_caps_nonempty:
  "w \<in> set (expand segs) \<Longrightarrow> word_matches rx slash w parts \<Longrightarrow> list_all (\<lambda>s. kind s \<noteq> Wildcard) segs \<Longrightarrow>
    (n, v) \<in> set (word_caps w parts) \<Longrightarrow> v \<noteq> []"
proof (induction segs arbitrary: w parts)
  case (Cons t segs)
  show ?case
  proof (cases "kind t")
    case Static
    with Cons.prems obtain w' p ps where "w = SStatic (seg_value t) # w'" "w' \<in> set (expand segs)" "parts = p # ps"
      "word_matches rx slash w' ps" by (auto split: list.splits)
    with Cons show ?thesis by simp
  next
    case Param
    then consider (take) w' p ps where "w = SParam (seg_value t) (seg_pattern t) # w'" "w' \<in> set (expand segs)" "parts = p # ps"
        "consumes rx (seg_pattern t) p" "word_matches rx slash w' ps"
      | (skip) "w \<in> set (expand segs)" using Cons.prems(1,2) by (auto split: if_splits list.splits)
    then show ?thesis
    proof cases
      case take
      then have "p \<noteq> []" by (auto simp: consumes_def)
      then have "decodeSegment p \<noteq> []" by simp
      moreover have "v = decodeSegment p \<or> (n, v) \<in> set (word_caps w' ps)" using take(1,3) Cons.prems(4) by auto
      moreover have "list_all (\<lambda>s. kind s \<noteq> Wildcard) segs" using Cons.prems(3) by simp
      ultimately show ?thesis using Cons.IH [OF take(2,5)] by metis
    next
      case skip
      with Cons.IH [OF skip Cons.prems(2)] Cons.prems show ?thesis by simp
    qed
  qed (use Cons.prems(3) in simp)
qed simp

lemma url_parts_succeeds:
  "\<forall>s \<in> set segs. kind s = Static \<or> seg_optional s \<or> usable ps s \<noteq> None \<Longrightarrow> \<exists>parts. url_parts segs ps = Inr parts"
proof (induction segs)
  case (Cons s segs)
  then obtain parts where "url_parts segs ps = Inr parts" by auto
  with Cons.prems show ?case by (auto split: option.split)
qed simp

lemma buildURL_succeeds: "url_parts segs ps = Inr parts \<Longrightarrow> \<exists>url. buildURL segs ps = Inr url"
  by (auto simp: buildURL_def Let_def)

lemma case_option_ok: "(case d of None \<Rightarrow> ok () | Some (a, b) \<Rightarrow> f a b) = Inr u \<longleftrightarrow> (case d of None \<Rightarrow> True | Some (a, b) \<Rightarrow> f a b = Inr ())"
  by (cases d) auto



text \<open>With a wildcard the eager check accepts more than serving can honour: an empty rest is no value for a
  parameter, and the request fails.\<close>

lemma wildcard_redirect_fails:
  "is_ok (check_redirect (\<lambda>_. True) ''/a/*'' ''/b/:wildcard'' Absent)"
  "word_matches (\<lambda>_ _. True) True [SStatic ''a'', SWild ''wildcard''] [''a'']"
  "redirect_target (projr (check_redirect (\<lambda>_. True) ''/a/*'' ''/b/:wildcard'' Absent))
     (last_capture (word_caps [SStatic ''a'', SWild ''wildcard''] [''a''])) = Inl MISSING"
  by code_simp+

end
