(* ===== verification/RouterCorrect.thy ===== *)
theory RouterCorrect
  imports Router
begin

text \<open>
  Correctness of the router of theory Router: the static key is injective on decoded segments,
  registration is transactional and keeps the index equal to a rebuild from the definitions, and
  the memoized fast index is never stale.
\<close>

section \<open>The canonical key\<close>

fun unesc_key :: "string \<Rightarrow> string" where
  "unesc_key (a # b # c # s) =
     (if a = CHR ''%'' then (if [b, c] = ''25'' then CHR ''%'' else CHR ''/'') # unesc_key s
      else a # unesc_key (b # c # s))"
| "unesc_key s = s"

lemma esc_key_simps [simp]:
  "esc_key [] = []"
  "esc_key (c # s) = (if c = CHR ''%'' then ''%25'' else if c = CHR ''/'' then ''%2F'' else [c]) @ esc_key s"
  by (simp_all add: esc_key_def)

lemma unesc_plain: "c \<noteq> CHR ''%'' \<Longrightarrow> unesc_key (c # s) = c # unesc_key s"
  by (cases s; cases "tl s") auto

lemma unesc_esc: "unesc_key (esc_key s) = s"
  by (induction s) (auto simp: unesc_plain)

lemma esc_key_no_slash: "CHR ''/'' \<notin> set (esc_key s)"
  by (induction s) auto

text \<open>Two paths share a static key exactly when their decoded segments are equal.\<close>

lemma canonicalKey_injective:
  "canonicalKey a = canonicalKey b \<longleftrightarrow>
     map decodeSegment (js_split CHR ''/'' a) = map decodeSegment (js_split CHR ''/'' b)"
proof
  let ?f = "\<lambda>p. map (\<lambda>s. esc_key (decodeSegment s)) (js_split CHR ''/'' p)"
  assume eq: "canonicalKey a = canonicalKey b"
  have back_conv: "?f p = js_split CHR ''/'' (canonicalKey p)" for p
    unfolding canonicalKey_def by (rule js_split_join [symmetric]) (auto simp: esc_key_no_slash)
  have "map unesc_key (?f a) = map unesc_key (?f b)" using eq by (simp only: back_conv)
  then show "map decodeSegment (js_split CHR ''/'' a) = map decodeSegment (js_split CHR ''/'' b)"
    by (simp add: unesc_esc comp_def)
next
  assume "map decodeSegment (js_split CHR ''/'' a) = map decodeSegment (js_split CHR ''/'' b)"
  then have "map (esc_key \<circ> decodeSegment) (js_split CHR ''/'' a) = map (esc_key \<circ> decodeSegment) (js_split CHR ''/'' b)"
    by (metis map_map)
  then show "canonicalKey a = canonicalKey b" by (simp add: canonicalKey_def comp_def)
qed

section \<open>Registration\<close>

text \<open>Binding reads and writes the index only: the definition lists, the mutation count and the
  memo are a frame around it.\<close>

definition reframe ::
  "'h route_def list \<Rightarrow> (string, 'h route_def) js_map \<Rightarrow> nat \<Rightarrow> fast_index option
     \<Rightarrow> 'h router_state \<Rightarrow> 'h router_state" where
  "reframe d n m f st = st\<lparr>defs := d, named := n, mutations := m, fastIndex := f\<rparr>"

lemma reframe_simps [simp]:
  "defs (reframe d n m f st) = d" "named (reframe d n m f st) = n" "mutations (reframe d n m f st) = m"
  "fastIndex (reframe d n m f st) = f" "staticMap (reframe d n m f st) = staticMap st"
  "buckets (reframe d n m f st) = buckets st" "trieRoot (reframe d n m f st) = trieRoot st"
  "hasDynamic (reframe d n m f st) = hasDynamic st" "rs_prefix (reframe d n m f st) = rs_prefix st"
  "regexIndex (reframe d n m f st) = regexIndex st" "impureFirst (reframe d n m f st) = impureFirst st"
  "sunkPaths (reframe d n m f st) = sunkPaths st" "devTrace (reframe d n m f st) = devTrace st"
  "rs_targets (reframe d n m f st) = rs_targets st" "paramMiddlewares (reframe d n m f st) = paramMiddlewares st"
  "reframe d n m f (reframe d' n' m' f' st) = reframe d n m f st"
  by (simp_all add: reframe_def)

lemma reframe_self: "reframe (defs st) (named st) (mutations st) (fastIndex st) st = st"
  by (simp add: reframe_def)

lemma indexPattern_frame:
  "indexPattern (reframe d n m f st) ir p =
     (reframe d n m f (fst (indexPattern st ir p)), snd (indexPattern st ir p))"
  unfolding indexPattern_def
  by (simp add: Let_def reframe_def split: option.split prod.split sum.split)

lemma indexPattern_keeps:
  "defs (fst (indexPattern st ir p)) = defs st" "named (fst (indexPattern st ir p)) = named st"
  "mutations (fst (indexPattern st ir p)) = mutations st" "fastIndex (fst (indexPattern st ir p)) = fastIndex st"
  "paramMiddlewares (fst (indexPattern st ir p)) = paramMiddlewares st"
  "rs_prefix (fst (indexPattern st ir p)) = rs_prefix st" "sunkPaths (fst (indexPattern st ir p)) = sunkPaths st"
  "devTrace (fst (indexPattern st ir p)) = devTrace st"
  by (simp_all add: indexPattern_def Let_def split: option.split prod.split sum.split)

lemma paramChainFor_cong:
  "paramMiddlewares a = paramMiddlewares b \<Longrightarrow> paramChainFor a segs = paramChainFor b segs"
  by (simp add: paramChainFor_def)

lemma bindDef_frame:
  "\<exists>m'. bindDef re_ok (reframe d n m f st) def mw =
     (reframe d n m' f (fst (bindDef re_ok st def mw)), snd (bindDef re_ok st def mw))"
proof (cases "compilePattern re_ok (rd_path def)")
  case (Inr ir)
  obtain st1 r where idx: "indexPattern st ir (rd_path def) = (st1, r)" by fastforce
  have idx': "indexPattern (reframe d n m f st) ir (rd_path def) = (reframe d n m f st1, r)"
    using indexPattern_frame [of d n m f st ir] idx by simp
  show ?thesis
  proof (cases r)
    case (Inl e)
    then show ?thesis by (intro exI [of _ m]) (simp add: bindDef_def Inr idx idx')
  next
    case (Inr ts)
    then show ?thesis
      using \<open>compilePattern re_ok (rd_path def) = Inr ir\<close>
      by (intro exI [of _ "Suc m"])
        (auto simp: bindDef_def idx idx' [unfolded reframe_def] reframe_def Let_def paramChainFor_def split: sum.split)
  qed
qed (intro exI [of _ m], simp add: bindDef_def)

lemma bind_all_frame:
  "\<exists>m'. bind_all re_ok mw (reframe d n m f st) ds =
     (reframe d n m' f (fst (bind_all re_ok mw st ds)), snd (bind_all re_ok mw st ds))"
proof (induction ds arbitrary: m st)
  case (Cons def ds)
  obtain m1 where m1: "bindDef re_ok (reframe d n m f st) def mw =
     (reframe d n m1 f (fst (bindDef re_ok st def mw)), snd (bindDef re_ok st def mw))"
    using bindDef_frame by blast
  obtain st1 r where st1: "bindDef re_ok st def mw = (st1, r)" by fastforce
  from Cons.IH [of m1 st1] m1 st1 show ?case by (cases r) auto
qed auto

lemma bindDef_keeps:
  assumes "bindDef re_ok st def mw = (st', r)"
  shows "defs st' = defs st \<and> named st' = named st \<and> paramMiddlewares st' = paramMiddlewares st
    \<and> rs_prefix st' = rs_prefix st \<and> sunkPaths st' = sunkPaths st \<and> devTrace st' = devTrace st
    \<and> fastIndex st' = fastIndex st"
proof (cases "compilePattern re_ok (rd_path def)")
  case (Inr ir)
  obtain st1 r1 where idx: "indexPattern st ir (rd_path def) = (st1, r1)" by fastforce
  from assms Inr idx indexPattern_keeps [of st ir "rd_path def"] show ?thesis
    by (cases r1) (auto simp: bindDef_def Let_def split: sum.splits if_splits)
qed (use assms in \<open>auto simp: bindDef_def\<close>)

lemma bind_all_keeps:
  "bind_all re_ok mw st ds = (st', r) \<Longrightarrow> defs st' = defs st \<and> named st' = named st
     \<and> paramMiddlewares st' = paramMiddlewares st \<and> rs_prefix st' = rs_prefix st
     \<and> sunkPaths st' = sunkPaths st \<and> devTrace st' = devTrace st"
proof (induction ds arbitrary: st)
  case (Cons def ds)
  obtain st1 r1 where st1: "bindDef re_ok st def mw = (st1, r1)" by fastforce
  with Cons bindDef_keeps [OF st1] show ?case by (cases r1) auto
qed simp

lemma rebuild_keeps:
  "rebuildChains re_ok st mw = (st', r) \<Longrightarrow> defs st' = defs st \<and> named st' = named st
     \<and> paramMiddlewares st' = paramMiddlewares st \<and> rs_prefix st' = rs_prefix st
     \<and> sunkPaths st' = sunkPaths st \<and> devTrace st' = devTrace st"
  using bind_all_keeps [of re_ok mw "resetIndex st" "defs st" st' r]
  by (simp add: rebuildChains_def resetIndex_def)

lemma bind_all_append:
  "bind_all re_ok mw st (ds @ es) =
     (case bind_all re_ok mw st ds of (st1, Inl e) \<Rightarrow> (st1, Inl e) | (st1, Inr _) \<Rightarrow> bind_all re_ok mw st1 es)"
  by (induction ds arbitrary: st) (auto split: prod.splits sum.splits)

text \<open>The state up to the memo and its counter, and: the index is what a rebuild computes.\<close>

definition observable :: "'h router_state \<Rightarrow> 'h router_state" where
  "observable st = reframe (defs st) (named st) 0 None st"

definition synced :: "(string \<Rightarrow> bool) \<Rightarrow> 'h mw_stack \<Rightarrow> 'h router_state \<Rightarrow> bool" where
  "synced re_ok mw st \<longleftrightarrow> (\<exists>st'. rebuildChains re_ok st mw = (st', Inr ()) \<and> observable st' = observable st)"

lemma observable_eq: "observable a = observable b \<Longrightarrow> \<exists>m f. b = reframe (defs a) (named a) m f a"
proof -
  assume "observable a = observable b"
  then have "b = reframe (defs b) (named b) (mutations b) (fastIndex b) (observable a)"
    by (simp add: observable_def reframe_self)
  moreover have "defs b = defs a" "named b = named a"
    using \<open>observable a = observable b\<close> reframe_simps(1,2) by (metis observable_def)+
  ultimately show ?thesis by (auto simp: observable_def)
qed

lemma resetIndex_reframe:
  "resetIndex (reframe d n m f st) = reframe d n (Suc m) None (resetIndex st)"
  by (simp add: resetIndex_def reframe_def)

lemma resetIndex_absorb:
  "rs_prefix a = rs_prefix b \<Longrightarrow> paramMiddlewares a = paramMiddlewares b \<Longrightarrow> sunkPaths a = sunkPaths b
     \<Longrightarrow> devTrace a = devTrace b \<Longrightarrow>
     resetIndex a = reframe (defs a) (named a) (Suc (mutations a)) None (resetIndex b)"
  by (simp add: resetIndex_def reframe_def)

lemma rebuild_absorb:
  assumes "rs_prefix a = rs_prefix b" "paramMiddlewares a = paramMiddlewares b" "sunkPaths a = sunkPaths b"
    "devTrace a = devTrace b" "defs a = defs b" "named a = named b"
  shows "observable (fst (rebuildChains re_ok a mw)) = observable (fst (rebuildChains re_ok b mw))
    \<and> snd (rebuildChains re_ok a mw) = snd (rebuildChains re_ok b mw)"
proof -
  have ra: "resetIndex a = reframe (defs b) (named b) (Suc (mutations a)) None (resetIndex b)"
    using resetIndex_absorb [OF assms(1-4)] assms(5,6) by simp
  obtain m' where "bind_all re_ok mw (resetIndex a) (defs b) =
     (reframe (defs b) (named b) m' None (fst (bind_all re_ok mw (resetIndex b) (defs b))),
      snd (bind_all re_ok mw (resetIndex b) (defs b)))"
    unfolding ra using bind_all_frame by blast
  moreover obtain s r where s: "rebuildChains re_ok b mw = (s, r)" by fastforce
  ultimately have a: "rebuildChains re_ok a mw = (reframe (defs b) (named b) m' None s, r)"
    using assms(5) by (simp add: rebuildChains_def)
  have "reframe (defs b) (named b) 0 None s = observable s"
    using rebuild_keeps [OF s] by (simp add: observable_def)
  then show ?thesis by (simp add: a s) (simp add: observable_def)
qed

lemma jm_set_back: "jm_get m k = Some v \<Longrightarrow> jm_set k v (jm_set k w m) = m"
  by (induction m) (auto simp: js_simps split: if_splits)

lemma jm_delete_none: "jm_get m k = None \<Longrightarrow> jm_delete k m = m"
  by (induction m) (auto simp: jm_delete_eval split: if_splits)

lemma jm_delete_back: "jm_get m k = None \<Longrightarrow> jm_delete k (jm_set k v m) = m"
  by (induction m) (auto simp: jm_set_eval jm_delete_eval jm_delete_none split: if_splits)

text \<open>A new router, and any router after a rebuild that succeeds, is in sync.\<close>

lemma synced_create: "synced re_ok mw (createRouterState p)"
  by (simp add: synced_def rebuildChains_def createRouterState_def observable_def reframe_def resetIndex_def)

lemma synced_rebuild:
  assumes "rebuildChains re_ok st mw = (st', Inr ())"
  shows "synced re_ok mw st'"
proof -
  show ?thesis
    using rebuild_absorb [of st' st re_ok mw] rebuild_keeps [OF assms] assms
    by (cases "rebuildChains re_ok st' mw") (auto simp: synced_def)
qed

lemma observable_absorb:
  "observable (reframe d n m f st) = reframe d n 0 None st"
  by (simp add: observable_def)

text \<open>Adding one definition to a synced router is the last step of a rebuild.\<close>

lemma synced_bind:
  assumes sync: "synced re_ok mw st"
    and bind: "bindDef re_ok (st\<lparr>defs := defs st @ [def], named := n\<rparr>) def mw = (st', Inr ())"
  shows "synced re_ok mw st'"
proof -
  obtain s where s: "rebuildChains re_ok st mw = (s, Inr ())" "observable s = observable st"
    using sync by (auto simp: synced_def)
  obtain m f where st: "st = reframe (defs s) (named s) m f s" using observable_eq [OF s(2)] by blast
  have frames: "defs s = defs st" "named s = named st" using rebuild_keeps [OF s(1)] by blast+
  let ?st1 = "st\<lparr>defs := defs st @ [def], named := n\<rparr>"
  have "?st1 = (reframe (defs s) (named s) m f s)\<lparr>defs := defs st @ [def], named := n\<rparr>"
    by (rule arg_cong [OF st, of "\<lambda>x. x\<lparr>defs := defs st @ [def], named := n\<rparr>"])
  then have st1: "?st1 = reframe (defs st @ [def]) n m f s" by (simp add: reframe_def)
  have reset: "resetIndex st' = reframe (defs st @ [def]) n (Suc (mutations st')) None (resetIndex st)"
    using bindDef_keeps [OF bind] resetIndex_absorb [of st' st] by simp
  obtain m1 where A: "bind_all re_ok mw (resetIndex st') (defs st) =
     (reframe (defs st @ [def]) n m1 None (fst (bind_all re_ok mw (resetIndex st) (defs st))),
      snd (bind_all re_ok mw (resetIndex st) (defs st)))"
    unfolding reset using bind_all_frame by blast
  then have A: "bind_all re_ok mw (resetIndex st') (defs st) = (reframe (defs st @ [def]) n m1 None s, Inr ())"
    using s(1) by (simp add: rebuildChains_def)
  obtain m2 where B: "bindDef re_ok (reframe (defs st @ [def]) n m1 None s) def mw =
    (reframe (defs st @ [def]) n m2 None (fst (bindDef re_ok s def mw)), snd (bindDef re_ok s def mw))"
    using bindDef_frame by blast
  obtain m3 where C: "bindDef re_ok ?st1 def mw =
    (reframe (defs st @ [def]) n m3 f (fst (bindDef re_ok s def mw)), snd (bindDef re_ok s def mw))"
    unfolding st1 using bindDef_frame by blast
  then have st': "st' = reframe (defs st @ [def]) n m3 f (fst (bindDef re_ok s def mw))"
    and ok: "snd (bindDef re_ok s def mw) = Inr ()" using bind by simp_all
  have "rebuildChains re_ok st' mw = bind_all re_ok mw (resetIndex st') (defs st @ [def])"
    using bindDef_keeps [OF bind] by (simp add: rebuildChains_def)
  also have "\<dots> = (reframe (defs st @ [def]) n m2 None (fst (bindDef re_ok s def mw)), Inr ())"
    by (simp add: bind_all_append A B ok)
  finally show ?thesis unfolding synced_def st' by (simp add: observable_absorb)
qed

text \<open>C8: a registration that throws leaves no trace: every observable part of the router is as before.
  One that succeeds leaves the router equal to a rebuild from its definitions.\<close>

theorem registerDef_transactional:
  assumes "synced re_ok mw st"
    and "registerDef re_ok st method path handlers name mw pm = (st', r)"
  shows "case r of Inl e \<Rightarrow> observable st' = observable st
    | Inr def \<Rightarrow> synced re_ok mw st' \<and> defs st' = defs st @ [def]"
proof -
  define upper where "upper = to_upper method"
  define def where "def = make_def st upper path handlers name pm"
  define nm where "nm = (case name of Some n \<Rightarrow> jm_set n def (named st) | None \<Rightarrow> named st)"
  define st1 where "st1 = st\<lparr>defs := defs st @ [def], named := nm\<rparr>"
  consider (refused) "st' = st" "\<exists>e. r = Inl e"
    | (bound) s where "bindDef re_ok st1 def mw = (s, Inr ())" "st' = s" "r = Inr def"
    | (undone) s err where "bindDef re_ok st1 def mw = (s, Inl err)" "\<exists>e. r = Inl e"
        "st' = fst (rebuildChains re_ok (s\<lparr>defs := butlast (defs s),
            named := (case name of None \<Rightarrow> named s
              | Some n \<Rightarrow> (case jm_get (named st) n of
                  None \<Rightarrow> jm_delete n (named s) | Some previous \<Rightarrow> jm_set n previous (named s)))\<rparr>) mw)"
    using assms(2) unfolding registerDef_def Let_def upper_def [symmetric] def_def [symmetric]
      nm_def [symmetric] st1_def [symmetric]
    by (auto split: if_splits prod.splits sum.splits)
  then show ?thesis
  proof cases
    case bound
    then have "synced re_ok mw st'" "defs st' = defs st @ [def]"
      using synced_bind [OF assms(1), where def = def and n = nm and st' = s] bindDef_keeps [OF bound(1)] by (simp_all add: st1_def)
    with bound show ?thesis by simp
  next
    case undone
    note k = bindDef_keeps [OF undone(1)]
    define st3 where "st3 = s\<lparr>defs := butlast (defs s),
            named := (case name of None \<Rightarrow> named s
              | Some n \<Rightarrow> (case jm_get (named st) n of
                  None \<Rightarrow> jm_delete n (named s) | Some previous \<Rightarrow> jm_set n previous (named s)))\<rparr>"
    have "named st3 = named st"
      using k by (auto simp: st3_def st1_def nm_def jm_set_back jm_delete_back split: option.split)
    moreover have "defs st3 = defs st" using k by (simp add: st3_def st1_def)
    ultimately have "observable (fst (rebuildChains re_ok st3 mw)) = observable (fst (rebuildChains re_ok st mw))"
      using k rebuild_absorb [of st3 st re_ok mw] by (simp add: st3_def st1_def)
    also have "\<dots> = observable st" using assms(1) by (auto simp: synced_def)
    finally show ?thesis using undone by (auto simp: st3_def)
  qed auto
qed

section \<open>The memo\<close>

text \<open>The life of a router: registrations, rebuilds, requests, and the setup writes of app.ts.\<close>

inductive router_reach :: "(string \<Rightarrow> bool) \<Rightarrow> 'h router_state \<Rightarrow> bool" for re_ok where
  init: "router_reach re_ok (createRouterState p)"
| register: "router_reach re_ok st \<Longrightarrow>
     router_reach re_ok (fst (registerDef re_ok st method path handlers name mw pm))"
| rebuild: "router_reach re_ok st \<Longrightarrow> router_reach re_ok (fst (rebuildChains re_ok st mw))"
| request: "router_reach re_ok st \<Longrightarrow> router_reach re_ok (fst (matchRoute rx st path))"
| setup_write: "router_reach re_ok st \<Longrightarrow>
     router_reach re_ok (st\<lparr>paramMiddlewares := ps, sunkPaths := sunk, devTrace := b\<rparr>)"

definition memo_fresh :: "'h router_state \<Rightarrow> bool" where
  "memo_fresh st \<longleftrightarrow> (case fastIndex st of None \<Rightarrow> True
     | Some c \<Rightarrow> fx_mutations c \<le> mutations st
         \<and> (fx_mutations c = mutations st \<longrightarrow> c = compute_index st))"

lemma memo_fresh_cong:
  assumes "fastIndex a = fastIndex b" "mutations a = mutations b" "buckets a = buckets b"
    "regexIndex a = regexIndex b" "impureFirst a = impureFirst b"
  shows "memo_fresh a = memo_fresh b"
proof -
  have "compute_index a = compute_index b" using assms by (simp add: compute_index_def bucket_matchers_def)
  with assms(1,2) show ?thesis unfolding memo_fresh_def by (simp only:)
qed

lemma memo_fresh_None: "fastIndex st = None \<Longrightarrow> memo_fresh st"
  by (simp add: memo_fresh_def)

lemma indexPattern_throw:
  "indexPattern st ir p = (st', Inl e) \<Longrightarrow> st' = st\<lparr>trieRoot := trieRoot st'\<rparr>"
  by (auto simp: indexPattern_def Let_def split: if_splits option.splits prod.splits sum.splits)

lemma memo_fresh_bind:
  assumes "memo_fresh st" and bind: "bindDef re_ok st def mw = (st', r)"
  shows "memo_fresh st'"
proof (cases "compilePattern re_ok (rd_path def)")
  case (Inr ir)
  obtain st1 r1 where idx: "indexPattern st ir (rd_path def) = (st1, r1)" by fastforce
  show ?thesis
  proof (cases r1)
    case (Inl e)
    with bind Inr idx have "st' = st1" by (simp add: bindDef_def)
    with indexPattern_throw [of st ir "rd_path def" st1 e] idx Inl
    have "st' = st\<lparr>trieRoot := trieRoot st1\<rparr>" by simp
    then obtain t where "st' = st\<lparr>trieRoot := t\<rparr>" by blast
    then have "memo_fresh st' = memo_fresh st" by (intro memo_fresh_cong) simp_all
    with assms(1) show ?thesis by simp
  next
    case (Inr ts)
    with bind idx \<open>compilePattern re_ok (rd_path def) = Inr ir\<close>
    have "mutations st' = Suc (mutations st1)"
      by (auto simp: bindDef_def Let_def split: sum.splits if_splits)
    with indexPattern_keeps [of st ir "rd_path def"] idx have "mutations st' = Suc (mutations st)" by simp
    with assms(1) bindDef_keeps [OF bind] show ?thesis by (auto simp: memo_fresh_def split: option.splits)
  qed
qed (use assms in \<open>auto simp: bindDef_def\<close>)

lemma memo_fresh_rebuild: "memo_fresh (fst (rebuildChains re_ok st mw))"
proof -
  have "fastIndex s = None \<Longrightarrow> fastIndex (fst (bind_all re_ok mw s ds)) = None" for s ds
  proof (induction ds arbitrary: s)
    case (Cons def ds)
    obtain st1 r1 where st1: "bindDef re_ok s def mw = (st1, r1)" by fastforce
    with Cons bindDef_keeps [OF st1] show ?case by (cases r1) auto
  qed simp
  from this [of "resetIndex st" "defs st"] show ?thesis
    by (intro memo_fresh_None) (simp add: rebuildChains_def resetIndex_def)
qed

lemma memo_fresh_rebuilt: "rebuildChains re_ok st mw = (st', r) \<Longrightarrow> memo_fresh st'"
  using memo_fresh_rebuild [of re_ok st mw] by simp

lemma fastIndexOf_fresh:
  "memo_fresh st \<Longrightarrow> snd (fastIndexOf st) = compute_index st \<and> memo_fresh (fst (fastIndexOf st))
     \<and> trieRoot (fst (fastIndexOf st)) = trieRoot st"
  by (auto simp: fastIndexOf_def memo_fresh_def compute_index_def bucket_matchers_def split: option.splits)

lemma memo_fresh_match: "memo_fresh st \<Longrightarrow> memo_fresh (fst (matchRoute rx st path))"
  using fastIndexOf_fresh [of st]
  by (auto simp: matchRoute_def matchDynamic_def split: option.split prod.split)

lemma memo_fresh_register:
  assumes "memo_fresh st"
  shows "memo_fresh (fst (registerDef re_ok st method path handlers name mw pm))"
proof -
  define def where "def = make_def st (to_upper method) path handlers name pm"
  define nm where "nm = (case name of Some n \<Rightarrow> jm_set n def (named st) | None \<Rightarrow> named st)"
  define st1 where "st1 = st\<lparr>defs := defs st @ [def], named := nm\<rparr>"
  obtain s r where bind: "bindDef re_ok st1 def mw = (s, r)" by fastforce
  have "memo_fresh st1"
    using assms memo_fresh_cong [of st1 st] by (simp add: st1_def)
  from memo_fresh_bind [OF this bind] have "memo_fresh s" .
  with assms bind show ?thesis
    unfolding registerDef_def Let_def def_def [symmetric] nm_def [symmetric] st1_def [symmetric]
    by (auto split: sum.split prod.split dest: memo_fresh_rebuilt)
qed

lemma reach_fresh: "router_reach re_ok st \<Longrightarrow> memo_fresh st"
proof (induction rule: router_reach.induct)
  case (init p)
  then show ?case by (simp add: memo_fresh_def createRouterState_def)
next
  case (setup_write st)
  then show ?case by (subst memo_fresh_cong [of _ st]) simp_all
qed (simp_all add: memo_fresh_register memo_fresh_rebuild memo_fresh_match)

text \<open>C31: whatever was registered, rebuilt or requested before, a request sees the index of the
  patterns registered now, never a stale memo.\<close>

theorem fastIndex_never_stale:
  assumes "router_reach re_ok st"
  shows "snd (fastIndexOf st) = \<lparr>fx_mutations = mutations st, fx_matchers = bucket_matchers st,
    fx_table = compileTableRegex (regexIndex st) (impureFirst st)\<rparr>"
  using fastIndexOf_fresh [OF reach_fresh [OF assms]] by (simp add: compute_index_def)

definition demo_def :: "nat route_def" where
  "demo_def = make_def (createRouterState '''') ''GET'' ''/u/:id'' [Plain 1] None []"

lemma registerDef_transactional_witness:
  "defs (fst (registerDef (\<lambda>_. True) (createRouterState '''') ''GET'' ''/u/:id'' [Plain 1] None createMiddlewareStack []))
     = [demo_def]"
proof -
  have sync: "synced (\<lambda>_. True) createMiddlewareStack (createRouterState '''' :: nat router_state)"
    by (simp add: synced_def rebuildChains_def createRouterState_def resetIndex_def observable_def reframe_def)
  let ?r = "registerDef (\<lambda>_. True) (createRouterState '''') ''GET'' ''/u/:id'' [Plain 1] None createMiddlewareStack []"
  have "snd ?r = Inr demo_def" by code_simp
  then have "?r = (fst ?r, Inr demo_def)" by (simp only: prod_eq_iff fst_conv snd_conv)
  from registerDef_transactional [OF sync this] show ?thesis by (simp add: createRouterState_def)
qed

lemma fastIndex_never_stale_witness:
  "fx_mutations (snd (fastIndexOf (fst (registerDef (\<lambda>_. True) (createRouterState '''') ''GET'' ''/u/:id'' [Plain (1::nat)] None createMiddlewareStack [])))) = 1"
  using fastIndex_never_stale [OF router_reach.register [OF router_reach.init],
     of "\<lambda>_. True" "''''" "''GET''" "''/u/:id''" "[Plain (1::nat)]" None createMiddlewareStack "[]"]
  by (simp, code_simp)

end
