(* ===== verification/Errors.thy ===== *)
theory Errors
  imports Strings
begin

text \<open>
  HTTP statuses and the error factory, src/http/status.ts and src/http/errors.ts. A throw site passes
  \<open>createError\<close> a message, a source error or a props record; keys of the props other than the four the
  framework reads are not modelled.
\<close>

section \<open>Status classes\<close>

definition isEmptyStatus :: "nat \<Rightarrow> bool" where
  "isEmptyStatus code \<longleftrightarrow> code = 204 \<or> code = 205 \<or> code = 304"

definition isRedirectStatus :: "nat \<Rightarrow> bool" where
  "isRedirectStatus code \<longleftrightarrow> code = 305 \<or> code = 307 \<or> code = 308 \<or> 300 \<le> code \<and> code \<le> 303"

definition isValidErrorStatus :: "nat \<Rightarrow> bool" where
  "isValidErrorStatus code \<longleftrightarrow> 400 \<le> code \<and> code \<le> 599"


section \<open>Reason phrases\<close>

definition MESSAGES :: "(nat \<times> string) list" where
  "MESSAGES = [
    (100, ''Continue''), (101, ''Switching Protocols''), (102, ''Processing''), (103, ''Early Hints''),
    (200, ''OK''), (201, ''Created''), (202, ''Accepted''), (203, ''Non-Authoritative Information''),
    (204, ''No Content''), (205, ''Reset Content''), (206, ''Partial Content''), (207, ''Multi-Status''),
    (208, ''Already Reported''), (226, ''IM Used''), (300, ''Multiple Choices''),
    (301, ''Moved Permanently''), (302, ''Found''), (303, ''See Other''), (304, ''Not Modified''),
    (305, ''Use Proxy''), (307, ''Temporary Redirect''), (308, ''Permanent Redirect''),
    (400, ''Bad Request''), (401, ''Unauthorized''), (402, ''Payment Required''), (403, ''Forbidden''),
    (404, ''Not Found''), (405, ''Method Not Allowed''), (406, ''Not Acceptable''),
    (407, ''Proxy Authentication Required''), (408, ''Request Timeout''), (409, ''Conflict''),
    (410, ''Gone''), (411, ''Length Required''), (412, ''Precondition Failed''),
    (413, ''Payload Too Large''), (414, ''URI Too Long''), (415, ''Unsupported Media Type''),
    (416, ''Range Not Satisfiable''), (417, ''Expectation Failed''),
    (418, ''I'' @ CHR 0x27 # ''m a teapot''), (421, ''Misdirected Request''),
    (422, ''Unprocessable Content''), (423, ''Locked''), (424, ''Failed Dependency''), (425, ''Too Early''),
    (426, ''Upgrade Required''), (428, ''Precondition Required''), (429, ''Too Many Requests''),
    (431, ''Request Header Fields Too Large''), (451, ''Unavailable For Legal Reasons''),
    (500, ''Internal Server Error''), (501, ''Not Implemented''), (502, ''Bad Gateway''),
    (503, ''Service Unavailable''), (504, ''Gateway Timeout''), (505, ''HTTP Version Not Supported''),
    (506, ''Variant Also Negotiates''), (507, ''Insufficient Storage''), (508, ''Loop Detected''),
    (510, ''Not Extended''), (511, ''Network Authentication Required'')]"

definition statusMessage :: "nat \<Rightarrow> string" where
  "statusMessage code = (case map_of MESSAGES code of None \<Rightarrow> [] | Some m \<Rightarrow> m)"

section \<open>The error factory\<close>

definition ERROR_NAMES :: "(nat \<times> string) list" where
  "ERROR_NAMES = [
    (400, ''BadRequestError''), (401, ''UnauthorizedError''), (402, ''PaymentRequiredError''),
    (403, ''ForbiddenError''), (404, ''NotFoundError''), (405, ''MethodNotAllowedError''),
    (406, ''NotAcceptableError''), (407, ''ProxyAuthenticationRequiredError''),
    (408, ''RequestTimeoutError''), (409, ''ConflictError''), (410, ''GoneError''),
    (411, ''LengthRequiredError''), (412, ''PreconditionFailedError''), (413, ''PayloadTooLargeError''),
    (414, ''URITooLongError''), (415, ''UnsupportedMediaTypeError''), (416, ''RangeNotSatisfiableError''),
    (417, ''ExpectationFailedError''), (418, ''ImATeapotError''), (421, ''MisdirectedRequestError''),
    (422, ''UnprocessableEntityError''), (423, ''LockedError''), (424, ''FailedDependencyError''),
    (425, ''TooEarlyError''), (426, ''UpgradeRequiredError''), (428, ''PreconditionRequiredError''),
    (429, ''TooManyRequestsError''), (431, ''RequestHeaderFieldsTooLargeError''),
    (451, ''UnavailableForLegalReasonsError''), (500, ''InternalServerError''),
    (501, ''NotImplementedError''), (502, ''BadGatewayError''), (503, ''ServiceUnavailableError''),
    (504, ''GatewayTimeoutError''), (505, ''HTTPVersionNotSupportedError''),
    (506, ''VariantAlsoNegotiatesError''), (507, ''InsufficientStorageError''), (508, ''LoopDetectedError''),
    (510, ''NotExtendedError''), (511, ''NetworkAuthenticationRequiredError'')]"

record error_props =
  ep_message :: "string option"
  ep_expose :: "bool option"
  ep_headers :: "(string \<times> header_entry) list option"
  ep_code :: "string option"

definition no_props :: error_props where
  "no_props = \<lparr>ep_message = None, ep_expose = None, ep_headers = None, ep_code = None\<rparr>"

datatype error_source = NoSource | SourceText string | SourceError js_error | SourceProps error_props

definition or_else :: "'a option \<Rightarrow> 'a option \<Rightarrow> 'a option" where
  "or_else a b = (case a of None \<Rightarrow> b | Some x \<Rightarrow> Some x)"

text \<open>The object spread: the later record wins where it has the key.\<close>

definition spread :: "error_props \<Rightarrow> error_props \<Rightarrow> error_props" where
  "spread a b = \<lparr>ep_message = or_else (ep_message b) (ep_message a), ep_expose = or_else (ep_expose b) (ep_expose a),
     ep_headers = or_else (ep_headers b) (ep_headers a), ep_code = or_else (ep_code b) (ep_code a)\<rparr>"

definition error_message :: "js_error \<Rightarrow> string" where
  "error_message e = (case e of TypeError m \<Rightarrow> m | RangeError m \<Rightarrow> m | PlainError m \<Rightarrow> m | SyntaxError m \<Rightarrow> m
     | HttpThrown h \<Rightarrow> he_message h | ValueThrown m \<Rightarrow> m)"

definition createError :: "nat option \<Rightarrow> error_source \<Rightarrow> error_props option \<Rightarrow> http_error" where
  "createError status source props =
     (let given = (case status of Some s \<Rightarrow> if isValidErrorStatus s then s else 500 | None \<Rightarrow> 500);
          resolved = (case source of
              SourceError (HttpThrown h) \<Rightarrow> if isValidErrorStatus (he_status h) then he_status h else given
            | _ \<Rightarrow> given);
          inherited = (case source of
              SourceError (HttpThrown h) \<Rightarrow> no_props\<lparr>ep_headers := he_headers h\<rparr>
            | SourceProps p \<Rightarrow> p | _ \<Rightarrow> no_props);
          extra = (case props of None \<Rightarrow> inherited | Some p \<Rightarrow> spread inherited p);
          said = (case source of SourceText m \<Rightarrow> Some m | SourceError e \<Rightarrow> Some (error_message e) | _ \<Rightarrow> None);
          phrase = (if statusMessage resolved = [] then show_digits resolved else statusMessage resolved);
          msg = (case or_else (ep_message extra) said of Some m \<Rightarrow> m | None \<Rightarrow> phrase)
      in \<lparr>he_name = (case map_of ERROR_NAMES resolved of Some n \<Rightarrow> n | None \<Rightarrow> ''HttpError''),
          he_status = resolved, he_message = msg,
          he_expose = (case ep_expose extra of Some b \<Rightarrow> b | None \<Rightarrow> resolved < 500),
          he_code = ep_code extra, he_headers = ep_headers extra, he_frozen = False\<rparr>)"

definition isHttpError :: "js_error \<Rightarrow> bool" where
  "isHttpError e = (case e of HttpThrown h \<Rightarrow> isValidErrorStatus (he_status h) | _ \<Rightarrow> False)"

text \<open>\<open>normalizeError\<close>: a value that is no Error becomes a plain one with its text.\<close>

definition normalizeError :: "js_error \<Rightarrow> js_error" where
  "normalizeError e = (case e of ValueThrown m \<Rightarrow> PlainError m | _ \<Rightarrow> e)"

definition error_name :: "js_error \<Rightarrow> string" where
  "error_name e = (case e of TypeError _ \<Rightarrow> ''TypeError'' | RangeError _ \<Rightarrow> ''RangeError'' | SyntaxError _ \<Rightarrow> ''SyntaxError''
     | HttpThrown h \<Rightarrow> he_name h | _ \<Rightarrow> ''Error'')"

text \<open>The classification writes the status on the error object; a frozen one is wrapped.\<close>

definition toHttpError :: "js_error \<Rightarrow> http_error" where
  "toHttpError value =
     (let error = normalizeError value in
      case error of
        HttpThrown h \<Rightarrow>
          if isHttpError error then h
          else if he_frozen h then createError (Some 500) (SourceText (he_message h)) None
          else h\<lparr>he_status := 500, he_expose := False\<rparr>
      | _ \<Rightarrow> \<lparr>he_name = error_name error, he_status = 500, he_message = error_message error, he_expose = False,
             he_code = None, he_headers = None, he_frozen = False\<rparr>)"

section \<open>Every error is a 4xx or a 5xx\<close>

lemma createError_status: "isValidErrorStatus (he_status (createError s src p))"
  by (auto simp: createError_def Let_def isValidErrorStatus_def split: option.split error_source.split js_error.split)

lemma toHttpError_status: "isValidErrorStatus (he_status (toHttpError e))"
  by (auto simp: toHttpError_def normalizeError_def isHttpError_def createError_status Let_def split: js_error.split)
    (simp add: isValidErrorStatus_def)+


text \<open>An error of the factory with a 5xx status shows its message to the client only where the throw
  site asked for it.\<close>

lemma createError_expose:
  assumes "he_expose (createError status source props)" and "500 \<le> he_status (createError status source props)"
  shows "(\<exists>p. props = Some p \<and> ep_expose p = Some True) \<or> (\<exists>p. source = SourceProps p \<and> ep_expose p = Some True)"
  using assms
  by (auto simp: createError_def Let_def spread_def or_else_def no_props_def
      split: option.splits error_source.splits js_error.splits)

lemma createError_expose_witness:
  "(\<exists>p. Some (no_props\<lparr>ep_expose := Some True\<rparr>) = Some p \<and> ep_expose p = Some True)
     \<or> (\<exists>p. SourceText ''x'' = SourceProps p \<and> ep_expose p = Some True)"
  by (rule createError_expose [of "Some 503"]) code_simp+

end
