(* ===== verification/Registration.thy ===== *)
theory Registration
  imports Group RouterCorrect Errors
begin

text \<open>
  Setup-time registration, src/core/registration.ts: the verbs, redirects, websocket routes and the merge of a
  mounted router or application. The state these functions change is the router and the table of socket
  handlers. A websocket handler closure is a value of the handler type made by \<open>upgrade_h\<close> from the route key
  and the origin policy; what calling it does is \<open>wsUpgrade\<close>.
\<close>

section \<open>Websocket handlers\<close>

text \<open>The origin policy of a route; a predicate is given by its verdict on the request at hand.\<close>

datatype ws_policy = AnyOrigin | AllowOrigins "string list" | OriginPredicate bool

record 'w ws_handlers =
  wh_origin :: ws_policy
  wh_events :: 'w

datatype ws_outcome = WsThrown js_error | WsUpgraded string

definition http_throw :: "nat \<Rightarrow> string \<Rightarrow> error_props option \<Rightarrow> ws_outcome" where
  "http_throw status msg props = WsThrown (HttpThrown (createError (Some status) (SourceText msg) props))"

definition exposed :: "error_props option" where "exposed = Some (no_props\<lparr>ep_expose := Some True\<rparr>)"

text \<open>\<open>upgrade\<close> is what the server handle's \<open>upgrade\<close> returns, None when there is no such server.\<close>

definition wsUpgrade :: "string \<Rightarrow> ws_policy \<Rightarrow> string \<Rightarrow> bool option \<Rightarrow> ws_outcome" where
  "wsUpgrade wsKey origin header upgrade =
     (let refused = (case origin of AnyOrigin \<Rightarrow> False | OriginPredicate b \<Rightarrow> \<not> b
          | AllowOrigins os \<Rightarrow> length header = 0 \<or> \<not> (\<exists>entry \<in> set os. to_lower entry = to_lower header)) in
      if refused then http_throw 403 ''websocket origin rejected'' exposed
      else case upgrade of
          None \<Rightarrow> http_throw 501 ''websocket upgrades require a Bun server runtime'' exposed
        | Some False \<Rightarrow> http_throw 400 ''websocket upgrade rejected'' None
        | Some True \<Rightarrow> WsUpgraded wsKey)"

section \<open>Verbs and redirects\<close>

definition routeShortcut ::
  "(string \<Rightarrow> bool) \<Rightarrow> 'h router_state \<Rightarrow> 'h mw_stack \<Rightarrow> string \<Rightarrow> 'h route_arg list \<Rightarrow> 'h router_state \<times> unit res" where
  "routeShortcut re_ok router middleware method args =
     (let register = (\<lambda>path handlers name. case fn_args handlers of
          None \<Rightarrow> (router, throw (TypeError ''Route handlers must be functions''))
        | Some hs \<Rightarrow> (case registerDef re_ok router method path hs name middleware [] of
            (st, Inl e) \<Rightarrow> (st, throw e) | (st, Inr _) \<Rightarrow> (st, ok ()))) in
      case args of
        AStr first # AStr second # rest \<Rightarrow> register second rest (Some first)
      | AStr first # AFn h # rest \<Rightarrow> register first (AFn h # rest) None
      | AStr first # _ \<Rightarrow> (router, throw (TypeError ''Route registration requires at least one handler''))
      | _ \<Rightarrow> (router, throw (TypeError ''Route registration requires a path string'')))"

definition registerRedirect ::
  "(string \<Rightarrow> bool) \<Rightarrow> (redirect_spec \<Rightarrow> 'h) \<Rightarrow> 'h router_state \<Rightarrow> string \<Rightarrow> string \<Rightarrow> js_value \<Rightarrow> 'h mw_stack
     \<Rightarrow> 'h router_state \<times> unit res" where
  "registerRedirect re_ok redirect_h router source destination code middleware =
     (case check_redirect re_ok source destination code of
        Inl e \<Rightarrow> (router, throw e)
      | Inr spec \<Rightarrow>
          (case registerDef re_ok router ''GET'' source [Plain (redirect_h spec)] None middleware [] of
             (st, Inl e) \<Rightarrow> (st, throw e) | (st, Inr _) \<Rightarrow> (st, ok ())))"

section \<open>Websocket routes\<close>

record ('h, 'w) setup_state =
  su_router :: "'h router_state"
  su_ws :: "(string, 'w ws_handlers) js_map"

text \<open>\<open>def.wsKey = key\<close> on the definition just registered: the object is in \<open>defs\<close> and under its name.\<close>

definition set_wsKey :: "string \<Rightarrow> 'h route_def \<Rightarrow> 'h router_state \<Rightarrow> 'h router_state" where
  "set_wsKey key def st =
     (let def' = def\<lparr>rd_wsKey := Some key\<rparr> in
      st\<lparr>defs := butlast (defs st) @ [def'],
         named := (case rd_name def of None \<Rightarrow> named st | Some n \<Rightarrow> jm_set n def' (named st))\<rparr>)"

definition route_key :: "string \<Rightarrow> string" where
  "route_key path = (if normalizePrefix path = [] then ''/'' else normalizePrefix path)"

definition registerWsRoute ::
  "(string \<Rightarrow> bool) \<Rightarrow> (string \<Rightarrow> ws_policy \<Rightarrow> 'h) \<Rightarrow> ('h, 'w) setup_state \<Rightarrow> 'h mw_stack \<Rightarrow> bool \<Rightarrow> string \<Rightarrow> 'w ws_handlers
     \<Rightarrow> ('h, 'w) setup_state \<times> unit res" where
  "registerWsRoute re_ok upgrade_h su middleware poolingEnabled path handlers =
     (if poolingEnabled then (su, throw (TypeError ''app.ws() cannot run with pooling: true''))
      else (let routeKey = route_key path in
        if jm_has (su_ws su) routeKey then (su, throw (TypeError ''app.ws() is already registered''))
        else case registerDef re_ok (su_router su) ''ALL'' routeKey [Plain (upgrade_h routeKey (wh_origin handlers))] None middleware [] of
            (st, Inl e) \<Rightarrow> (su\<lparr>su_router := st\<rparr>, throw e)
          | (st, Inr def) \<Rightarrow> (su\<lparr>su_router := set_wsKey routeKey def st, su_ws := jm_set routeKey handlers (su_ws su)\<rparr>, ok ())))"

definition mergeMountedWs ::
  "(string \<Rightarrow> bool) \<Rightarrow> (string \<Rightarrow> ws_policy \<Rightarrow> 'h) \<Rightarrow> ('h, 'w) setup_state \<Rightarrow> string \<Rightarrow> 'h mw list \<Rightarrow> 'h route_def \<Rightarrow> 'h mw_stack
     \<Rightarrow> (string, 'w ws_handlers) js_map \<Rightarrow> ('h, 'w) setup_state \<times> unit res" where
  "mergeMountedWs re_ok upgrade_h su path mountedMiddleware def middleware handlers =
     (case (case rd_wsKey def of None \<Rightarrow> None | Some key \<Rightarrow> jm_get handlers key) of
        None \<Rightarrow> (su, throw (TypeError ''mount(): no ws handlers found''))
      | Some socketHandlers \<Rightarrow>
          (let newKey = route_key path in
           if jm_has (su_ws su) newKey then (su, throw (TypeError ''app.ws() is already registered''))
           else case registerDef re_ok (su_router su) (rd_method def) path [Plain (upgrade_h newKey (wh_origin socketHandlers))]
                       (rd_name def) middleware mountedMiddleware of
               (st, Inl e) \<Rightarrow> (su\<lparr>su_router := st\<rparr>, throw e)
             | (st, Inr rekeyed) \<Rightarrow>
                 (su\<lparr>su_router := set_wsKey newKey rekeyed st, su_ws := jm_set newKey socketHandlers (su_ws su)\<rparr>, ok ())))"

section \<open>Mounting\<close>

datatype ('h, 'w) mount_sub =
    SubRouter "'h group"
  | SubApp "'h router_state" "'h mw_stack" "(string, 'w ws_handlers) js_map"

definition sub_defs :: "('h, 'w) mount_sub \<Rightarrow> 'h route_def list" where
  "sub_defs sub = (case sub of SubRouter g \<Rightarrow> g_defs g | SubApp r _ _ \<Rightarrow> defs r)"

definition sub_params :: "('h, 'w) mount_sub \<Rightarrow> (string, 'h) js_map" where
  "sub_params sub = (case sub of SubRouter g \<Rightarrow> g_params g | SubApp r _ _ \<Rightarrow> paramMiddlewares r)"

definition sub_ws :: "('h, 'w) mount_sub \<Rightarrow> (string, 'w ws_handlers) js_map" where
  "sub_ws sub = (case sub of SubRouter _ \<Rightarrow> [] | SubApp _ _ ws \<Rightarrow> ws)"

definition sub_middleware :: "(string \<Rightarrow> bool) \<Rightarrow> ('h, 'w) mount_sub \<Rightarrow> string \<Rightarrow> nat \<Rightarrow> 'h mw list res" where
  "sub_middleware re_ok sub path mountOffset =
     (case sub of SubRouter g \<Rightarrow> ok (g_middleware g) | SubApp _ stack _ \<Rightarrow> middlewareForRoute re_ok stack path mountOffset)"

definition mount_base :: "string \<Rightarrow> string" where
  "mount_base pre = (if pre = ''/'' \<or> pre = [] then []
     else if ends_with ''/'' pre \<and> 1 < length pre then butlast pre else pre)"

definition mergeParams :: "(string, 'h) js_map \<Rightarrow> (string, 'h) js_map \<Rightarrow> (string, 'h) js_map" where
  "mergeParams own theirs = foldl (\<lambda>m (name, h). if jm_has m name then m else jm_set name h m) own theirs"

text \<open>One route of the snapshot, and all of them in turn.\<close>

definition mount_one ::
  "(string \<Rightarrow> bool) \<Rightarrow> (string \<Rightarrow> ws_policy \<Rightarrow> 'h) \<Rightarrow> 'h mw_stack \<Rightarrow> bool \<Rightarrow> string \<Rightarrow> nat \<Rightarrow> ('h, 'w) mount_sub
     \<Rightarrow> ('h, 'w) setup_state \<Rightarrow> 'h route_def \<Rightarrow> ('h, 'w) setup_state \<times> unit res" where
  "mount_one re_ok upgrade_h middleware pooling base mountOffset sub su def =
     (let path = (if base @ rd_path def = [] then ''/'' else base @ rd_path def) in
      case sub_middleware re_ok sub (rd_path def) mountOffset of
        Inl e \<Rightarrow> (su, throw e)
      | Inr subMiddleware \<Rightarrow>
          (let mountedMiddleware = rebaseMountedMiddleware (rd_prefixMiddleware def) mountOffset @ subMiddleware in
           if rd_wsKey def \<noteq> None then
             (if pooling then (su, throw (TypeError ''app.mount() cannot introduce ws routes into a pooling app''))
              else mergeMountedWs re_ok upgrade_h su path mountedMiddleware def middleware (sub_ws sub))
           else (case registerDef re_ok (su_router su) (rd_method def) path (rd_handlers def) (rd_name def) middleware mountedMiddleware of
               (st, Inl e) \<Rightarrow> (su\<lparr>su_router := st\<rparr>, throw e) | (st, Inr _) \<Rightarrow> (su\<lparr>su_router := st\<rparr>, ok ()))))"

fun mount_defs ::
  "(string \<Rightarrow> bool) \<Rightarrow> (string \<Rightarrow> ws_policy \<Rightarrow> 'h) \<Rightarrow> 'h mw_stack \<Rightarrow> bool \<Rightarrow> string \<Rightarrow> nat \<Rightarrow> ('h, 'w) mount_sub
     \<Rightarrow> ('h, 'w) setup_state \<Rightarrow> 'h route_def list \<Rightarrow> ('h, 'w) setup_state \<times> unit res" where
  "mount_defs re_ok upgrade_h middleware pooling base mountOffset sub su [] = (su, ok ())"
| "mount_defs re_ok upgrade_h middleware pooling base mountOffset sub su (def # ds) =
     (case mount_one re_ok upgrade_h middleware pooling base mountOffset sub su def of
        (su', Inl e) \<Rightarrow> (su', throw e)
      | (su', Inr _) \<Rightarrow> mount_defs re_ok upgrade_h middleware pooling base mountOffset sub su' ds)"

definition mountInto ::
  "(string \<Rightarrow> bool) \<Rightarrow> (string \<Rightarrow> ws_policy \<Rightarrow> 'h) \<Rightarrow> bool \<Rightarrow> ('h, 'w) setup_state \<Rightarrow> 'h mw_stack \<Rightarrow> bool \<Rightarrow> nat \<Rightarrow> string
     \<Rightarrow> ('h, 'w) mount_sub \<Rightarrow> ('h, 'w) setup_state \<times> unit res" where
  "mountInto re_ok upgrade_h is_self su middleware poolingEnabled nativeSinkCount pre sub =
     (if is_self then (su, throw (TypeError ''app.mount() cannot mount an app into itself''))
      else (let base = mount_base pre in
        case compilePattern re_ok (if base = [] then ''/'' else base) of
          Inl e \<Rightarrow> (su, throw e)
        | Inr ir \<Rightarrow>
            (if 0 < nativeSinkCount \<and> 0 < length (sub_params sub)
             then (su, throw (TypeError ''app.mount() cannot introduce param middleware alongside sunk routes''))
             else (let router = su_router su;
                       merged = mergeParams (paramMiddlewares router) (sub_params sub);
                       router1 = router\<lparr>paramMiddlewares := merged\<rparr> in
               case (if \<exists>(name, h) \<in> set (sub_params sub). \<not> jm_has (paramMiddlewares router) name then rebuildChains re_ok router1 middleware
                     else (router1, ok ())) of
                 (r, Inl e) \<Rightarrow> (su\<lparr>su_router := r\<rparr>, throw e)
               | (r, Inr _) \<Rightarrow>
                   mount_defs re_ok upgrade_h middleware poolingEnabled base (length (segments ir)) sub (su\<lparr>su_router := r\<rparr>) (sub_defs sub)))))"

section \<open>What a registration does to the definitions\<close>

lemma registerDef_frame:
  fixes st :: "'h router_state"
  assumes "registerDef re_ok st method path handlers name mw pm = (st', r)"
  shows "case r of Inl e \<Rightarrow> defs st' = defs st \<and> named st' = named st
    | Inr def \<Rightarrow> def = make_def st (to_upper method) path handlers name pm \<and> defs st' = defs st @ [def]
        \<and> named st' = (case name of Some n \<Rightarrow> jm_set n def (named st) | None \<Rightarrow> named st)"
    and "rs_prefix st' = rs_prefix st" and "paramMiddlewares st' = paramMiddlewares st"
proof -
  define def where "def = make_def st (to_upper method) path handlers name pm"
  define nm where "nm = (case name of Some n \<Rightarrow> jm_set n def (named st) | None \<Rightarrow> named st)"
  define st1 where "st1 = st\<lparr>defs := defs st @ [def], named := nm\<rparr>"
  define undo :: "'h router_state \<Rightarrow> 'h router_state" where "undo = (\<lambda>s. s\<lparr>defs := butlast (defs s),
            named := (case name of None \<Rightarrow> named s
              | Some n \<Rightarrow> (case jm_get (named st) n of
                  None \<Rightarrow> jm_delete n (named s) | Some previous \<Rightarrow> jm_set n previous (named s)))\<rparr>)"
  consider (refused) "st' = st" "\<exists>e. r = Inl e"
    | (bound) s where "bindDef re_ok st1 def mw = (s, Inr ())" "st' = s" "r = Inr def"
    | (undone) s err where "bindDef re_ok st1 def mw = (s, Inl err)" "\<exists>e. r = Inl e" "st' = fst (rebuildChains re_ok (undo s) mw)"
    using assms unfolding registerDef_def Let_def def_def [symmetric] nm_def [symmetric] st1_def [symmetric] undo_def
    by (auto split: if_splits prod.splits sum.splits)
  then have "(case r of Inl e \<Rightarrow> defs st' = defs st \<and> named st' = named st
    | Inr d \<Rightarrow> d = def \<and> defs st' = defs st @ [def] \<and> named st' = nm)
    \<and> rs_prefix st' = rs_prefix st \<and> paramMiddlewares st' = paramMiddlewares st"
  proof cases
    case bound
    with bindDef_keeps [OF bound(1)] show ?thesis by (simp add: st1_def)
  next
    case undone
    note k = bindDef_keeps [OF undone(1)]
    obtain s' r' where b: "rebuildChains re_ok (undo s) mw = (s', r')" by fastforce
    have "named (undo s) = named st"
      using k by (auto simp: undo_def st1_def nm_def jm_set_back jm_delete_back split: option.split)
    with undone rebuild_keeps [OF b] k b show ?thesis by (auto simp: undo_def st1_def)
  qed auto
  then show "case r of Inl e \<Rightarrow> defs st' = defs st \<and> named st' = named st
    | Inr def \<Rightarrow> def = make_def st (to_upper method) path handlers name pm \<and> defs st' = defs st @ [def]
        \<and> named st' = (case name of Some n \<Rightarrow> jm_set n def (named st) | None \<Rightarrow> named st)"
    "rs_prefix st' = rs_prefix st" "paramMiddlewares st' = paramMiddlewares st"
    unfolding nm_def def_def by (cases r; simp)+
qed

section \<open>Socket handlers and routes stay together\<close>

text \<open>The table of socket handlers has exactly the keys the registered websocket routes refer to.\<close>

definition ws_keys :: "'h router_state \<Rightarrow> string list" where
  "ws_keys st = List.map_filter rd_wsKey (defs st)"

definition ws_consistent :: "('h, 'w) setup_state \<Rightarrow> bool" where
  "ws_consistent su \<longleftrightarrow> distinct (jm_keys (su_ws su)) \<and> ws_keys (su_router su) = jm_keys (su_ws su)"

lemma map_filter_append: "List.map_filter f (xs @ ys) = List.map_filter f xs @ List.map_filter f ys"
  by (simp add: map_filter_def)

lemma ws_keys_registerDef:
  assumes "registerDef re_ok st method path handlers name mw pm = (st', r)"
  shows "ws_keys st' = ws_keys st"
  using registerDef_frame(1) [OF assms]
  by (cases r) (auto simp: ws_keys_def map_filter_append map_filter_simps make_def_def Let_def)

lemma ws_keys_set:
  assumes "registerDef re_ok st method path handlers name mw pm = (st', Inr def)"
  shows "ws_keys (set_wsKey key def st') = ws_keys st @ [key]"
  using registerDef_frame(1) [OF assms]
  by (simp add: ws_keys_def set_wsKey_def map_filter_append map_filter_simps Let_def)

lemma new_key: "\<not> jm_has m key \<Longrightarrow> jm_keys (jm_set key v m) = jm_keys m @ [key]"
  using jm.keys_get [of key m] jm.keys_put [of key v m] by (simp add: jm_has_def)

lemma new_key_distinct: "\<not> jm_has m key \<Longrightarrow> key \<notin> set (jm_keys m)"
  using jm.keys_get [of key m] by (simp add: jm_has_def)

lemma ws_consistent_add:
  assumes "ws_consistent su" and "\<not> jm_has (su_ws su) key"
    and "registerDef re_ok (su_router su) method path handlers name mw pm = (st, Inr def)"
  shows "ws_consistent (su\<lparr>su_router := set_wsKey key def st, su_ws := jm_set key h (su_ws su)\<rparr>)"
  using assms(1,2) ws_keys_set [OF assms(3), of key] new_key [OF assms(2), of h] new_key_distinct [OF assms(2)]
  by (simp add: ws_consistent_def)

lemma ws_consistent_router:
  "ws_consistent su \<Longrightarrow> registerDef re_ok (su_router su) method path handlers name mw pm = (st, r) \<Longrightarrow>
    ws_consistent (su\<lparr>su_router := st\<rparr>)"
  using ws_keys_registerDef by (fastforce simp: ws_consistent_def)

lemma registerWsRoute_consistent:
  "ws_consistent su \<Longrightarrow> ws_consistent (fst (registerWsRoute re_ok uh su mw pooling path h))"
  by (auto simp: registerWsRoute_def Let_def intro: ws_consistent_add ws_consistent_router split: prod.split sum.split)

lemma mergeMountedWs_consistent:
  "ws_consistent su \<Longrightarrow> ws_consistent (fst (mergeMountedWs re_ok uh su path mm def mw handlers))"
  by (auto simp: mergeMountedWs_def Let_def intro: ws_consistent_add ws_consistent_router split: prod.split sum.split option.split)

lemma mount_one_consistent:
  "ws_consistent su \<Longrightarrow> ws_consistent (fst (mount_one re_ok uh mw pooling base off sub su def))"
  using mergeMountedWs_consistent
  by (auto simp: mount_one_def Let_def intro: ws_consistent_router split: prod.split sum.split)

lemma mount_defs_consistent:
  "ws_consistent su \<Longrightarrow> ws_consistent (fst (mount_defs re_ok uh mw pooling base off sub su ds))"
proof (induction ds arbitrary: su)
  case (Cons def ds)
  obtain su' r where s: "mount_one re_ok uh mw pooling base off sub su def = (su', r)" by fastforce
  with mount_one_consistent [OF Cons.prems, of re_ok uh mw pooling base off sub def] have "ws_consistent su'" by simp
  with Cons.IH s show ?case by (cases r) simp_all
qed simp

text \<open>The setup calls of an application, each with whatever it throws dropped.\<close>

datatype ('h, 'w) setup_op =
    OpVerb string "'h route_arg list"
  | OpRedirect string string js_value
  | OpWs string "'w ws_handlers"
  | OpMount string "('h, 'w) mount_sub"

definition setup_step ::
  "(string \<Rightarrow> bool) \<Rightarrow> (string \<Rightarrow> ws_policy \<Rightarrow> 'h) \<Rightarrow> (redirect_spec \<Rightarrow> 'h) \<Rightarrow> 'h mw_stack \<Rightarrow> bool \<Rightarrow> nat
     \<Rightarrow> ('h, 'w) setup_state \<Rightarrow> ('h, 'w) setup_op \<Rightarrow> ('h, 'w) setup_state" where
  "setup_step re_ok uh rh mw pooling sinks su op =
     (case op of
        OpVerb method args \<Rightarrow> su\<lparr>su_router := fst (routeShortcut re_ok (su_router su) mw method args)\<rparr>
      | OpRedirect source destination code \<Rightarrow> su\<lparr>su_router := fst (registerRedirect re_ok rh (su_router su) source destination code mw)\<rparr>
      | OpWs path handlers \<Rightarrow> fst (registerWsRoute re_ok uh su mw pooling path handlers)
      | OpMount pre sub \<Rightarrow> fst (mountInto re_ok uh False su mw pooling sinks pre sub))"

lemma ws_consistent_keys: "ws_consistent su \<Longrightarrow> ws_keys r = ws_keys (su_router su) \<Longrightarrow> ws_consistent (su\<lparr>su_router := r\<rparr>)"
  by (simp add: ws_consistent_def)

lemma ws_keys_shortcut: "ws_keys (fst (routeShortcut re_ok r mw method args)) = ws_keys r"
  by (auto simp: routeShortcut_def Let_def dest!: ws_keys_registerDef split: list.split route_arg.split option.split prod.split sum.split)

lemma ws_keys_redirect: "ws_keys (fst (registerRedirect re_ok rh r source destination code mw)) = ws_keys r"
  by (auto simp: registerRedirect_def dest!: ws_keys_registerDef split: prod.split sum.split)

lemma mountInto_consistent:
  assumes "ws_consistent su"
  shows "ws_consistent (fst (mountInto re_ok uh self su mw pooling sinks pre sub))"
proof -
  let ?r1 = "(su_router su)\<lparr>paramMiddlewares := mergeParams (paramMiddlewares (su_router su)) (sub_params sub)\<rparr>"
  obtain r q where r: "(if \<exists>(name, h) \<in> set (sub_params sub). \<not> jm_has (paramMiddlewares (su_router su)) name
      then rebuildChains re_ok ?r1 mw else (?r1, ok ())) = (r, q)" by fastforce
  have "ws_keys r = ws_keys (su_router su)"
    using r rebuild_keeps [of re_ok ?r1 mw r q] by (auto simp: ws_keys_def split: if_splits)
  then have c: "ws_consistent (su\<lparr>su_router := r\<rparr>)" by (rule ws_consistent_keys [OF assms])
  show ?thesis
    using assms c mount_defs_consistent [OF c]
    unfolding mountInto_def Let_def r by (auto split: sum.split)
qed


section \<open>The routes of a mount\<close>

text \<open>The definition a mount makes of one of the sub-router's, given the middleware the sub-router adds.\<close>

definition mounted_def ::
  "(string \<Rightarrow> ws_policy \<Rightarrow> 'h) \<Rightarrow> 'h router_state \<Rightarrow> string \<Rightarrow> nat \<Rightarrow> (string, 'w ws_handlers) js_map \<Rightarrow> 'h mw list \<Rightarrow> 'h route_def \<Rightarrow> 'h route_def" where
  "mounted_def upgrade_h router base mountOffset handlers subMiddleware def =
     (let path = (if base @ rd_path def = [] then ''/'' else base @ rd_path def);
          mm = rebaseMountedMiddleware (rd_prefixMiddleware def) mountOffset @ subMiddleware in
      case rd_wsKey def of
        None \<Rightarrow> make_def router (to_upper (rd_method def)) path (rd_handlers def) (rd_name def) mm
      | Some key \<Rightarrow> (make_def router (to_upper (rd_method def)) path
            [Plain (upgrade_h (route_key path) (wh_origin (the (jm_get handlers key))))] (rd_name def) mm)
          \<lparr>rd_wsKey := Some (route_key path)\<rparr>)"

lemma make_def_prefix: "rs_prefix a = rs_prefix b \<Longrightarrow> make_def a = make_def b"
  by (intro ext) (simp add: make_def_def)

lemma mount_one_defs:
  assumes "mount_one re_ok uh mw pooling base off sub su def = (su', Inr ())"
  shows "\<exists>sm. sub_middleware re_ok sub (rd_path def) off = Inr sm
    \<and> defs (su_router su') = defs (su_router su) @ [mounted_def uh (su_router su) base off (sub_ws sub) sm def]
    \<and> rs_prefix (su_router su') = rs_prefix (su_router su)"
proof -
  obtain sm where sm: "sub_middleware re_ok sub (rd_path def) off = Inr sm"
    using assms by (auto simp: mount_one_def Let_def split: sum.splits)
  let ?path = "if base @ rd_path def = [] then ''/'' else base @ rd_path def"
  let ?mm = "rebaseMountedMiddleware (rd_prefixMiddleware def) off @ sm"
  show ?thesis
  proof (cases "rd_wsKey def")
    case None
    then obtain st d where reg: "registerDef re_ok (su_router su) (rd_method def) ?path (rd_handlers def) (rd_name def) mw ?mm = (st, Inr d)"
      "su' = su\<lparr>su_router := st\<rparr>"
      using assms by (auto simp: mount_one_def sm Let_def split: prod.splits sum.splits)
    from registerDef_frame [OF reg(1)] None reg(2) sm show ?thesis by (simp add: mounted_def_def Let_def)
  next
    case (Some key)
    then have merge: "mergeMountedWs re_ok uh su ?path ?mm def mw (sub_ws sub) = (su', Inr ())"
      using assms by (auto simp: mount_one_def sm Let_def split: if_splits)
    obtain h where h: "jm_get (sub_ws sub) key = Some h"
      using merge Some by (auto simp: mergeMountedWs_def split: option.splits)
    obtain st d where reg: "registerDef re_ok (su_router su) (rd_method def) ?path [Plain (uh (route_key ?path) (wh_origin h))] (rd_name def) mw ?mm = (st, Inr d)"
      "su_router su' = set_wsKey (route_key ?path) d st"
      using merge Some h by (auto simp: mergeMountedWs_def Let_def split: if_splits prod.splits sum.splits)
    from registerDef_frame [OF reg(1)] Some h reg(2) sm show ?thesis by (simp add: mounted_def_def set_wsKey_def Let_def)
  qed
qed

lemma mount_defs_defs:
  "mount_defs re_ok uh mw pooling base off sub su ds = (su', Inr ()) \<Longrightarrow>
    list_all (\<lambda>def. is_ok (sub_middleware re_ok sub (rd_path def) off)) ds
    \<and> defs (su_router su') = defs (su_router su) @ map (\<lambda>def. mounted_def uh (su_router su) base off (sub_ws sub)
        (projr (sub_middleware re_ok sub (rd_path def) off)) def) ds"
proof (induction ds arbitrary: su)
  case (Cons def ds)
  obtain su1 r where s: "mount_one re_ok uh mw pooling base off sub su def = (su1, r)" by fastforce
  with Cons.prems have r: "r = Inr ()" "mount_defs re_ok uh mw pooling base off sub su1 ds = (su', Inr ())" by (cases r; simp)+
  from mount_one_defs [OF s [unfolded r]] obtain sm where sm: "sub_middleware re_ok sub (rd_path def) off = Inr sm"
    "defs (su_router su1) = defs (su_router su) @ [mounted_def uh (su_router su) base off (sub_ws sub) sm def]"
    "rs_prefix (su_router su1) = rs_prefix (su_router su)" by blast
  have "mounted_def uh (su_router su1) base off (sub_ws sub) = mounted_def uh (su_router su) base off (sub_ws sub)"
    by (intro ext) (simp only: mounted_def_def make_def_prefix [OF sm(3)])
  with Cons.IH [OF r(2)] sm show ?case by simp
qed simp

text \<open>A mount that succeeds adds exactly the sub-router's routes, in their order and after the existing ones:
  each under the mount prefix with its own method, name and handlers, behind its own prefix middleware and the
  middleware of the sub-router, with a websocket route re-keyed under the prefix.\<close>

lemma mount_adds_routes:
  assumes "mountInto re_ok uh False su mw pooling sinks pre sub = (su', Inr ())"
  shows "\<exists>ir. compilePattern re_ok (if mount_base pre = [] then ''/'' else mount_base pre) = Inr ir
    \<and> defs (su_router su') = defs (su_router su) @ map (\<lambda>def. mounted_def uh (su_router su) (mount_base pre) (length (segments ir)) (sub_ws sub)
        (projr (sub_middleware re_ok sub (rd_path def) (length (segments ir)))) def) (sub_defs sub)"
proof -
  let ?r1 = "(su_router su)\<lparr>paramMiddlewares := mergeParams (paramMiddlewares (su_router su)) (sub_params sub)\<rparr>"
  obtain r q where r: "(if \<exists>(name, h) \<in> set (sub_params sub). \<not> jm_has (paramMiddlewares (su_router su)) name
      then rebuildChains re_ok ?r1 mw else (?r1, ok ())) = (r, q)" by fastforce
  obtain ir where ir: "compilePattern re_ok (if mount_base pre = [] then ''/'' else mount_base pre) = Inr ir"
    using assms by (auto simp: mountInto_def Let_def split: sum.splits)
  have m: "mount_defs re_ok uh mw pooling (mount_base pre) (length (segments ir)) sub (su\<lparr>su_router := r\<rparr>) (sub_defs sub) = (su', Inr ())"
    using assms unfolding mountInto_def Let_def r ir by (auto split: if_splits sum.splits)
  have k: "defs r = defs (su_router su)" "rs_prefix r = rs_prefix (su_router su)"
    using r rebuild_keeps [of re_ok ?r1 mw r q] by (auto split: if_splits)
  have "mounted_def uh r (mount_base pre) (length (segments ir)) (sub_ws sub) = mounted_def uh (su_router su) (mount_base pre) (length (segments ir)) (sub_ws sub)"
    by (intro ext) (simp only: mounted_def_def make_def_prefix [OF k(2)])
  with mount_defs_defs [OF m] ir k(1) show ?thesis by simp
qed

section \<open>Scopes move with the mount\<close>

text \<open>A request path below the mount point: one non-empty segment for each segment of the prefix, then the path
  the sub-application was registered for.\<close>

definition below_mount :: "string list \<Rightarrow> string \<Rightarrow> string" where
  "below_mount bs p = concat (map (\<lambda>s. CHR ''/'' # s) bs) @ p"

lemma split_below:
  "\<forall>b \<in> set bs. CHR ''/'' \<notin> set b \<Longrightarrow> js_split CHR ''/'' (below_mount bs (CHR ''/'' # t)) = [] # bs @ js_split CHR ''/'' t"
proof -
  assume bs: "\<forall>b \<in> set bs. CHR ''/'' \<notin> set b"
  have "js_split CHR ''/'' (concat (map (\<lambda>s. CHR ''/'' # s) bs)) = [] # bs"
    using bs
  proof (induction bs rule: rev_induct)
    case (snoc b bs)
    then show ?case using js_split_append [of "CHR ''/''" "concat (map (\<lambda>s. CHR ''/'' # s) bs)" b]
      by (simp add: js_split_no_sep)
  qed simp
  then show ?thesis by (simp add: below_mount_def js_split_append)
qed

lemma pathSegments_below:
  assumes "\<forall>b \<in> set bs. b \<noteq> [] \<and> CHR ''/'' \<notin> set b" and "p = CHR ''/'' # t" and "t \<noteq> ''/''"
  shows "pathSegments (below_mount bs p) = map decodeSegment bs @ pathSegments p"
proof (cases "bs = []")
  case False
  note sp = split_below [of bs]
  have bs: "\<forall>b \<in> set bs. CHR ''/'' \<notin> set b" using assms(1) by blast
  have ne: "concat (map (\<lambda>s. CHR ''/'' # s) bs) \<noteq> []" using False by (cases bs) auto
  show ?thesis
  proof (cases "t = []")
    case True
    have n: "normalizePath (below_mount bs p) = concat (map (\<lambda>s. CHR ''/'' # s) bs)"
      using ne True assms(2) by (cases "concat (map (\<lambda>s. CHR ''/'' # s) bs)") (auto simp: normalizePath_def below_mount_def suffix_def)
    have "js_split CHR ''/'' (below_mount (butlast bs) (CHR ''/'' # last bs)) = [] # butlast bs @ js_split CHR ''/'' (last bs)"
      by (rule split_below) (use bs in \<open>auto dest: in_set_butlastD\<close>)
    moreover have "below_mount (butlast bs) (CHR ''/'' # last bs) = concat (map (\<lambda>s. CHR ''/'' # s) bs)"
      using False by (cases bs rule: rev_cases) (simp_all add: below_mount_def)
    moreover have "js_split CHR ''/'' (last bs) = [last bs]" using bs False by (simp add: js_split_no_sep)
    ultimately have "js_split CHR ''/'' (concat (map (\<lambda>s. CHR ''/'' # s) bs)) = [] # bs" using False by simp
    moreover have "\<not> (length bs = 1 \<and> hd bs = [])" using assms(1) False by (cases bs) auto
    moreover have "pathSegments p = []" using True assms(2) by (simp add: pathSegments_def normalizePath_def)
    ultimately show ?thesis using n by (auto simp: pathSegments_def Let_def)
  next
    case t: False
    let ?t = "if suffix ''/'' p then butlast t else t"
    have t': "?t \<noteq> []" using t assms(2,3) by (cases t rule: rev_cases) (auto simp: suffix_def)
    have sfx: "suffix ''/'' (c @ CHR ''/'' # t) = suffix ''/'' (CHR ''/'' # t)" for c
      using t by (cases t rule: rev_cases) (auto simp: suffix_def)
    have n: "normalizePath p = CHR ''/'' # ?t" "normalizePath (below_mount bs p) = below_mount bs (CHR ''/'' # ?t)"
      using t assms(2) ne sfx by (simp_all add: normalizePath_def below_mount_def butlast_append)
    have "\<not> (length (js_split CHR ''/'' ?t) = 1 \<and> hd (js_split CHR ''/'' ?t) = [])"
    proof
      assume "length (js_split CHR ''/'' ?t) = 1 \<and> hd (js_split CHR ''/'' ?t) = []"
      then have "js_split CHR ''/'' ?t = [[]]" by (cases "js_split CHR ''/'' ?t") auto
      with js_join_split [of "CHR ''/''" ?t] t' show False by (simp del: if_split)
    qed
    moreover have "length (bs @ js_split CHR ''/'' ?t) \<noteq> 1" using False by (cases bs) auto
    ultimately show ?thesis using sp [OF bs, of ?t] by (simp add: pathSegments_def n Let_def)
  qed
qed (simp add: below_mount_def)

lemma mw_runs_below:
  assumes "\<forall>b \<in> set bs. b \<noteq> [] \<and> CHR ''/'' \<notin> set b" and "p = CHR ''/'' # t" and "t \<noteq> ''/''"
  shows "mw_runs (below_mount bs p) (Conditional scope h (off + length bs)) = mw_runs p (Conditional scope h off)"
  by (simp add: mw_runs_def pathSegments_below [OF assms])

lemma route_layers_rebase:
  "route_layers route (off + n) ls = rebaseMountedMiddleware (route_layers route off ls) n"
  by (induction ls) (auto simp: rebaseMountedMiddleware_def split: option.split relation.split)

lemma rebase_runs:
  assumes "\<forall>b \<in> set bs. b \<noteq> [] \<and> CHR ''/'' \<notin> set b" and "p = CHR ''/'' # t" and "t \<noteq> ''/''"
  shows "map mw_handler (filter (mw_runs (below_mount bs p)) (rebaseMountedMiddleware ms (length bs)))
    = map mw_handler (filter (mw_runs p) ms)"
proof (induction ms)
  case (Cons m ms)
  show ?case
  proof (cases m)
    case (Plain h)
    with Cons show ?thesis by (simp add: rebaseMountedMiddleware_def mw_runs_def mw_handler_def)
  next
    case (Conditional scope h off)
    with Cons mw_runs_below [OF assms, of scope h off] show ?thesis
      by (simp add: rebaseMountedMiddleware_def mw_handler_def)
  qed
qed (simp add: rebaseMountedMiddleware_def)


definition guard_stack :: "nat mw_stack" where
  "guard_stack = addMiddleware createMiddlewareStack
     (Some \<lparr>sc_pattern = ''/admin/*'', sc_segments = [''admin''], sc_prefix = True\<rparr>) [7]"

definition demo_route :: "nat route_def" where
  "demo_route = \<lparr>rd_method = ''GET'', rd_path = ''/:section/x'', rd_handlers = [Plain 1], rd_name = None,
     rd_prefixMiddleware = [], rd_wsKey = None\<rparr>"

lemma guard_layers:
  "sub_middleware (\<lambda>_. True) (SubApp r guard_stack ws) (rd_path demo_route) n
    = Inr [Conditional \<lparr>sc_pattern = ''/admin/*'', sc_segments = [''admin''], sc_prefix = True\<rparr> 7 n]"
proof -
  have "is_ok (compilePattern (\<lambda>_. True) ''/:section/x'')"
    and "segments (projr (compilePattern (\<lambda>_. True) ''/:section/x''))
      = [\<lparr>kind = Param, seg_value = ''section'', seg_pattern = None, seg_optional = False\<rparr>, static_seg ''x'']"
    by code_simp+
  then obtain ir where "compilePattern (\<lambda>_. True) ''/:section/x'' = Inr ir"
    and "segments ir = [\<lparr>kind = Param, seg_value = ''section'', seg_pattern = None, seg_optional = False\<rparr>, static_seg ''x'']"
    by (auto simp: is_ok_iff)
  moreover have "layers guard_stack = [\<lparr>ly_scope = Some \<lparr>sc_pattern = ''/admin/*'', sc_segments = [''admin''], sc_prefix = True\<rparr>, ly_handler = 7\<rparr>]"
    by (simp add: guard_stack_def addMiddleware_def rebuildFallbacks_def createMiddlewareStack_def)
  ultimately show ?thesis
    by (simp add: sub_middleware_def middlewareForRoute_def demo_route_def routeRelation_def)
qed


text \<open>The prefix counts its pattern segments: below an optional parameter that a request leaves out, the scope
  test looks one segment too far, and a guard of the sub-application does not run.\<close>

lemma optional_prefix_skips_guard:
  "length (segments (projr (compilePattern (\<lambda>_. True) ''/:lang?''))) = 1"
  "mw_runs ''/admin/x'' (Conditional \<lparr>sc_pattern = ''/admin/*'', sc_segments = [''admin''], sc_prefix = True\<rparr> (7::nat) 0)"
  "\<not> mw_runs ''/admin/x'' (Conditional \<lparr>sc_pattern = ''/admin/*'', sc_segments = [''admin''], sc_prefix = True\<rparr> (7::nat) 1)"
  "word_matches (\<lambda>_ _. True) False [SParam ''section'' None, SStatic ''x''] (splitSegments ''/admin/x'')"
  "[SParam ''section'' None, SStatic ''x''] \<in> set (expand (segments (projr (compilePattern (\<lambda>_. True) ''/:lang?/:section/x''))))"
  by code_simp+

end
