(* ===== verification/Compose.thy ===== *)
theory Compose
  imports Prelude
begin

text \<open>
  Middleware composition, src/core/compose.ts. A handler is a program over the request's context: it may
  read and change the context, call \<open>next()\<close> and look at its outcome, return a value or throw. The model
  is the one of a handler that awaits its \<open>next()\<close> (or runs synchronously): the level that floats its
  downstream branch only registers it for the context pool (core/branches.ts), which is not modelled.
  Response objects carry an identity and the identity of their body stream.
\<close>

section \<open>Values and contexts\<close>

record response =
  rs_id :: "nat option"          \<comment> \<open>None: built by the framework after the handlers\<close>
  rs_status :: nat
  rs_statusText :: string
  rs_headers :: "(string \<times> string) list"
  rs_body :: "nat option"        \<comment> \<open>the body stream\<close>
  rs_immutable :: bool           \<comment> \<open>a fetched or redirected response\<close>

datatype handler_value = Undefined | Returned response | Thenable | OtherValue string

record 'u ctx =
  cx_res :: "response option"
  cx_dev :: bool                 \<comment> \<open>\<open>FLAG_DEV_CHAIN\<close>\<close>
  cx_stalled :: bool             \<comment> \<open>\<open>FLAG_CHAIN_STALLED\<close>\<close>
  cx_reached :: bool             \<comment> \<open>\<open>FLAG_ROUTE_REACHED\<close>\<close>
  cx_discarded :: "nat list"     \<comment> \<open>bodies cancelled by \<open>discardBody\<close>\<close>
  cx_user :: 'u

datatype 'c prog =
    Return handler_value
  | Raise js_error
  | Effect "'c \<Rightarrow> 'c" "'c prog"
  | Observe "'c \<Rightarrow> 'c prog"
  | Next "unit res \<Rightarrow> 'c prog"

type_synonym 'c outcome = "'c \<times> unit res"
type_synonym 'c next_fn = "'c \<Rightarrow> 'c outcome"
type_synonym 'c level = "'c next_fn \<Rightarrow> 'c \<Rightarrow> 'c outcome"

section \<open>Levels\<close>

definition NEXT_TWICE :: js_error where
  "NEXT_TWICE = PlainError ''next() called multiple times in the same middleware''"

text \<open>Running a handler with the guarded \<open>next\<close>: the flag is the level's \<open>advanced\<close>.\<close>

primrec run_prog :: "'c prog \<Rightarrow> 'c next_fn \<Rightarrow> bool \<Rightarrow> 'c \<Rightarrow> 'c \<times> bool \<times> handler_value res" where
  "run_prog (Return v) down advanced c = (c, advanced, ok v)"
| "run_prog (Raise e) down advanced c = (c, advanced, throw e)"
| "run_prog (Effect f p) down advanced c = run_prog p down advanced (f c)"
| "run_prog (Observe g) down advanced c = run_prog (g c) down advanced c"
| "run_prog (Next k) down advanced c =
     (if advanced then run_prog (k (throw NEXT_TWICE)) down advanced c
      else (case down c of (c1, r) \<Rightarrow> run_prog (k r) down True c1))"

definition discardBody :: "response \<Rightarrow> 'u ctx \<Rightarrow> 'u ctx" where
  "discardBody r c = (case rs_body r of None \<Rightarrow> c | Some b \<Rightarrow> c\<lparr>cx_discarded := cx_discarded c @ [b]\<rparr>)"

definition commit :: "'u ctx \<Rightarrow> handler_value \<Rightarrow> 'u ctx outcome" where
  "commit c ret =
     (case ret of
        Undefined \<Rightarrow> (c, ok ())
      | Returned r \<Rightarrow>
          (let c1 = (case cx_res c of None \<Rightarrow> c
                     | Some previous \<Rightarrow>
                         if previous \<noteq> r \<and> rs_body previous \<noteq> rs_body r then discardBody previous c else c)
           in (c1\<lparr>cx_res := Some r\<rparr>, ok ()))
      | Thenable \<Rightarrow> (c, throw (TypeError ''handler returned a promise''))
      | OtherValue t \<Rightarrow> (c, throw (TypeError (''handler returned '' @ t))))"

definition markStalled :: "'u ctx \<Rightarrow> bool \<Rightarrow> bool \<Rightarrow> handler_value \<Rightarrow> 'u ctx" where
  "markStalled c advanced hasDownstream result =
     (if advanced \<or> \<not> hasDownstream \<or> result \<noteq> Undefined \<or> \<not> cx_dev c then c else c\<lparr>cx_stalled := True\<rparr>)"

definition makeLevel :: "'u ctx prog \<Rightarrow> bool \<Rightarrow> 'u ctx level \<Rightarrow> 'u ctx level" where
  "makeLevel handler hasDownstream downstream tail c =
     (case run_prog handler (downstream tail) False c of
        (c1, _, Inl e) \<Rightarrow> (c1, throw e)
      | (c1, advanced, Inr v) \<Rightarrow>
          (case commit c1 v of
             (c2, Inl e) \<Rightarrow> (c2, throw e)
           | (c2, Inr _) \<Rightarrow> (markStalled c2 advanced hasDownstream v, ok ())))"

definition terminal :: "'c level" where "terminal tail c = tail c"

text \<open>The loop from the last handler: a level whose downstream is the terminal has no downstream.\<close>

fun compose :: "'u ctx prog list \<Rightarrow> 'u ctx level" where
  "compose [] = terminal"
| "compose (handler # rest) = makeLevel handler (rest \<noteq> []) (compose rest)"

definition NOOP_TAIL :: "'c next_fn" where "NOOP_TAIL c = (c, ok ())"

text \<open>The single-handler chain and the guarded handler it exposes to the dispatcher.\<close>

definition guarded :: "'u ctx prog \<Rightarrow> 'u ctx next_fn \<Rightarrow> 'u ctx \<Rightarrow> 'u ctx \<times> handler_value res" where
  "guarded handler tail c = (case run_prog handler tail False c of (c1, _, r) \<Rightarrow> (c1, r))"

definition direct :: "'u ctx prog \<Rightarrow> 'u ctx level" where
  "direct handler tail c =
     (case guarded handler tail c of (c1, Inl e) \<Rightarrow> (c1, throw e) | (c1, Inr v) \<Rightarrow> commit c1 v)"

section \<open>Invariants of a run\<close>

text \<open>A program whose own effects keep a predicate on contexts.\<close>

primrec keeps :: "('c \<Rightarrow> bool) \<Rightarrow> 'c prog \<Rightarrow> bool" where
  "keeps I (Return v) = True"
| "keeps I (Raise e) = True"
| "keeps I (Effect f p) = ((\<forall>c. I c \<longrightarrow> I (f c)) \<and> keeps I p)"
| "keeps I (Observe g) = (\<forall>c. keeps I (g c))"
| "keeps I (Next k) = (\<forall>r. keeps I (k r))"

lemma run_keeps:
  assumes "keeps I p" and "\<And>c. I c \<Longrightarrow> I (fst (down c))" and "I c"
  shows "I (fst (run_prog p down a c))"
  using assms(1,3)
proof (induction p arbitrary: a c)
  case (Next k)
  then show ?case using assms(2) [of c] by (auto simp: split_beta)
qed simp_all

text \<open>Predicates that neither the commit nor the stall mark can break.\<close>

definition stable :: "('u ctx \<Rightarrow> bool) \<Rightarrow> bool" where
  "stable I \<longleftrightarrow> (\<forall>c v. I c \<longrightarrow> I (fst (commit c v))) \<and> (\<forall>c a h v. I c \<longrightarrow> I (markStalled c a h v))"

lemma commit_user [simp]: "cx_user (fst (commit c v)) = cx_user c" "cx_dev (fst (commit c v)) = cx_dev c"
  "cx_stalled (fst (commit c v)) = cx_stalled c"
  by (auto simp: commit_def discardBody_def Let_def split: handler_value.split option.split)

lemma mark_user [simp]: "cx_user (markStalled c a h v) = cx_user c" "cx_dev (markStalled c a h v) = cx_dev c"
  "cx_res (markStalled c a h v) = cx_res c"
  by (simp_all add: markStalled_def)

lemma commit_res: "cx_res (fst (commit c v)) = (case v of Returned r \<Rightarrow> Some r | _ \<Rightarrow> cx_res c)"
  by (simp add: commit_def Let_def split: handler_value.split)

lemma stable_user: "stable (\<lambda>c. P (cx_user c) (cx_dev c))"
  by (simp add: stable_def)

lemma level_keeps:
  assumes "stable I" and "keeps I h" and "\<And>c. I c \<Longrightarrow> I (fst (down tail c))" and "I c"
  shows "I (fst (makeLevel h b down tail c))"
proof -
  obtain c1 a r where run: "run_prog h (down tail) False c = (c1, a, r)" by (metis prod_cases3)
  have c1: "I c1" using run_keeps [of I h "down tail" c False] assms(2-4) run by simp
  show ?thesis
  proof (cases r)
    case (Inr v)
    obtain c2 q where cm: "commit c1 v = (c2, q)" by fastforce
    have "I c2" using assms(1) c1 cm by (metis fst_conv stable_def)
    then show ?thesis using assms(1) by (cases q) (simp_all add: makeLevel_def run Inr cm stable_def)
  qed (use c1 run in \<open>simp add: makeLevel_def\<close>)
qed

lemma compose_keeps:
  assumes "stable I" and "\<forall>h \<in> set hs. keeps I h" and "\<And>c. I c \<Longrightarrow> I (fst (tail c))" and "I c"
  shows "I (fst (compose hs tail c))"
  using assms(2,4)
proof (induction hs arbitrary: c)
  case (Cons h hs)
  then show ?case using level_keeps [OF assms(1), of h "compose hs" tail c] by simp
qed (simp add: terminal_def assms(3))

lemma keeps_conj: "keeps I p \<Longrightarrow> keeps J p \<Longrightarrow> keeps (\<lambda>c. I c \<and> J c) p"
  by (induction p) simp_all

lemma keeps_disj: "keeps I p \<Longrightarrow> keeps J p \<Longrightarrow> keeps (\<lambda>c. I c \<or> J c) p"
  by (induction p) auto

section \<open>Chains compose\<close>

lemma run_cong:
  assumes "keeps I p" and "\<And>c. I c \<Longrightarrow> down c = down' c \<and> I (fst (down c))" and "I c"
  shows "run_prog p down a c = run_prog p down' a c"
  using assms(1,3)
proof (induction p arbitrary: a c)
  case (Next k)
  then show ?case using assms(2) [of c] by (auto simp: split_beta)
qed simp_all

definition production :: "'u ctx \<Rightarrow> bool" where "production c \<longleftrightarrow> \<not> cx_dev c"

lemma stable_production: "stable production"
  by (simp add: stable_def production_def)

text \<open>Levels over downstreams that agree on an invariant of production contexts.\<close>

lemma level_cong_on:
  assumes I: "stable I" "\<And>c. I c \<Longrightarrow> production c" and "keeps I h" and "I c"
    and down: "\<And>c. I c \<Longrightarrow> down tail c = down' tail' c \<and> I (fst (down tail c))"
  shows "makeLevel h b down tail c = makeLevel h b' down' tail' c"
proof -
  have eq: "run_prog h (down tail) False c = run_prog h (down' tail') False c"
    by (rule run_cong [OF assms(3) _ assms(4)]) (use down in blast)
  obtain c1 a r where run: "run_prog h (down' tail') False c = (c1, a, r)" by (metis prod_cases3)
  have "I d \<Longrightarrow> I (fst (down' tail' d))" for d using down by metis
  then have "I c1"
    using run_keeps [of I h "down' tail'" c False] assms(3,4) run by simp
  moreover have mark: "markStalled c2 x y v = c2" if "I c2" for c2 x y v
    using I(2) [OF that] by (simp add: markStalled_def production_def)
  moreover have "I (fst (commit c1 v))" for v
    using \<open>I c1\<close> I(1) by (simp add: stable_def)
  ultimately have "snd (commit c1 v) = Inr () \<longrightarrow> markStalled (fst (commit c1 v)) a x v = fst (commit c1 v)" for v x
    by blast
  then show ?thesis unfolding makeLevel_def eq run
    by (auto split: sum.split prod.split) (metis fst_conv snd_conv old.unit.exhaust)+
qed

lemma level_cong:
  assumes "keeps production h" and "production c"
    and "\<And>c. production c \<Longrightarrow> down tail c = down' tail' c \<and> production (fst (down tail c))"
  shows "makeLevel h b down tail c = makeLevel h b' down' tail' c"
  by (rule level_cong_on [where I = production, OF stable_production]) (use assms in blast)+

text \<open>Composing two handler lists in one chain is running the first chain with the second as its
  tail: the chain of a route behaves as the application's middleware around the route's handlers.\<close>

lemma compose_append:
  assumes "\<forall>h \<in> set (xs @ ys). keeps production h" and "\<And>c. production c \<Longrightarrow> production (fst (tail c))"
    and "production c"
  shows "compose (xs @ ys) tail c = compose xs (compose ys tail) c"
  using assms(1,3)
proof (induction xs arbitrary: c)
  case Nil
  then show ?case by (simp add: terminal_def)
next
  case (Cons h xs)
  have "production (fst (compose (xs @ ys) tail d))" if "production d" for d
    by (rule compose_keeps [OF stable_production _ assms(2) that]) (use Cons.prems in auto)
  then show ?case using Cons by (simp, intro level_cong) auto
qed

lemma direct_eq_compose: "direct h = compose [h]"
proof (intro ext)
  fix tail :: "'a ctx next_fn" and c
  have "terminal tail = tail" by (simp add: fun_eq_iff terminal_def)
  then show "direct h tail c = compose [h] tail c"
    by (simp add: direct_def guarded_def makeLevel_def markStalled_def split: prod.split sum.split)
qed

section \<open>Order\<close>

text \<open>Handlers that log their position when they start.\<close>

definition logged :: "nat \<Rightarrow> nat list ctx prog \<Rightarrow> nat list ctx prog" where
  "logged i p = Effect (\<lambda>c. c\<lparr>cx_user := cx_user c @ [i]\<rparr>) p"

fun numbered :: "nat \<Rightarrow> nat list ctx prog list \<Rightarrow> nat list ctx prog list" where
  "numbered i [] = []"
| "numbered i (h # hs) = logged i h # numbered (Suc i) hs"

text \<open>The handler itself leaves the log alone.\<close>

definition silent :: "nat list ctx prog \<Rightarrow> bool" where
  "silent p \<longleftrightarrow> (\<forall>l. keeps (\<lambda>c. cx_user c = l) p)"

lemma silent_simps:
  "silent (Effect f p) \<longleftrightarrow> (\<forall>c. cx_user (f c) = cx_user c) \<and> silent p"
  "silent (Observe g) \<longleftrightarrow> (\<forall>c. silent (g c))" "silent (Next k) \<longleftrightarrow> (\<forall>r. silent (k r))"
  by (auto simp: silent_def)

lemma run_logs:
  assumes "silent p" and "\<And>c. \<exists>d \<in> D. cx_user (fst (down c)) = cx_user c @ d"
  shows "(a \<longrightarrow> cx_user (fst (run_prog p down a c)) = cx_user c)
    \<and> (\<exists>d \<in> insert [] D. cx_user (fst (run_prog p down a c)) = cx_user c @ d)"
  using assms(1)
proof (induction p arbitrary: a c)
  case (Effect f p)
  with Effect.IH [of a "f c"] show ?case by (simp add: silent_simps)
next
  case (Next k)
  show ?case
  proof (cases a)
    case True
    with Next show ?thesis by (simp add: silent_simps)
  next
    case False
    obtain c1 r where d: "down c = (c1, r)" by fastforce
    have "cx_user (fst (run_prog (k r) down True c1)) = cx_user c1" using Next by (simp add: silent_simps)
    with assms(2) [of c] d False show ?thesis by auto
  qed
qed (simp_all add: silent_simps)

lemma level_user:
  "cx_user (fst (makeLevel h b down tail c)) = cx_user (fst (run_prog h (down tail) False c))"
proof -
  obtain c1 a r where run: "run_prog h (down tail) False c = (c1, a, r)" by (metis prod_cases3)
  show ?thesis
  proof (cases r)
    case (Inr v)
    obtain c2 q where "commit c1 v = (c2, q)" by fastforce
    then show ?thesis using commit_user(1) [of c1 v] by (cases q) (simp_all add: makeLevel_def run Inr)
  qed (simp add: makeLevel_def run)
qed

lemma compose_logs:
  assumes "\<forall>h \<in> set hs. silent h" and "\<And>c. cx_user (fst (tail c)) = cx_user c"
  shows "\<exists>k. i \<le> k \<and> k \<le> i + length hs
    \<and> cx_user (fst (compose (numbered i hs) tail c)) = cx_user c @ [i..<k]"
  using assms(1)
proof (induction hs arbitrary: i c)
  case (Cons h hs)
  let ?down = "compose (numbered (Suc i) hs) tail" and ?c = "c\<lparr>cx_user := cx_user c @ [i]\<rparr>"
  let ?D = "{[Suc i..<k] |k. Suc i \<le> k \<and> k \<le> Suc i + length hs}"
  have h: "silent h" using Cons.prems by simp
  have "\<exists>d \<in> ?D. cx_user (fst (?down c')) = cx_user c' @ d" for c'
    using Cons.IH [of "Suc i" c'] Cons.prems by auto
  from conjunct2 [OF run_logs [OF h this, of False ?c]]
  obtain d where d: "d \<in> insert [] ?D" "cx_user (fst (run_prog h ?down False ?c)) = cx_user c @ [i] @ d"
    by (elim bexE) simp
  then have "\<exists>k. i \<le> k \<and> k \<le> i + length (h # hs) \<and> [i] @ d = [i..<k]"
  proof (cases "d = []")
    case True
    then show ?thesis by (intro exI [of _ "Suc i"]) simp
  next
    case False
    with d(1) obtain k where "d = [Suc i..<k]" "Suc i \<le> k" "k \<le> Suc i + length hs" by auto
    then show ?thesis by (intro exI [of _ k]) (simp add: upt_conv_Cons)
  qed
  then show ?case using d(2) by (auto simp: level_user logged_def)
next
  case Nil
  then show ?case by (intro exI [of _ i]) (simp add: terminal_def assms(2))
qed

text \<open>C34: whatever the handlers do, a chain runs each of them at most once per request, in registration
  order and without skipping one.\<close>

theorem onion_order:
  assumes "\<forall>h \<in> set hs. silent h" and "cx_user c = []"
  shows "\<exists>k \<le> length hs. cx_user (fst (compose (numbered 0 hs) NOOP_TAIL c)) = [0..<k]"
  using compose_logs [OF assms(1), of NOOP_TAIL 0 c] assms(2) by (auto simp: NOOP_TAIL_def)

text \<open>Three handlers: one that awaits the chain, one that answers, one never reached.\<close>

definition demo_chain :: "nat list ctx prog list" where
  "demo_chain = [Next (\<lambda>_. Return Undefined),
     Return (Returned \<lparr>rs_id = Some 1, rs_status = 200, rs_statusText = '''', rs_headers = [], rs_body = Some 1, rs_immutable = False\<rparr>),
     Return Undefined]"

definition demo_ctx :: "bool \<Rightarrow> nat list ctx" where
  "demo_ctx dev = \<lparr>cx_res = None, cx_dev = dev, cx_stalled = False, cx_reached = False, cx_discarded = [], cx_user = []\<rparr>"

lemma onion_order_witness:
  "\<exists>k \<le> length demo_chain. cx_user (fst (compose (numbered 0 demo_chain) NOOP_TAIL (demo_ctx False))) = [0..<k]"
  by (rule onion_order) (simp_all add: demo_chain_def demo_ctx_def silent_def)

lemma compose_append_witness:
  "compose (demo_chain @ demo_chain) NOOP_TAIL (demo_ctx False)
     = compose demo_chain (compose demo_chain NOOP_TAIL) (demo_ctx False)"
  by (rule compose_append) (auto simp: demo_chain_def demo_ctx_def NOOP_TAIL_def production_def)

section \<open>Stall detection\<close>

text \<open>A handler that never throws and returns nothing or a response.\<close>

primrec no_raise :: "'c prog \<Rightarrow> bool" where
  "no_raise (Return v) = (case v of Undefined \<Rightarrow> True | Returned _ \<Rightarrow> True | _ \<Rightarrow> False)"
| "no_raise (Raise e) = False"
| "no_raise (Effect f p) = no_raise p"
| "no_raise (Observe g) = (\<forall>c. no_raise (g c))"
| "no_raise (Next k) = (\<forall>r. no_raise (k r))"

lemma run_no_raise:
  "no_raise p \<Longrightarrow> \<exists>c1 a v. run_prog p down b c = (c1, a, Inr v) \<and> (v = Undefined \<or> (\<exists>r. v = Returned r))"
proof (induction p arbitrary: b c)
  case (Return v)
  then show ?case by (cases v) simp_all
next
  case (Next k)
  then show ?case by (auto simp: split_beta)
qed auto

lemma commit_ok: "v = Undefined \<or> (\<exists>r. v = Returned r) \<Longrightarrow> snd (commit c v) = Inr ()"
  by (auto simp: commit_def)

text \<open>What holds after the downstream ran and is kept by the handler holds when it settles.\<close>

lemma run_advanced:
  assumes "keeps P p" and "keeps Q p" and "\<And>c. P c \<Longrightarrow> Q (fst (down c))" and "P c"
    and "run_prog p down False c = (c1, True, r)"
  shows "Q c1"
  using assms(1,2,4,5)
proof (induction p arbitrary: c)
  case (Next k)
  obtain c2 q where d: "down c = (c2, q)" by fastforce
  have late: "keeps Q p' \<Longrightarrow> Q c \<Longrightarrow> Q (fst (run_prog p' down True c))" for p' c
    by (induction p' arbitrary: c) simp_all
  have "Q c2" using assms(3) [OF Next.prems(3)] d by simp
  with late [of "k q" c2] Next.prems(2,4) d show ?case by simp
qed auto

definition answered :: "'u ctx \<Rightarrow> bool" where
  "answered c \<longleftrightarrow> cx_stalled c \<or> cx_res c \<noteq> None"

lemma stable_answered: "stable answered"
  unfolding stable_def answered_def
  by (auto simp: commit_res markStalled_def split: handler_value.split)

text \<open>The handlers a dev chain consists of: they leave the flags and the slot alone.\<close>

definition well_behaved :: "nat list ctx prog \<Rightarrow> bool" where
  "well_behaved h \<longleftrightarrow> no_raise h \<and> silent h \<and> keeps cx_dev h \<and> keeps answered h"

lemma compose_stall:
  assumes "\<forall>h \<in> set hs. well_behaved h" and "cx_dev c" and "hs \<noteq> []"
  shows "let c' = fst (compose (numbered i hs) NOOP_TAIL c)
    in answered c' \<or> cx_user c' = cx_user c @ [i..<i + length hs]"
  using assms
proof (induction hs arbitrary: i c)
  case (Cons h hs)
  let ?down = "compose (numbered (Suc i) hs) NOOP_TAIL" and ?c = "c\<lparr>cx_user := cx_user c @ [i]\<rparr>"
  let ?full = "\<lambda>c'. cx_user c' = cx_user c @ [i..<i + length (h # hs)]"
  let ?P = "\<lambda>c'. cx_dev c' \<and> cx_user c' = cx_user c @ [i]"
  have h: "no_raise h" "silent h" "keeps cx_dev h" "keeps answered h"
    using Cons.prems(1) by (simp_all add: well_behaved_def)
  have kP: "keeps ?P h" using keeps_conj [OF h(3)] h(2) by (simp add: silent_def)
  have kQ: "keeps (\<lambda>c'. answered c' \<or> ?full c') h" using keeps_disj [OF h(4)] h(2) by (simp add: silent_def)
  have Pc: "?P ?c" using Cons.prems(2) by simp
  obtain c1 a v where run: "run_prog h ?down False ?c = (c1, a, Inr v)"
    and v: "v = Undefined \<or> (\<exists>r. v = Returned r)" using run_no_raise [OF h(1)] by metis
  have settle: "fst (makeLevel h b (compose (numbered (Suc i) hs)) NOOP_TAIL ?c) = markStalled (fst (commit c1 v)) a b v" for b
    using commit_ok [OF v, of c1] by (cases "commit c1 v") (simp add: makeLevel_def run)
  have "compose (numbered i (h # hs)) NOOP_TAIL c = makeLevel h (numbered (Suc i) hs \<noteq> []) (compose (numbered (Suc i) hs)) NOOP_TAIL ?c"
    by (simp add: logged_def makeLevel_def)
  then have goal: "fst (compose (numbered i (h # hs)) NOOP_TAIL c)
      = markStalled (fst (commit c1 v)) a (numbered (Suc i) hs \<noteq> []) v" by (simp only: settle)
  have ends: "answered c1 \<or> ?full c1 \<Longrightarrow>
    answered (markStalled (fst (commit c1 v)) a b v) \<or> ?full (markStalled (fst (commit c1 v)) a b v)" for b
    using stable_answered by (auto simp: stable_def)
  have down: "answered (fst (?down c')) \<or> ?full (fst (?down c'))" if "?P c'" for c'
  proof (cases "hs = []")
    case True
    then show ?thesis using that by (simp add: terminal_def NOOP_TAIL_def)
  next
    case False
    then show ?thesis using Cons.IH [of c' "Suc i"] Cons.prems(1) that
      by (simp add: Let_def upt_conv_Cons del: upt_Suc)
  qed
  show ?case
  proof (cases a)
    case True
    have "run_prog h ?down False ?c = (c1, True, Inr v)" using run True by simp
    from run_advanced [OF kP kQ down Pc this] have "answered c1 \<or> ?full c1" by blast
    from ends [OF this] show ?thesis unfolding Let_def goal .
  next
    case False
    have noadv: "a = False \<Longrightarrow> run_prog p d False c0 = (c1, a, q) \<Longrightarrow> keeps R p \<Longrightarrow> R c0 \<Longrightarrow> R c1" for p d c0 q R
    proof (induction p arbitrary: c0)
      case (Next k)
      have "fst (snd (run_prog p' d True c')) = True" for p' c' by (induction p' arbitrary: c') simp_all
      with Next.prems(1,2) show ?case by (auto simp: split_beta) (metis fst_conv snd_conv)+
    qed auto
    from noadv [OF _ run kP Pc] False have P1: "?P c1" by simp
    show ?thesis
    proof (cases "v = Undefined")
      case True
      show ?thesis
      proof (cases hs)
        case Nil
        with P1 goal ends show ?thesis by (simp add: Let_def)
      next
        case (Cons g gs)
        with P1 goal True False show ?thesis
          by (simp add: Let_def answered_def markStalled_def commit_def)
      qed
    next
      case False
      with v obtain r where "v = Returned r" by blast
      with goal show ?thesis by (simp add: Let_def answered_def commit_res)
    qed
  qed
qed simp

text \<open>The development-mode stall warning is complete: when a chain of handlers that do not throw
  settles with neither a response nor the stall mark, every handler of the chain ran.\<close>

lemma stall_reported:
  assumes "\<forall>h \<in> set hs. well_behaved h" and "cx_dev c" and "hs \<noteq> []" and "cx_user c = []"
    and "c' = fst (compose (numbered 0 hs) NOOP_TAIL c)" and "cx_res c' = None" and "\<not> cx_stalled c'"
  shows "cx_user c' = [0..<length hs]"
  using compose_stall [OF assms(1-3), of 0] assms(4-7) by (simp add: Let_def answered_def)

lemma stall_reported_witness:
  "cx_user (fst (compose (numbered 0 [Next (\<lambda>_. Return Undefined), Return Undefined]) NOOP_TAIL (demo_ctx True))) = [0, 1]"
  using stall_reported [OF _ _ _ _ refl, of "[Next (\<lambda>_. Return Undefined), Return Undefined]" "demo_ctx True"]
  by (simp add: well_behaved_def silent_def demo_ctx_def makeLevel_def logged_def terminal_def NOOP_TAIL_def
      commit_def markStalled_def)

end
