(* ===== verification/Headers.thy ===== *)
theory Headers
  imports Compose Strings
begin

text \<open>
  Response headers: the runtime's \<open>Headers\<close> object (a list of lower-case names with their values, in order), the
  validation of names and values (src/utils/text.ts), and the staged-or-committed header operations of
  the context (src/core/context/headers.ts). Before a response is committed writes go to the staged record;
  afterwards to the committed response, mirrored where the code mirrors.
\<close>

section \<open>The Headers object\<close>

type_synonym headers = "(string \<times> string) list"

definition h_has :: "headers \<Rightarrow> string \<Rightarrow> bool" where
  "h_has h name \<longleftrightarrow> to_lower name \<in> fst ` set h"

definition h_values :: "headers \<Rightarrow> string \<Rightarrow> string list" where
  "h_values h name = map snd (filter (\<lambda>(n, _). n = to_lower name) h)"

definition h_get :: "headers \<Rightarrow> string \<Rightarrow> string option" where
  "h_get h name = (if h_values h name = [] then None else Some (js_join '', '' (h_values h name)))"

definition h_delete :: "string \<Rightarrow> headers \<Rightarrow> headers" where
  "h_delete name h = filter (\<lambda>(n, _). n \<noteq> to_lower name) h"

definition h_append :: "string \<Rightarrow> string \<Rightarrow> headers \<Rightarrow> headers" where
  "h_append name v h = h @ [(to_lower name, v)]"

text \<open>\<open>set\<close>: the first entry of the name takes the value and the others go.\<close>

fun h_set_first :: "string \<Rightarrow> string \<Rightarrow> headers \<Rightarrow> headers" where
  "h_set_first n v [] = []"
| "h_set_first n v ((m, w) # h) = (if m = n then (n, v) # filter (\<lambda>(k, _). k \<noteq> n) h else (m, w) # h_set_first n v h)"

definition h_set :: "string \<Rightarrow> string \<Rightarrow> headers \<Rightarrow> headers" where
  "h_set name v h = (if h_has h name then h_set_first (to_lower name) v h else h_append name v h)"

section \<open>Validation\<close>

definition FORBIDDEN_NAMES :: "string list" where
  "FORBIDDEN_NAMES = [''__proto__'', ''constructor'', ''prototype'']"

definition token_char :: "char \<Rightarrow> bool" where
  "token_char c \<longleftrightarrow> c \<in> set ''!#$%&*+-.^_`|~'' \<or> c = CHR 0x27 \<or> is_digit c
     \<or> (let n = of_char c :: nat in 65 \<le> n \<and> n \<le> 90 \<or> 97 \<le> n \<and> n \<le> 122)"

definition is_token :: "string \<Rightarrow> bool" where
  "is_token s \<longleftrightarrow> s \<noteq> [] \<and> list_all token_char s"

text \<open>The memo of the code returns what the first call computed.\<close>

definition validateHeaderName :: "string \<Rightarrow> string res" where
  "validateHeaderName name =
     (if name = [] \<or> name \<in> set FORBIDDEN_NAMES \<or> \<not> list_all token_char name
      then throw (TypeError ''Invalid header field name'') else ok (to_lower name))"

text \<open>Code units above 0xFF are the characters whose UTF-8 form starts with a byte from 0xC4 up.\<close>

fun validateHeaderValue :: "string \<Rightarrow> unit res" where
  "validateHeaderValue [] = ok ()"
| "validateHeaderValue (c # s) =
     (let code = of_char c :: nat in
      if code = 13 \<or> code = 10 \<or> code = 0
      then throw (TypeError ''Invalid character in header content: CR/LF/NUL are not allowed'')
      else if code < 32 \<and> code \<noteq> 9 \<or> code = 127
      then throw (TypeError ''Invalid character in header content: control bytes are not field-content'')
      else if 196 \<le> code
      then throw (TypeError ''Invalid character in header content: values must be latin-1'')
      else validateHeaderValue s)"

fun validate_all :: "string list \<Rightarrow> unit res" where
  "validate_all [] = ok ()"
| "validate_all (v # vs) = res_bind (validateHeaderValue v) (\<lambda>_. validate_all vs)"

definition hasCrlf :: "string \<Rightarrow> bool" where
  "hasCrlf s \<longleftrightarrow> list_ex (\<lambda>c. (of_char c :: nat) \<in> {13, 10, 0}) s"

section \<open>Header operations of the context\<close>

type_synonym header_map = "(string, header_entry) js_map"

datatype header_arg = HAbsent | HScalar string | HText string | HList "string list"

record hdr_state =
  hs_record :: "header_map option"   \<comment> \<open>\<open>headersRecord\<close>\<close>
  hs_res :: "response option"        \<comment> \<open>the commit slot\<close>

definition stagedHeadersOf :: "hdr_state \<Rightarrow> header_map" where
  "stagedHeadersOf c = (case hs_record c of None \<Rightarrow> [] | Some r \<Rightarrow> r)"

definition isSingleton :: "string \<Rightarrow> bool" where
  "isSingleton name \<longleftrightarrow> name = ''content-type'' \<or> name = ''content-length''"

definition MIRROR_FORBIDDEN :: "string list" where
  "MIRROR_FORBIDDEN = [''content-type'', ''content-length'', ''transfer-encoding'', ''content-encoding'']"

definition IMMUTABLE :: js_error where
  "IMMUTABLE = TypeError ''cannot write headers of the committed response''"

definition with_headers :: "response \<Rightarrow> (headers \<Rightarrow> headers) \<Rightarrow> response" where
  "with_headers r f = r\<lparr>rs_headers := f (rs_headers r)\<rparr>"

definition entry_values :: "header_entry \<Rightarrow> string list" where
  "entry_values e = (case e of One v \<Rightarrow> [v] | Many vs \<Rightarrow> vs)"

definition committedSet :: "response \<Rightarrow> string \<Rightarrow> header_entry \<Rightarrow> response res" where
  "committedSet r name value =
     (if rs_immutable r then throw IMMUTABLE
      else ok (with_headers r (\<lambda>h. case value of
          Many vs \<Rightarrow> fold (h_append name) vs (h_delete name h)
        | One v \<Rightarrow> h_set name v (h_delete name h))))"

definition stage :: "string \<Rightarrow> header_entry \<Rightarrow> hdr_state \<Rightarrow> hdr_state" where
  "stage name e c = c\<lparr>hs_record := Some (jm_set name e (stagedHeadersOf c))\<rparr>"

definition mirrors :: "string \<Rightarrow> bool" where
  "mirrors name \<longleftrightarrow> name \<noteq> ''set-cookie'' \<and> name \<notin> set MIRROR_FORBIDDEN"

text \<open>A write of a validated value: in place after the commit, staged before it.\<close>

definition write_header :: "hdr_state \<Rightarrow> string \<Rightarrow> header_entry \<Rightarrow> hdr_state \<times> unit res" where
  "write_header c name e =
     (case hs_res c of
        None \<Rightarrow> (stage name e c, ok ())
      | Some r \<Rightarrow> (case committedSet r name e of
          Inl err \<Rightarrow> (c, throw err)
        | Inr r1 \<Rightarrow> (let c1 = c\<lparr>hs_res := Some r1\<rparr> in (if mirrors name then stage name e c1 else c1, ok ()))))"

definition setResponseHeader :: "hdr_state \<Rightarrow> string \<Rightarrow> header_arg \<Rightarrow> hdr_state \<times> unit res" where
  "setResponseHeader c field value =
     (case value of
        HAbsent \<Rightarrow> (c, ok ())
      | HList vs \<Rightarrow> (case validateHeaderName field of
          Inl e \<Rightarrow> (c, throw e)
        | Inr name \<Rightarrow>
            if isSingleton name then (c, throw (TypeError ''a singleton header cannot be set to an array''))
            else (case validate_all vs of Inl e \<Rightarrow> (c, throw e) | Inr _ \<Rightarrow> write_header c name (Many vs)))
      | HScalar v \<Rightarrow> (case validateHeaderName field of
          Inl e \<Rightarrow> (c, throw e)
        | Inr name \<Rightarrow> (case validateHeaderValue v of Inl e \<Rightarrow> (c, throw e) | Inr _ \<Rightarrow> write_header c name (One v)))
      | HText v \<Rightarrow> (case validateHeaderName field of
          Inl e \<Rightarrow> (c, throw e)
        | Inr name \<Rightarrow> (case validateHeaderValue v of Inl e \<Rightarrow> (c, throw e) | Inr _ \<Rightarrow> write_header c name (One v))))"

text \<open>The record form: the fields in order, stopping at the first error.\<close>

fun setResponseHeaders :: "hdr_state \<Rightarrow> (string \<times> header_arg) list \<Rightarrow> hdr_state \<times> unit res" where
  "setResponseHeaders c [] = (c, ok ())"
| "setResponseHeaders c ((k, v) # rest) =
     (case setResponseHeader c k v of (c1, Inl e) \<Rightarrow> (c1, throw e) | (c1, Inr _) \<Rightarrow> setResponseHeaders c1 rest)"

definition appendResponseHeader :: "hdr_state \<Rightarrow> string \<Rightarrow> string list \<Rightarrow> hdr_state \<times> unit res" where
  "appendResponseHeader c field values =
     (case validateHeaderName field of
        Inl e \<Rightarrow> (c, throw e)
      | Inr name \<Rightarrow> (case validate_all values of
          Inl e \<Rightarrow> (c, throw e)
        | Inr _ \<Rightarrow>
            if isSingleton name \<and> 1 < length values
            then (c, throw (TypeError ''a singleton header cannot be set to an array''))
            else (case hs_res c of
              Some r \<Rightarrow>
                if isSingleton name \<and> h_get (rs_headers r) name \<noteq> None
                then (c, throw (TypeError ''a singleton header cannot be appended to''))
                else if rs_immutable r \<and> values \<noteq> [] then (c, throw IMMUTABLE)
                else (let c1 = c\<lparr>hs_res := Some (with_headers r (fold (h_append name) values))\<rparr> in
                  case jm_get (stagedHeadersOf c) name of
                    None \<Rightarrow> (c1, ok ())
                  | Some staged \<Rightarrow>
                      if name \<noteq> ''set-cookie'' then (stage name (Many (entry_values staged @ values)) c1, ok ())
                      else (c1, ok ()))
            | None \<Rightarrow>
                (case jm_get (stagedHeadersOf c) name of
                   Some existing \<Rightarrow>
                     if isSingleton name then (c, throw (TypeError ''a singleton header cannot be appended to''))
                     else (stage name (Many (entry_values existing @ values)) c, ok ())
                 | None \<Rightarrow> (stage name (case values of [v] \<Rightarrow> One v | _ \<Rightarrow> Many values) c, ok ())))))"

definition removeResponseHeader :: "hdr_state \<Rightarrow> string \<Rightarrow> hdr_state \<times> unit res" where
  "removeResponseHeader c field =
     (let name = to_lower field; c1 = c\<lparr>hs_record := map_option (jm_delete name) (hs_record c)\<rparr> in
      case hs_res c1 of
        None \<Rightarrow> (c1, ok ())
      | Some r \<Rightarrow> if rs_immutable r then (c1, throw IMMUTABLE)
                  else (c1\<lparr>hs_res := Some (with_headers r (h_delete name))\<rparr>, ok ()))"

definition committedHeader :: "hdr_state \<Rightarrow> string \<Rightarrow> string option" where
  "committedHeader c field = (case hs_res c of None \<Rightarrow> None | Some r \<Rightarrow> h_get (rs_headers r) field)"

definition hasResponseHeader :: "hdr_state \<Rightarrow> string \<Rightarrow> bool" where
  "hasResponseHeader c field \<longleftrightarrow>
     jm_get (stagedHeadersOf c) (to_lower field) \<noteq> None \<or> committedHeader c field \<noteq> None"

definition responseHeaderValue :: "hdr_state \<Rightarrow> string \<Rightarrow> string" where
  "responseHeaderValue c field =
     (case jm_get (stagedHeadersOf c) (to_lower field) of
        Some e \<Rightarrow> js_join '', '' (entry_values e)
      | None \<Rightarrow> (case committedHeader c field of None \<Rightarrow> [] | Some v \<Rightarrow> v))"

section \<open>Laws of the Headers object\<close>

lemma char_lower_idem [simp]: "char_lower (char_lower c) = char_lower c"
  by (auto simp: char_lower_def)

lemma to_lower_idem [simp]: "to_lower (to_lower s) = to_lower s"
  by (simp add: to_lower_def)

lemma filter_name_other:
  "filter (\<lambda>(n, _). n = k) (filter (\<lambda>(n, _). n \<noteq> l) h) = (if k = l then [] else filter (\<lambda>(n, _). n = k) h)"
  by (induction h) auto

lemma h_values_delete [simp]: "h_values (h_delete n h) m = (if to_lower m = to_lower n then [] else h_values h m)"
  by (simp add: h_values_def h_delete_def filter_name_other del: filter_filter)

lemma h_values_append [simp]:
  "h_values (h_append n v h) m = h_values h m @ (if to_lower m = to_lower n then [v] else [])"
  by (simp add: h_values_def h_append_def)

lemma h_values_fold_append [simp]:
  "h_values (fold (h_append n) vs h) m = h_values h m @ (if to_lower m = to_lower n then vs else [])"
  by (induction vs arbitrary: h) auto

lemma h_has_values: "h_has h n \<longleftrightarrow> h_values h n \<noteq> []"
  by (induction h) (auto simp: h_has_def h_values_def)

lemma h_values_set_first:
  "h_has h n \<Longrightarrow> h_values (h_set_first (to_lower n) v h) m = (if to_lower m = to_lower n then [v] else h_values h m)"
proof (induction h)
  case (Cons p h)
  obtain k w where p: "p = (k, w)" by (cases p)
  show ?case
  proof (cases "k = to_lower n")
    case True
    then show ?thesis by (simp add: p h_values_def filter_name_other del: filter_filter)
  next
    case False
    then show ?thesis using Cons p by (auto simp: h_has_def h_values_def)
  qed
qed (simp add: h_has_def)

lemma h_values_set [simp]: "h_values (h_set n v h) m = (if to_lower m = to_lower n then [v] else h_values h m)"
  by (auto simp: h_set_def h_values_set_first) (simp_all add: h_has_values h_values_def)

lemma validateHeaderName_lower: "validateHeaderName f = Inr n \<Longrightarrow> n = to_lower f \<and> to_lower n = n"
  by (auto simp: validateHeaderName_def split: if_splits)

section \<open>No response splitting\<close>

text \<open>Everything the operations write is a token name and a value without CR, LF and NUL.\<close>

definition clean_value :: "string \<Rightarrow> bool" where "clean_value v \<longleftrightarrow> \<not> hasCrlf v"

definition clean_headers :: "headers \<Rightarrow> bool" where
  "clean_headers h \<longleftrightarrow> (\<forall>(n, v) \<in> set h. is_token n \<and> clean_value v)"

definition clean_record :: "header_map \<Rightarrow> bool" where
  "clean_record m \<longleftrightarrow> (\<forall>(n, e) \<in> set m. is_token n \<and> to_lower n = n \<and> list_all clean_value (entry_values e))"

definition clean_state :: "hdr_state \<Rightarrow> bool" where
  "clean_state c \<longleftrightarrow> clean_record (stagedHeadersOf c)
     \<and> (case hs_res c of None \<Rightarrow> True | Some r \<Rightarrow> clean_headers (rs_headers r))"

lemma validate_clean: "validateHeaderValue v = Inr () \<Longrightarrow> clean_value v"
  by (induction v rule: validateHeaderValue.induct) (auto simp: clean_value_def hasCrlf_def Let_def split: if_splits)

lemma validate_all_clean: "validate_all vs = Inr () \<Longrightarrow> list_all clean_value vs"
  by (induction vs) (auto simp: res_bind_ok validate_clean)

lemma token_lower: "token_char c \<Longrightarrow> token_char (char_lower c)"
proof (cases "(of_char c :: nat) \<in> {65..90}")
  case True
  then show "token_char (char_lower c)" by (simp add: char_lower_def token_char_def Let_def)
next
  case False
  moreover assume "token_char c"
  ultimately show "token_char (char_lower c)" by (simp only: char_lower_def if_False)
qed

lemma validateHeaderName_token: "validateHeaderName f = Inr n \<Longrightarrow> is_token n \<and> to_lower n = n"
  using token_lower
  by (auto simp: validateHeaderName_def is_token_def to_lower_def list_all_iff split: if_splits)

lemma clean_headers_simps [simp]:
  "clean_headers []" "clean_headers ((n, v) # h) \<longleftrightarrow> is_token n \<and> clean_value v \<and> clean_headers h"
  "clean_headers (h @ h') \<longleftrightarrow> clean_headers h \<and> clean_headers h'"
  by (auto simp: clean_headers_def)

lemma clean_delete: "clean_headers h \<Longrightarrow> clean_headers (h_delete n h)"
  by (auto simp: clean_headers_def h_delete_def)

lemma clean_append: "clean_headers h \<Longrightarrow> is_token (to_lower n) \<Longrightarrow> clean_value v \<Longrightarrow> clean_headers (h_append n v h)"
  by (simp add: h_append_def)

lemma clean_set: "clean_headers h \<Longrightarrow> is_token (to_lower n) \<Longrightarrow> clean_value v \<Longrightarrow> clean_headers (h_set n v h)"
proof -
  assume *: "clean_headers h" "is_token (to_lower n)" "clean_value v"
  have "clean_headers (h_set_first (to_lower n) v h)" using * by (induction h) (auto simp: clean_headers_def split: if_splits)
  with * show ?thesis by (simp add: h_set_def clean_append)
qed

lemma clean_fold_append:
  "clean_headers h \<Longrightarrow> is_token (to_lower n) \<Longrightarrow> list_all clean_value vs \<Longrightarrow> clean_headers (fold (h_append n) vs h)"
  by (induction vs arbitrary: h) (simp_all add: clean_append)

lemma clean_stage:
  assumes "clean_state c" "is_token n" "to_lower n = n" "list_all clean_value (entry_values e)"
  shows "clean_state (stage n e c)"
proof -
  have "set (jm_set n e m) \<subseteq> insert (n, e) (set m)" for m :: header_map
    by (induction m) (auto simp: jm_set_eval split: if_splits)
  with assms show ?thesis by (fastforce simp: clean_state_def clean_record_def stage_def stagedHeadersOf_def)
qed

lemma clean_res:
  "clean_state c \<Longrightarrow> clean_headers (rs_headers r) \<Longrightarrow> clean_state (c\<lparr>hs_res := Some r\<rparr>)"
  by (simp add: clean_state_def stagedHeadersOf_def)

lemma clean_write:
  assumes "clean_state c" and n: "is_token n" "to_lower n = n" and e: "list_all clean_value (entry_values e)"
  shows "clean_state (fst (write_header c n e))"
proof (cases "hs_res c")
  case None
  then show ?thesis by (simp add: write_header_def clean_stage assms)
next
  case (Some r)
  have h: "clean_headers (rs_headers r)" using assms(1) Some by (simp add: clean_state_def)
  show ?thesis
  proof (cases "committedSet r n e")
    case (Inr r1)
    have "clean_headers (rs_headers r1)"
      using Inr h n e by (auto simp: committedSet_def with_headers_def entry_values_def clean_set clean_delete
          clean_fold_append split: if_splits header_entry.splits)
    then have "clean_state (c\<lparr>hs_res := Some r1\<rparr>)" using clean_res assms(1) by blast
    then show ?thesis using n e by (simp add: write_header_def Some Inr Let_def clean_stage)
  qed (simp add: write_header_def Some assms(1))
qed

lemma clean_set_header: "clean_state c \<Longrightarrow> clean_state (fst (setResponseHeader c f v))"
  using validateHeaderName_token [of f] validate_clean validate_all_clean
  by (auto simp: setResponseHeader_def entry_values_def split: header_arg.split sum.split intro!: clean_write)

lemma clean_set_headers: "clean_state c \<Longrightarrow> clean_state (fst (setResponseHeaders c fs))"
proof (induction c fs rule: setResponseHeaders.induct)
  case (2 c k v rest)
  then show ?case using clean_set_header [of c k v] by (auto split: prod.split sum.split)
qed simp

lemma clean_append_header:
  assumes c: "clean_state c"
  shows "clean_state (fst (appendResponseHeader c f vs))"
proof (cases "validateHeaderName f")
  case (Inr name)
  note n = validateHeaderName_token [OF Inr]
  have staged: "jm_get (stagedHeadersOf c) name = Some e \<Longrightarrow> list_all clean_value (entry_values e)" for e
    using c jm_get_size [of "stagedHeadersOf c" name e] by (auto simp: clean_state_def clean_record_def)
  show ?thesis
  proof (cases "validate_all vs")
    case v: (Inr u)
    have vs: "list_all clean_value vs" using v by (intro validate_all_clean) simp
    have many: "clean_state (stage name (Many (entry_values e @ vs)) d)"
      if "clean_state d" "jm_get (stagedHeadersOf c) name = Some e" for d e
      by (rule clean_stage) (use that n vs staged in \<open>simp_all add: entry_values_def\<close>)
    have one: "clean_state (stage name (case vs of [v] \<Rightarrow> One v | _ \<Rightarrow> Many vs) c)"
      by (rule clean_stage) (use c n vs in \<open>auto simp: entry_values_def split: list.split\<close>)
    have res: "clean_state (c\<lparr>hs_res := Some (with_headers r (fold (h_append name) vs))\<rparr>)" if "hs_res c = Some r" for r
      by (rule clean_res [OF c]) (use c that n vs in \<open>simp add: with_headers_def clean_fold_append clean_state_def\<close>)
    show ?thesis
    proof (cases "hs_res c")
      case None
      then show ?thesis using c many one
        by (simp add: appendResponseHeader_def Inr v Let_def split: option.split)
    next
      case (Some r)
      let ?c1 = "c\<lparr>hs_res := Some (with_headers r (fold (h_append name) vs))\<rparr>"
      have "fst (appendResponseHeader c f vs) \<in>
        {c, ?c1} \<union> {stage name (Many (entry_values e @ vs)) ?c1 |e. jm_get (stagedHeadersOf c) name = Some e}"
        by (simp add: appendResponseHeader_def Inr v Let_def Some split: option.split)
      then consider "fst (appendResponseHeader c f vs) = c" | "fst (appendResponseHeader c f vs) = ?c1"
        | e where "fst (appendResponseHeader c f vs) = stage name (Many (entry_values e @ vs)) ?c1"
            "jm_get (stagedHeadersOf c) name = Some e" by blast
      then show ?thesis by cases (use c many res [OF Some] in simp_all)
    qed
  qed (simp add: appendResponseHeader_def Inr c)
qed (simp add: appendResponseHeader_def c)

lemma clean_remove_header: "clean_state c \<Longrightarrow> clean_state (fst (removeResponseHeader c f))"
proof -
  assume c: "clean_state c"
  have sub: "set (jm_delete n m) \<subseteq> set m" for n and m :: header_map
    by (induction m) (auto simp: jm_delete_eval split: if_splits)
  have "clean_state (c\<lparr>hs_record := map_option (jm_delete n) (hs_record c)\<rparr>)" for n
    using c sub by (fastforce simp: clean_state_def clean_record_def stagedHeadersOf_def split: option.splits)
  then show ?thesis using c
    by (auto simp: removeResponseHeader_def Let_def with_headers_def clean_res clean_delete clean_state_def stagedHeadersOf_def
        split: option.splits)
qed

text \<open>A call of one of the header operations.\<close>

datatype header_call = CSet string header_arg | CSetAll "(string \<times> header_arg) list"
  | CAppend string "string list" | CRemove string | CCommit response

fun header_step :: "hdr_state \<Rightarrow> header_call \<Rightarrow> hdr_state" where
  "header_step c (CSet f v) = fst (setResponseHeader c f v)"
| "header_step c (CSetAll fs) = fst (setResponseHeaders c fs)"
| "header_step c (CAppend f vs) = fst (appendResponseHeader c f vs)"
| "header_step c (CRemove f) = fst (removeResponseHeader c f)"
| "header_step c (CCommit r) = c\<lparr>hs_res := Some r\<rparr>"

text \<open>C20: no sequence of header writes, whatever their arguments and whether they throw, can put a CR, LF
  or NUL into a header or a name that is not a token: starting clean and committing clean responses, the
  staged record and the committed headers stay clean.\<close>

theorem no_response_splitting:
  assumes "\<forall>r. CCommit r \<in> set calls \<longrightarrow> clean_headers (rs_headers r)"
  shows "clean_state (foldl header_step \<lparr>hs_record = None, hs_res = None\<rparr> calls)"
proof -
  have "clean_state (foldl header_step c calls)" if "clean_state c" for c
    using that assms
  proof (induction calls arbitrary: c)
    case (Cons k calls)
    have rest: "\<forall>r. CCommit r \<in> set calls \<longrightarrow> clean_headers (rs_headers r)" using Cons.prems(2) by simp
    have "clean_state (header_step c k)"
    proof (cases k)
      case (CCommit r)
      with Cons.prems(2) have "clean_headers (rs_headers r)" by simp
      with CCommit Cons.prems(1) clean_res show ?thesis by simp
    qed (simp_all add: Cons.prems(1) clean_set_header clean_set_headers clean_append_header clean_remove_header)
    from Cons.IH [OF this rest] show ?case by simp
  qed simp
  moreover have "clean_state \<lparr>hs_record = None, hs_res = None\<rparr>"
    by (simp add: clean_state_def stagedHeadersOf_def clean_record_def)
  ultimately show ?thesis by blast
qed

lemma no_response_splitting_witness:
  "clean_state (foldl header_step \<lparr>hs_record = None, hs_res = None\<rparr>
     [CSet ''X-A'' (HText ''1''), CSet ''X-B'' (HText [CHR ''b'', CHR 0x0D, CHR 0x0A]), CAppend ''X-A'' [''2'']])"
  by (rule no_response_splitting) simp

end
