(* ===== verification/Respond.thy ===== *)
theory Respond
  imports Headers Router Errors
begin

text \<open>
  The finalizer, src/core/respond.ts: what a settled chain answers. Cancelled bodies are the second
  component of a result. The application's not-found handler is the result it returned; the body stream
  wrapped for \<open>onStreamError\<close> keeps the identity of the stream it reads.
\<close>

section \<open>Merging staged headers\<close>

definition flattenHeaders :: "header_map \<Rightarrow> headers" where
  "flattenHeaders record = concat (map (\<lambda>(k, e). case e of
      One v \<Rightarrow> [(k, v)] | Many vs \<Rightarrow> map (Pair k) (filter (\<lambda>v. 0 < length v) vs)) record)"

text \<open>\<open>headers.entries()\<close>: one entry per name with the values joined; the cookies come separately.\<close>

definition copy_headers :: "headers \<Rightarrow> headers" where
  "copy_headers h = map (\<lambda>n. (n, js_join '', '' (h_values h n))) (filter (\<lambda>n. n \<noteq> ''set-cookie'') (remdups (map fst h)))
     @ map (Pair ''set-cookie'') (h_values h ''set-cookie'')"

definition merge_raw :: "string \<times> header_entry \<Rightarrow> headers \<Rightarrow> headers" where
  "merge_raw kv h = (case kv of (key, value) \<Rightarrow>
     if key = ''set-cookie'' then fold (h_append key) (entry_values value) h
     else (case value of Many vs \<Rightarrow> fold (h_append key) vs (h_delete key h)
           | One v \<Rightarrow> h_set key v (h_delete key h)))"

definition headersWith :: "response \<Rightarrow> header_map \<Rightarrow> headers" where
  "headersWith res record = fold merge_raw record (copy_headers (rs_headers res))"

definition wire_values :: "header_entry \<Rightarrow> string list" where
  "wire_values e = (case e of One v \<Rightarrow> [v] | Many vs \<Rightarrow> filter (\<lambda>v. 0 < length v) vs)"

definition merge_staged :: "string \<times> header_entry \<Rightarrow> headers \<Rightarrow> headers" where
  "merge_staged kv h = (case kv of (key, value) \<Rightarrow>
     if key = ''set-cookie'' then fold (h_append key) (wire_values value) h
     else (case value of Many vs \<Rightarrow> fold (h_append key) (wire_values value) (h_delete key h)
           | One v \<Rightarrow> h_set key v (h_delete key h)))"

text \<open>The first write on an immutable guard throws and the response is rebuilt; a record whose only writes
  are empty cookie lists writes nothing.\<close>

definition writes_nothing :: "header_map \<Rightarrow> bool" where
  "writes_nothing record \<longleftrightarrow> list_all (\<lambda>(k, e). k = ''set-cookie'' \<and> wire_values e = []) record"

definition applyStagedHeaders :: "response \<Rightarrow> header_map \<Rightarrow> response" where
  "applyStagedHeaders res record =
     (if \<not> rs_immutable res then with_headers res (fold merge_staged record)
      else if writes_nothing record then res
      else \<lparr>rs_id = None, rs_status = rs_status res, rs_statusText = rs_statusText res,
             rs_headers = headersWith res record, rs_body = rs_body res, rs_immutable = False\<rparr>)"

definition apply_record :: "response \<Rightarrow> header_map option \<Rightarrow> response" where
  "apply_record res record = (case record of None \<Rightarrow> res
     | Some r \<Rightarrow> if 0 < length r then applyStagedHeaders res r else res)"

section \<open>Bodies\<close>

definition cancelled :: "response \<Rightarrow> nat list" where
  "cancelled res = (case rs_body res of None \<Rightarrow> [] | Some b \<Rightarrow> [b])"

definition bodiless :: "response \<Rightarrow> headers \<Rightarrow> response" where
  "bodiless res h = \<lparr>rs_id = None, rs_status = rs_status res, rs_statusText = rs_statusText res,
     rs_headers = h, rs_body = None, rs_immutable = False\<rparr>"

definition stripBody :: "response \<Rightarrow> response \<times> nat list" where
  "stripBody res = (bodiless res (rs_headers res), cancelled res)"

definition sanitizeEmptyStatus :: "response \<Rightarrow> response \<times> nat list" where
  "sanitizeEmptyStatus res =
     (bodiless res (h_delete ''transfer-encoding'' (h_delete ''content-length'' (h_delete ''content-type'' (rs_headers res)))),
      cancelled res)"

section \<open>The finalizer\<close>

record fin_ctx =
  fc_method :: string
  fc_hdr :: hdr_state                      \<comment> \<open>staged record and commit slot\<close>
  fc_allowed :: "string list option"       \<comment> \<open>\<open>allowedValue\<close>\<close>
  fc_status :: nat                         \<comment> \<open>\<open>statusValue\<close>\<close>
  fc_unknownMethodAs404 :: bool
  fc_onStreamError :: bool
  fc_notFound :: "response option res"     \<comment> \<open>what the not-found handler answers\<close>

definition ALLOW_ORDER :: "string list" where "ALLOW_ORDER = KNOWN_METHODS"

definition synthesized :: "nat \<Rightarrow> string \<Rightarrow> response" where
  "synthesized status allow = \<lparr>rs_id = None, rs_status = status, rs_statusText = [],
     rs_headers = [(''allow'', allow)], rs_body = None, rs_immutable = False\<rparr>"

definition methodNotAllowed :: "fin_ctx \<Rightarrow> fin_ctx \<times> response option" where
  "methodNotAllowed c =
     (case fc_allowed c of
        None \<Rightarrow> (c, None)
      | Some allowed \<Rightarrow>
          if allowed = [] then (c, None)
          else (let allow = js_join '', '' (filter (\<lambda>m. m \<in> set allowed) ALLOW_ORDER); method = to_upper (fc_method c) in
            if method \<notin> set KNOWN_METHODS
            then (if fc_unknownMethodAs404 c then (c, None) else (c\<lparr>fc_status := 501\<rparr>, Some (synthesized 501 allow)))
            else if method = ''OPTIONS'' then (c\<lparr>fc_status := 200\<rparr>, Some (synthesized 200 allow))
            else if method \<notin> set allowed then (c\<lparr>fc_status := 405\<rparr>, Some (synthesized 405 allow))
            else (c, None)))"

text \<open>The body of the default 404 is the stream with the reserved identity 0.\<close>

definition default_404 :: response where
  "default_404 = \<lparr>rs_id = None, rs_status = 404, rs_statusText = [],
     rs_headers = [(''content-type'', ''text/plain;charset=UTF-8'')], rs_body = Some 0, rs_immutable = False\<rparr>"

definition head_strip :: "bool \<Rightarrow> response \<Rightarrow> response \<times> nat list" where
  "head_strip head res = (if head \<and> rs_body res \<noteq> None then stripBody res else (res, []))"

definition fromState :: "fin_ctx \<Rightarrow> bool \<Rightarrow> response \<times> nat list" where
  "fromState c head = head_strip head (apply_record default_404 (hs_record (fc_hdr c)))"

definition finishCommitted :: "fin_ctx \<Rightarrow> response \<Rightarrow> response \<times> nat list" where
  "finishCommitted c committed =
     (let merged = apply_record committed (hs_record (fc_hdr c)); h = rs_headers merged in
      if isEmptyStatus (rs_status merged)
         \<and> (rs_body merged \<noteq> None \<or> h_has h ''content-type'' \<or> h_has h ''content-length'' \<or> h_has h ''transfer-encoding'')
      then sanitizeEmptyStatus merged
      else if fc_method c = ''HEAD'' \<and> rs_body merged \<noteq> None then stripBody merged
      else if fc_onStreamError c \<and> rs_body merged \<noteq> None
      then (merged\<lparr>rs_id := None, rs_immutable := False\<rparr>, [])
      else (merged, []))"

definition finalize :: "fin_ctx \<Rightarrow> fin_ctx \<times> (response \<times> nat list) res" where
  "finalize c =
     (case hs_res (fc_hdr c) of
        Some committed \<Rightarrow> (c, ok (finishCommitted c committed))
      | None \<Rightarrow>
          (let head = fc_method c = ''HEAD''; record = hs_record (fc_hdr c) in
           case methodNotAllowed c of
             (c1, Some rejected) \<Rightarrow>
               (c1, ok (if head then stripBody (apply_record rejected record) else (apply_record rejected record, [])))
           | (c1, None) \<Rightarrow>
               (case fc_notFound c1 of
                  Inl e \<Rightarrow> (c1, throw e)
                | Inr (Some notFound) \<Rightarrow> (c1, ok (head_strip head (apply_record notFound record)))
                | Inr None \<Rightarrow> (c1, ok (fromState c1 head)))))"

section \<open>What a merge ships\<close>

text \<open>Records as the operations build them: one entry per name, names in lower case.\<close>

definition record_wf :: "header_map \<Rightarrow> bool" where
  "record_wf r \<longleftrightarrow> distinct (jm_keys r) \<and> (\<forall>k \<in> set (jm_keys r). to_lower k = k)"

lemma merge_staged_values:
  assumes "to_lower k = k" and "to_lower n = n"
  shows "h_values (merge_staged (k, e) h) n =
    (if n \<noteq> k then h_values h n else if k = ''set-cookie'' then h_values h n @ wire_values e else wire_values e)"
  using assms by (auto simp: merge_staged_def wire_values_def split: header_entry.split)

lemma merge_raw_values:
  assumes "to_lower k = k" and "to_lower n = n"
  shows "h_values (merge_raw (k, e) h) n =
    (if n \<noteq> k then h_values h n else if k = ''set-cookie'' then h_values h n @ entry_values e else entry_values e)"
  using assms by (auto simp: merge_raw_def entry_values_def split: header_entry.split)

lemma fold_merge_values:
  assumes "\<And>k e h. to_lower k = k \<Longrightarrow> h_values (f (k, e) h) n =
      (if n \<noteq> k then h_values h n else if k = ''set-cookie'' then h_values h n @ g e else g e)"
    and "record_wf r" and "to_lower n = n"
  shows "h_values (fold f r h) n = (case jm_get r n of None \<Rightarrow> h_values h n
     | Some e \<Rightarrow> if n = ''set-cookie'' then h_values h n @ g e else g e)"
  using assms(2)
proof (induction r arbitrary: h)
  case (Cons p r)
  obtain k e where p: "p = (k, e)" by (cases p)
  have r: "record_wf r" "to_lower k = k" "k \<notin> set (jm_keys r)" using Cons.prems by (auto simp: record_wf_def p)
  then have "jm_get r k = None" using jm.keys_get [of k r] by auto
  with Cons.IH [OF r(1), of "f p h"] assms(1) [OF r(2), of e h] p show ?case
    by (auto split: option.split)
qed simp

lemma staged_ships:
  assumes r: "record_wf r" and n: "to_lower n = n" "n \<noteq> ''set-cookie''" and e: "jm_get r n = Some (One v)"
  shows "h_values (rs_headers (apply_record res (Some r))) n = [v]"
proof -
  have ne: "0 < length r" using e by (cases r) auto
  have "\<not> writes_nothing r"
    using jm_get_size [OF e] n(2) by (auto simp: writes_nothing_def list_all_iff)
  then show ?thesis using ne e n
      fold_merge_values [of merge_staged n wire_values r "rs_headers res", OF merge_staged_values r n(1)]
      fold_merge_values [of merge_raw n entry_values r "copy_headers (rs_headers res)", OF merge_raw_values r n(1)]
    by (simp add: apply_record_def applyStagedHeaders_def with_headers_def headersWith_def wire_values_def entry_values_def)
qed

definition describes_body :: "string \<Rightarrow> bool" where
  "describes_body n \<longleftrightarrow> n = ''content-type'' \<or> n = ''content-length'' \<or> n = ''transfer-encoding''"

lemma strip_headers [simp]: "rs_headers (fst (stripBody r)) = rs_headers r" "rs_headers (fst (head_strip b r)) = rs_headers r"
  by (simp_all add: stripBody_def bodiless_def head_strip_def)

lemma low_names [simp]:
  "to_lower ''content-type'' = ''content-type''" "to_lower ''content-length'' = ''content-length''"
  "to_lower ''transfer-encoding'' = ''transfer-encoding''" "to_lower ''set-cookie'' = ''set-cookie''"
  by code_simp+

lemma sanitize_values:
  "to_lower n = n \<Longrightarrow> \<not> describes_body n \<Longrightarrow> h_values (rs_headers (fst (sanitizeEmptyStatus r))) n = h_values (rs_headers r) n"
  by (simp add: sanitizeEmptyStatus_def bodiless_def describes_body_def del: to_lower_simps)

text \<open>An uncommitted answer is some base response with the record merged, stripped for HEAD.\<close>

lemma uncommitted:
  assumes "hs_res (fc_hdr c) = None" and "finalize c = (c', Inr (res, bodies))"
  shows "\<exists>base. rs_headers res = rs_headers (apply_record base (hs_record (fc_hdr c)))
    \<and> (fc_method c = ''HEAD'' \<longrightarrow> rs_body res = None)"
proof -
  let ?rec = "hs_record (fc_hdr c)"
  obtain c1 rej where mna: "methodNotAllowed c = (c1, rej)" by fastforce
  have keep: "fc_hdr c1 = fc_hdr c"
    using mna by (auto simp: methodNotAllowed_def Let_def split: option.splits if_splits)
  have strip: "rs_body (fst (stripBody r)) = None" for r by (simp add: stripBody_def bodiless_def)
  have hs: "rs_body (fst (head_strip True r)) = None" for r by (simp add: head_strip_def strip)
  have "\<exists>base. res = fst (head_strip (fc_method c = ''HEAD'') (apply_record base ?rec))
      \<or> fc_method c = ''HEAD'' \<and> res = fst (stripBody (apply_record base ?rec))
      \<or> fc_method c \<noteq> ''HEAD'' \<and> res = apply_record base ?rec"
  proof (cases rej)
    case (Some r)
    then show ?thesis using assms mna by (intro exI [of _ r]) (auto simp: finalize_def Let_def split: if_splits)
  next
    case no: None
    show ?thesis
    proof (cases "fc_notFound c1")
      case (Inl e)
      then show ?thesis using assms mna no by (simp add: finalize_def Let_def)
    next
      case (Inr nf)
      then have "(res, bodies) = (case nf of None \<Rightarrow> fromState c1 (fc_method c = ''HEAD'')
          | Some r \<Rightarrow> head_strip (fc_method c = ''HEAD'') (apply_record r ?rec))"
        using assms mna no by (cases nf) (auto simp add: finalize_def Let_def)
      then have "res = fst (head_strip (fc_method c = ''HEAD'') (apply_record (case nf of None \<Rightarrow> default_404 | Some r \<Rightarrow> r) ?rec))"
        using keep by (cases nf) (simp_all add: fromState_def prod_eq_iff)
      then show ?thesis by blast
    qed
  qed
  then obtain base where "res = fst (head_strip (fc_method c = ''HEAD'') (apply_record base ?rec))
      \<or> fc_method c = ''HEAD'' \<and> res = fst (stripBody (apply_record base ?rec))
      \<or> fc_method c \<noteq> ''HEAD'' \<and> res = apply_record base ?rec" by blast
  then show ?thesis
    by (intro exI [of _ base]) (cases "fc_method c = ''HEAD''", auto simp: hs strip simp del: char_lower_idem)
qed

text \<open>A header staged by any middleware reaches the wire with its value on every path of the finalizer:
  a committed response, a synthesized 405, 501 or OPTIONS answer, a not-found answer or the default 404,
  for HEAD requests too; only an empty status drops the headers that describe a body.\<close>

lemma staged_headers_ship:
  assumes "hs_record (fc_hdr c) = Some r" and "record_wf r" and "jm_get r n = Some (One v)"
    and "to_lower n = n" and "n \<noteq> ''set-cookie''" and "finalize c = (c', Inr (res, bodies))"
    and "describes_body n \<longrightarrow> \<not> isEmptyStatus (rs_status res)"
  shows "h_values (rs_headers res) n = [v]"
proof -
  note ship = staged_ships [OF assms(2,4,5,3)]
  show ?thesis
  proof (cases "hs_res (fc_hdr c)")
    case (Some committed)
    let ?m = "apply_record committed (Some r)"
    have res: "res = fst (finishCommitted c committed)" using assms(6) Some by (auto simp: finalize_def)
    have "rs_status (fst (sanitizeEmptyStatus ?m)) = rs_status ?m"
      by (simp add: sanitizeEmptyStatus_def bodiless_def)
    then show ?thesis using ship [of committed] sanitize_values [OF assms(4), of ?m] assms(7)
      unfolding res finishCommitted_def assms(1) Let_def by (auto split: if_splits)
  next
    case None
    from uncommitted [OF None assms(6)] ship assms(1) show ?thesis by auto
  qed
qed

lemma finalize_head:
  assumes "fc_method c = ''HEAD''" and "finalize c = (c', Inr (res, bodies))"
  shows "rs_body res = None"
proof -
  have san: "rs_body (fst (sanitizeEmptyStatus r)) = None" for r by (simp add: sanitizeEmptyStatus_def bodiless_def)
  have strip: "rs_body (fst (stripBody r)) = None" for r by (simp add: stripBody_def bodiless_def)
  have hs: "rs_body (fst (head_strip True r)) = None" for r by (simp add: head_strip_def strip)
  show ?thesis
  proof (cases "hs_res (fc_hdr c)")
    case (Some committed)
    then have "res = fst (finishCommitted c committed)" using assms(2) by (auto simp: finalize_def)
    then show ?thesis using assms(1) san strip by (auto simp: finishCommitted_def Let_def)
  next
    case None
    from uncommitted [OF this assms(2)] assms(1) show ?thesis by auto
  qed
qed

text \<open>A committed 204, 205 or 304 is sent without a body and without headers that describe one,
  whatever the handler built and whatever was staged.\<close>

lemma empty_status_clean:
  assumes "hs_res (fc_hdr c) = Some committed" and "isEmptyStatus (rs_status committed)"
    and "finalize c = (c', Inr (res, bodies))" and "describes_body n"
  shows "rs_status res = rs_status committed \<and> rs_body res = None \<and> \<not> h_has (rs_headers res) n"
proof -
  let ?m = "apply_record committed (hs_record (fc_hdr c))"
  have status: "rs_status ?m = rs_status committed"
    by (auto simp: apply_record_def applyStagedHeaders_def with_headers_def split: option.split)
  have "res = fst (finishCommitted c committed)" using assms(1,3) by (auto simp: finalize_def)
  moreover have "\<not> h_has (rs_headers (fst (sanitizeEmptyStatus r))) n" for r
    using assms(4) by (auto simp: describes_body_def h_has_values sanitizeEmptyStatus_def bodiless_def)
  ultimately show ?thesis using assms(2,4) status
    by (auto simp: finishCommitted_def Let_def sanitizeEmptyStatus_def bodiless_def describes_body_def)
qed

section \<open>Writes after the commit\<close>

definition demo_response :: "nat \<Rightarrow> headers \<Rightarrow> response" where
  "demo_response status h = \<lparr>rs_id = Some 1, rs_status = status, rs_statusText = [], rs_headers = h,
     rs_body = Some 1, rs_immutable = False\<rparr>"

definition demo_fin :: "string \<Rightarrow> hdr_state \<Rightarrow> fin_ctx" where
  "demo_fin method h = \<lparr>fc_method = method, fc_hdr = h, fc_allowed = None, fc_status = 404,
     fc_unknownMethodAs404 = False, fc_onStreamError = False, fc_notFound = Inr None\<rparr>"

lemma staged_headers_ship_witness:
  "h_values (rs_headers default_404) ''x-a'' = [] \<and>
   h_values (rs_headers (fst (projr (snd (finalize (demo_fin ''HEAD'' \<lparr>hs_record = Some [(''x-a'', One ''1'')], hs_res = None\<rparr>)))))) ''x-a''
     = [''1'']"
proof -
  let ?c = "demo_fin ''HEAD'' \<lparr>hs_record = Some [(''x-a'', One ''1'')], hs_res = None\<rparr>"
  have "finalize ?c = (fst (finalize ?c), Inr (fst (projr (snd (finalize ?c))), snd (projr (snd (finalize ?c)))))"
    by code_simp
  from staged_headers_ship [OF _ _ _ _ _ this, of "[(''x-a'', One ''1'')]" "''x-a''" "''1''"]
  have "h_values (rs_headers (fst (projr (snd (finalize ?c))))) ''x-a'' = [''1'']"
    by (simp add: demo_fin_def record_wf_def describes_body_def char_lower_def)
  then show ?thesis by (simp add: default_404_def h_values_def char_lower_def)
qed

lemma empty_status_clean_witness:
  "rs_body (fst (finishCommitted (demo_fin ''GET'' \<lparr>hs_record = Some [(''content-type'', One ''a'')], hs_res = Some (demo_response 204 [])\<rparr>)
     (demo_response 204 []))) = None"
  using empty_status_clean [of "demo_fin ''GET'' \<lparr>hs_record = Some [(''content-type'', One ''a'')], hs_res = Some (demo_response 204 [])\<rparr>"
      "demo_response 204 []" _ _ _ "''content-type''"]
  by (cases "finishCommitted (demo_fin ''GET'' \<lparr>hs_record = Some [(''content-type'', One ''a'')], hs_res = Some (demo_response 204 [])\<rparr>)
     (demo_response 204 [])")
    (simp add: demo_fin_def finalize_def demo_response_def isEmptyStatus_def describes_body_def)

lemma set_records:
  assumes "setResponseHeader c f (HText v) = (c', Inr ())" and "mirrors (to_lower f)"
  shows "jm_get (stagedHeadersOf c') (to_lower f) = Some (One v) \<and> hs_record c' \<noteq> None"
  using assms validateHeaderName_lower [of f]
  by (auto simp: setResponseHeader_def write_header_def stage_def stagedHeadersOf_def Let_def
      split: sum.splits option.splits)

lemma set_record_wf:
  assumes "record_wf (stagedHeadersOf c)"
  shows "record_wf (stagedHeadersOf (fst (setResponseHeader c f v)))"
proof -
  have stage: "to_lower n = n \<Longrightarrow> record_wf (stagedHeadersOf d) \<Longrightarrow> record_wf (stagedHeadersOf (stage n e d))" for n e d
    by (auto simp: record_wf_def stage_def stagedHeadersOf_def jm.inv_put jm.keys_put split: if_splits)
  have res: "record_wf (stagedHeadersOf (d\<lparr>hs_res := r\<rparr>)) = record_wf (stagedHeadersOf d)" for d r
    by (simp add: stagedHeadersOf_def)
  have "to_lower n = n \<Longrightarrow> record_wf (stagedHeadersOf (fst (write_header c n e)))" for n e
    using assms stage by (simp add: write_header_def Let_def res split: option.split sum.split)
  then show ?thesis using assms validateHeaderName_lower [of f]
    by (auto simp: setResponseHeader_def split: header_arg.split sum.split)
qed

text \<open>A header that is set, before or after the commit, has that value on the wire; only cookies,
  which add up, and headers describing the body are exempt.\<close>

lemma set_header_reaches_wire:
  assumes "setResponseHeader (fc_hdr c) f (HText v) = (h', Inr ())" and "mirrors (to_lower f)"
    and "record_wf (stagedHeadersOf (fc_hdr c))" and "finalize (c\<lparr>fc_hdr := h'\<rparr>) = (c', Inr (res, bodies))"
  shows "h_values (rs_headers res) f = [v]"
proof -
  have rec: "jm_get (stagedHeadersOf h') (to_lower f) = Some (One v)" "hs_record h' \<noteq> None"
    using set_records [OF assms(1,2)] by blast+
  have wf: "record_wf (stagedHeadersOf h')"
    using set_record_wf [OF assms(3), of f "HText v"] assms(1) by simp
  obtain r where r: "hs_record h' = Some r" using rec(2) by auto
  have "\<not> describes_body (to_lower f)" "to_lower f \<noteq> ''set-cookie''"
    using assms(2) by (auto simp: mirrors_def MIRROR_FORBIDDEN_def describes_body_def)
  with staged_headers_ship [of "c\<lparr>fc_hdr := h'\<rparr>" r "to_lower f" v, OF _ _ _ _ _ assms(4)] r rec wf
  show ?thesis by (simp add: stagedHeadersOf_def h_values_def)
qed

definition late_state :: hdr_state where
  "late_state = \<lparr>hs_record = Some [(''x-a'', One ''1'')], hs_res = Some (demo_response 200 [(''x-a'', ''0'')])\<rparr>"

lemma set_header_reaches_wire_witness:
  "h_values (rs_headers (fst (projr (snd (finalize ((demo_fin ''GET'' late_state)
     \<lparr>fc_hdr := fst (setResponseHeader late_state ''X-A'' (HText ''2''))\<rparr>)))))) ''X-A'' = [''2'']"
proof -
  let ?h = "fst (setResponseHeader late_state ''X-A'' (HText ''2''))"
  let ?c = "(demo_fin ''GET'' late_state)\<lparr>fc_hdr := ?h\<rparr>"
  have fin: "finalize ?c = (fst (finalize ?c), Inr (fst (projr (snd (finalize ?c))), snd (projr (snd (finalize ?c)))))"
    by code_simp
  show ?thesis
    by (rule set_header_reaches_wire [OF _ _ _ fin]) (code_simp, code_simp, simp add: record_wf_def demo_fin_def late_state_def
        stagedHeadersOf_def char_lower_def)
qed

text \<open>A content type set after the commit is lost when an older one was staged before it: the record is
  not updated and the finalizer merges it over the response.\<close>

lemma late_content_type_lost:
  "let c = \<lparr>hs_record = Some [(''content-type'', One ''text/plain'')], hs_res = Some (demo_response 200 [])\<rparr>;
       h' = fst (setResponseHeader c ''content-type'' (HText ''text/html''))
   in setResponseHeader c ''content-type'' (HText ''text/html'') = (h', Inr ())
    \<and> h_values (rs_headers (the (hs_res h'))) ''content-type'' = [''text/html'']
    \<and> h_values (rs_headers (fst (projr (snd (finalize (demo_fin ''GET'' h')))))) ''content-type'' = [''text/plain'']"
  by code_simp

end
