(* ===== verification/ErrorFunnel.thy ===== *)
theory ErrorFunnel
  imports Respond
begin

text \<open>
  The error funnel, src/core/error-response.ts: every failure of a request becomes a response here. The
  error mapper of the application is an argument; what it hands back asynchronously is adopted and
  treated as the same value handed back at once. The text of a page the framework built is the second
  component of an answer (the body is the stream 0); a logged line is a flag. Values given to a \<open>Headers\<close>
  object from outside are trimmed and refused as the runtime does (\<open>wire_value\<close>).
\<close>

section \<open>Answers\<close>

record error_answer =
  ea_res :: response
  ea_text :: "string option"     \<comment> \<open>the text of a framework page\<close>
  ea_discarded :: "nat list"
  ea_logged :: bool

definition text_plain :: string where "text_plain = ''text/plain; charset=utf-8''"

definition text_page :: "nat \<Rightarrow> bool \<Rightarrow> response" where
  "text_page status bodied = \<lparr>rs_id = None, rs_status = status, rs_statusText = [],
     rs_headers = [(''content-type'', text_plain)], rs_body = (if bodied then Some 0 else None), rs_immutable = False\<rparr>"

definition staticServerError :: "string \<Rightarrow> error_answer" where
  "staticServerError method = \<lparr>ea_res = text_page 500 (method \<noteq> ''HEAD''), ea_text = Some ''Internal Server Error'',
     ea_discarded = [], ea_logged = False\<rparr>"

definition consoleFallback :: "string \<Rightarrow> http_error \<Rightarrow> bool" where
  "consoleFallback env error \<longleftrightarrow> env \<noteq> ''test'' \<and> 500 \<le> he_status error"

definition mapperFailed :: "fin_ctx \<Rightarrow> error_answer" where
  "mapperFailed c = (staticServerError (fc_method c))\<lparr>ea_logged := True\<rparr>"

section \<open>Merging into a takeover\<close>

definition MERGE_FORBIDDEN_CONTENT :: "string list" where
  "MERGE_FORBIDDEN_CONTENT = [''content-type'', ''content-length'', ''transfer-encoding'', ''content-encoding'']"

definition isMergeForbidden :: "string \<Rightarrow> bool" where
  "isMergeForbidden name \<longleftrightarrow> to_lower name \<in> set MERGE_FORBIDDEN_CONTENT \<or> name \<in> set FORBIDDEN_NAMES"

definition http_blank :: "char \<Rightarrow> bool" where "http_blank c \<longleftrightarrow> (of_char c :: nat) \<in> {9, 10, 13, 32}"

definition wire_value :: "string \<Rightarrow> string option" where
  "wire_value v =
     (let t = rev (dropWhile http_blank (rev (dropWhile http_blank v))) in
      if list_ex (\<lambda>c. let n = of_char c :: nat in n = 0 \<or> n = 10 \<or> n = 13 \<or> 196 \<le> n) t then None else Some t)"

text \<open>One write of the merge: the headers and whether a valid write was made.\<close>

definition merge_error_item :: "string \<Rightarrow> bool \<Rightarrow> string \<Rightarrow> headers \<times> bool \<Rightarrow> headers \<times> bool" where
  "merge_error_item field multiValue item st =
     (case wire_value item of None \<Rightarrow> st
      | Some v \<Rightarrow> ((if multiValue then h_append field v else h_set field v) (fst st), True))"

definition merge_error_field :: "string \<times> header_entry \<Rightarrow> headers \<times> bool \<Rightarrow> headers \<times> bool" where
  "merge_error_field fe st =
     (case fe of (field, value) \<Rightarrow>
        if isMergeForbidden field \<or> \<not> is_token field \<or> h_has (fst st) field then st
        else (case value of Many items \<Rightarrow> fold (merge_error_item field True) items st
              | One item \<Rightarrow> merge_error_item field False item st))"

fun merge_staged_entries :: "(string \<times> string) list \<Rightarrow> string list \<Rightarrow> headers \<times> bool \<Rightarrow> headers \<times> bool" where
  "merge_staged_entries [] mergedNames st = st"
| "merge_staged_entries ((name, value) # rest) mergedNames st =
     (if isMergeForbidden name \<or> \<not> is_token name then merge_staged_entries rest mergedNames st
      else if name \<noteq> ''set-cookie'' \<and> h_has (fst st) name \<and> name \<notin> set mergedNames
      then merge_staged_entries rest mergedNames st
      else merge_staged_entries rest (name # mergedNames)
             (case wire_value value of None \<Rightarrow> st | Some v \<Rightarrow> (h_append name v (fst st), True)))"

definition applyAbsentHeaders :: "headers \<Rightarrow> http_error \<Rightarrow> header_map option \<Rightarrow> headers \<times> bool" where
  "applyAbsentHeaders h error staged =
     (let st = (case he_headers error of None \<Rightarrow> (h, False) | Some fs \<Rightarrow> fold merge_error_field fs (h, False)) in
      case staged of None \<Rightarrow> st | Some record \<Rightarrow> merge_staged_entries (flattenHeaders record) [] st)"

definition mutableHeaderCopy :: "headers \<Rightarrow> headers" where "mutableHeaderCopy source = copy_headers source"

text \<open>A guard that refuses writes shows at the first valid write; the response is then rebuilt.\<close>

definition mergeAbsentHeaders :: "response \<Rightarrow> http_error \<Rightarrow> header_map option \<Rightarrow> response" where
  "mergeAbsentHeaders res error staged =
     (let (h, wrote) = applyAbsentHeaders (rs_headers res) error staged in
      if \<not> rs_immutable res then res\<lparr>rs_headers := h\<rparr>
      else if \<not> wrote then res
      else \<lparr>rs_id = None, rs_status = rs_status res, rs_statusText = rs_statusText res,
             rs_headers = fst (applyAbsentHeaders (mutableHeaderCopy (rs_headers res)) error staged),
             rs_body = rs_body res, rs_immutable = False\<rparr>)"

section \<open>The headers an error page inherits\<close>

definition committed_entries :: "headers \<Rightarrow> header_map \<Rightarrow> header_map" where
  "committed_entries h record =
     map (\<lambda>n. (n, One (js_join '', '' (h_values h n))))
       (filter (\<lambda>n. n \<noteq> ''set-cookie'' \<and> jm_get record n = None) (remdups (map fst h)))"

definition reconciledHeaderSources :: "response option \<Rightarrow> header_map option \<Rightarrow> header_map option" where
  "reconciledHeaderSources committed record =
     (case committed of None \<Rightarrow> record
      | Some res \<Rightarrow>
          (let rec = (case record of None \<Rightarrow> [] | Some r \<Rightarrow> r);
               plain = committed_entries (rs_headers res) rec;
               cookies = h_values (rs_headers res) ''set-cookie'';
               staged = (case jm_get rec ''set-cookie'' of None \<Rightarrow> [] | Some e \<Rightarrow> entry_values e);
               out = (if cookies = [] \<and> jm_get rec ''set-cookie'' = None then plain
                      else jm_set ''set-cookie'' (Many (cookies @ staged)) plain)
           in if out = [] then record
              else Some (fold (\<lambda>(n, e) m. if n = ''set-cookie'' then m else jm_set n e m) rec out)))"

section \<open>The built-in page\<close>

definition error_text :: "http_error \<Rightarrow> string" where
  "error_text error =
     (if he_expose error then he_message error
      else if statusMessage (he_status error) = [] then ''Internal Server Error'' else statusMessage (he_status error))"

definition header_arg_of :: "header_entry \<Rightarrow> header_arg" where
  "header_arg_of e = (case e of One v \<Rightarrow> HText v | Many vs \<Rightarrow> HList vs)"

text \<open>The error's own headers, each dropped alone when it does not validate.\<close>

definition stage_error_headers :: "http_error \<Rightarrow> hdr_state \<Rightarrow> hdr_state" where
  "stage_error_headers error h =
     (case he_headers error of None \<Rightarrow> h
      | Some fs \<Rightarrow> fold (\<lambda>(field, value) h. fst (setResponseHeader h field (header_arg_of value))) fs h)"

definition prune_content :: "header_map \<Rightarrow> header_map" where
  "prune_content m = fold jm_delete MERGE_FORBIDDEN_CONTENT m"

definition error_record :: "hdr_state \<Rightarrow> header_map option" where
  "error_record h =
     (case reconciledHeaderSources (hs_res h) (hs_record h) of None \<Rightarrow> hs_record h
      | Some sources \<Rightarrow> Some (prune_content (fold (\<lambda>(n, e). jm_set n e) sources (stagedHeadersOf h))))"

definition builtinErrorResponse :: "fin_ctx \<Rightarrow> http_error \<Rightarrow> fin_ctx \<times> error_answer" where
  "builtinErrorResponse c error =
     (let record = error_record (fc_hdr c);
          c1 = c\<lparr>fc_hdr := \<lparr>hs_record = record, hs_res = None\<rparr>\<rparr>;
          carriesHeaders = (case record of None \<Rightarrow> False | Some r \<Rightarrow> r \<noteq> [])
      in if \<not> carriesHeaders \<and> he_headers error = None \<and> fc_method c \<noteq> ''HEAD'' \<and> \<not> isEmptyStatus (he_status error)
         then (c1, \<lparr>ea_res = text_page (he_status error) True, ea_text = Some (error_text error),
                    ea_discarded = [], ea_logged = False\<rparr>)
         else (let h2 = fst (setResponseHeader (stage_error_headers error (fc_hdr c1)) ''Content-Type'' (HText text_plain));
                   c2 = c1\<lparr>fc_hdr := h2, fc_status := he_status error\<rparr>;
                   (res, bodies) = finishCommitted c2 (text_page (he_status error) True)
               in (c2, \<lparr>ea_res = res, ea_text = Some (error_text error), ea_discarded = bodies, ea_logged = False\<rparr>)))"

section \<open>The mapper\<close>

text \<open>What a mapper hands back: a response and whether it can be served (no error response, body neither
  read nor locked), nothing, something else, or an exception.\<close>

datatype mapper_out = Takeover response bool | Decline | BadMapperValue | MapperThrew

type_synonym error_mapper = "http_error \<Rightarrow> fin_ctx \<Rightarrow> fin_ctx \<times> mapper_out"

definition invalidMapperResult :: "fin_ctx \<Rightarrow> error_answer" where
  "invalidMapperResult c = mapperFailed c"

definition plain_answer :: "response \<times> nat list \<Rightarrow> error_answer" where
  "plain_answer rb = \<lparr>ea_res = fst rb, ea_text = None, ea_discarded = snd rb, ea_logged = False\<rparr>"

definition finalizeTakeoverResponse :: "fin_ctx \<Rightarrow> response \<Rightarrow> bool \<Rightarrow> http_error \<Rightarrow> error_answer" where
  "finalizeTakeoverResponse c res servable error =
     (if \<not> servable then mapperFailed c
      else (let sources = reconciledHeaderSources (hs_res (fc_hdr c)) (hs_record (fc_hdr c)) in
        if fc_method c \<noteq> ''HEAD'' \<and> \<not> isEmptyStatus (rs_status res) \<and> he_headers error = None \<and> sources = None
        then plain_answer (res, [])
        else (let (out1, b1) = (if isEmptyStatus (rs_status res) \<and> rs_body res \<noteq> None then sanitizeEmptyStatus res else (res, []));
                  (out2, b2) = head_strip (fc_method c = ''HEAD'') out1
              in plain_answer (mergeAbsentHeaders out2 error sources, b1 @ b2))))"

definition finalizeMapperResult :: "fin_ctx \<Rightarrow> mapper_out \<Rightarrow> http_error \<Rightarrow> fin_ctx \<times> error_answer" where
  "finalizeMapperResult c out error =
     (case out of
        Takeover res servable \<Rightarrow> (c, finalizeTakeoverResponse c res servable error)
      | Decline \<Rightarrow> builtinErrorResponse c error
      | BadMapperValue \<Rightarrow> (c, invalidMapperResult c)
      | MapperThrew \<Rightarrow> (c, mapperFailed c))"

definition buildErrorResponse ::
  "string \<Rightarrow> error_mapper option \<Rightarrow> fin_ctx \<Rightarrow> js_error \<Rightarrow> fin_ctx \<times> error_answer" where
  "buildErrorResponse env mapper c err =
     (let error = toHttpError err in
      case mapper of
        None \<Rightarrow> map_prod id (\<lambda>a. a\<lparr>ea_logged := consoleFallback env error\<rparr>) (builtinErrorResponse c error)
      | Some m \<Rightarrow> (case m error c of (c1, out) \<Rightarrow> finalizeMapperResult c1 out error))"

text \<open>The funnel: the response it replaces gives up its body.\<close>

definition errorResponse ::
  "string \<Rightarrow> error_mapper option \<Rightarrow> fin_ctx \<Rightarrow> js_error \<Rightarrow> fin_ctx \<times> error_answer" where
  "errorResponse env mapper c err =
     (case buildErrorResponse env mapper c err of (c1, a) \<Rightarrow>
        (case hs_res (fc_hdr c) of
           None \<Rightarrow> (c1, a)
         | Some previous \<Rightarrow>
             if previous \<noteq> ea_res a \<and> rs_body previous \<noteq> rs_body (ea_res a)
             then (c1, a\<lparr>ea_discarded := ea_discarded a @ cancelled previous\<rparr>) else (c1, a)))"

section \<open>The built-in page\<close>

lemma text_page_sel [simp]: "rs_status (text_page s b) = s" "rs_body (text_page s b) = (if b then Some 0 else None)"
  "\<not> rs_immutable (text_page s b)"
  by (simp_all add: text_page_def)

lemma apply_mutable:
  "\<not> rs_immutable p \<Longrightarrow> rs_status (apply_record p r) = rs_status p \<and> rs_body (apply_record p r) = rs_body p"
  by (cases r) (simp_all add: apply_record_def applyStagedHeaders_def with_headers_def)

lemma finish_text_page:
  assumes "isValidErrorStatus status"
  shows "rs_status (fst (finishCommitted c (text_page status True))) = status
    \<and> rs_body (fst (finishCommitted c (text_page status True))) = (if fc_method c = ''HEAD'' then None else Some 0)
    \<and> rs_headers (fst (finishCommitted c (text_page status True))) = rs_headers (apply_record (text_page status True) (hs_record (fc_hdr c)))"
proof -
  let ?m = "apply_record (text_page status True) (hs_record (fc_hdr c))"
  have "\<not> isEmptyStatus status" using assms by (auto simp: isValidErrorStatus_def isEmptyStatus_def)
  moreover have m: "rs_status ?m = status" "rs_body ?m = Some 0"
    using apply_mutable [of "text_page status True"] by simp_all
  ultimately have "finishCommitted c (text_page status True) = (if fc_method c = ''HEAD'' then stripBody ?m
      else if fc_onStreamError c then (?m\<lparr>rs_id := None, rs_immutable := False\<rparr>, []) else (?m, []))"
    unfolding finishCommitted_def Let_def by simp
  with m show ?thesis by (simp add: stripBody_def bodiless_def)
qed

text \<open>The record the slow path finishes with.\<close>

definition page_record :: "fin_ctx \<Rightarrow> http_error \<Rightarrow> hdr_state" where
  "page_record c error = fst (setResponseHeader (stage_error_headers error \<lparr>hs_record = error_record (fc_hdr c), hs_res = None\<rparr>)
     ''Content-Type'' (HText text_plain))"

definition bare :: "fin_ctx \<Rightarrow> http_error \<Rightarrow> bool" where
  "bare c error \<longleftrightarrow> (case error_record (fc_hdr c) of None \<Rightarrow> True | Some r \<Rightarrow> r = []) \<and> he_headers error = None \<and> fc_method c \<noteq> ''HEAD''"

lemma builtin_cases:
  assumes "isValidErrorStatus (he_status error)" and "builtinErrorResponse c error = (c', a)"
  shows "ea_text a = Some (error_text error)"
    and "bare c error \<Longrightarrow> ea_res a = text_page (he_status error) True"
    and "\<not> bare c error \<Longrightarrow> ea_res a = fst (finishCommitted (c\<lparr>fc_hdr := page_record c error, fc_status := he_status error\<rparr>)
      (text_page (he_status error) True))"
proof -
  let ?page = "text_page (he_status error) True"
  let ?c2 = "c\<lparr>fc_hdr := page_record c error, fc_status := he_status error\<rparr>"
  have ne: "\<not> isEmptyStatus (he_status error)" using assms(1) by (auto simp: isValidErrorStatus_def isEmptyStatus_def)
  have bare: "(\<not> (case error_record (fc_hdr c) of None \<Rightarrow> False | Some r \<Rightarrow> r \<noteq> []) \<and> he_headers error = None
      \<and> fc_method c \<noteq> ''HEAD'' \<and> \<not> isEmptyStatus (he_status error)) = bare c error"
    using ne by (simp add: bare_def split: option.split)
  have c2: "c\<lparr>fc_hdr := \<lparr>hs_record = r, hs_res = None\<rparr>\<rparr>\<lparr>fc_hdr := h, fc_status := s\<rparr> = c\<lparr>fc_hdr := h, fc_status := s\<rparr>" for r h s
    by simp
  have c3: "fc_hdr (c\<lparr>fc_hdr := h\<rparr>) = h" for h by simp
  have eq: "builtinErrorResponse c error = (if bare c error
      then (c\<lparr>fc_hdr := \<lparr>hs_record = error_record (fc_hdr c), hs_res = None\<rparr>\<rparr>,
            \<lparr>ea_res = ?page, ea_text = Some (error_text error), ea_discarded = [], ea_logged = False\<rparr>)
      else (?c2, \<lparr>ea_res = fst (finishCommitted ?c2 ?page), ea_text = Some (error_text error),
                  ea_discarded = snd (finishCommitted ?c2 ?page), ea_logged = False\<rparr>))"
    unfolding builtinErrorResponse_def Let_def bare case_prod_unfold page_record_def by (simp only: c2 c3)
  show "ea_text a = Some (error_text error)" using assms(2) unfolding eq by (cases "bare c error") auto
  show "bare c error \<Longrightarrow> ea_res a = ?page" using assms(2) unfolding eq by auto
  show "\<not> bare c error \<Longrightarrow> ea_res a = fst (finishCommitted ?c2 ?page)" using assms(2) unfolding eq by auto
qed

lemma builtin_shape:
  assumes "isValidErrorStatus (he_status error)" and "builtinErrorResponse c error = (c', a)"
  shows "rs_status (ea_res a) = he_status error \<and> ea_text a = Some (error_text error)
    \<and> rs_body (ea_res a) = (if fc_method c = ''HEAD'' then None else Some 0)"
proof (cases "bare c error")
  case True
  then show ?thesis using builtin_cases(1,2) [OF assms] by (simp add: bare_def)
next
  case False
  then show ?thesis
    using builtin_cases(1,3) [OF assms]
      finish_text_page [OF assms(1), of "c\<lparr>fc_hdr := page_record c error, fc_status := he_status error\<rparr>"]
    by simp
qed

text \<open>Without a mapper every failure is answered with the status of its error, without a body for HEAD,
  and with the error's own message only where the error is exposed: anything else shows the reason
  phrase of the status.\<close>

lemma error_page_hides_message:
  assumes "errorResponse env None c err = (c', a)"
  shows "rs_status (ea_res a) = he_status (toHttpError err) \<and> 400 \<le> rs_status (ea_res a) \<and> rs_status (ea_res a) \<le> 599
    \<and> (fc_method c = ''HEAD'' \<longrightarrow> rs_body (ea_res a) = None)
    \<and> ea_text a = Some (if he_expose (toHttpError err) then he_message (toHttpError err)
        else if statusMessage (he_status (toHttpError err)) = [] then ''Internal Server Error''
        else statusMessage (he_status (toHttpError err)))"
proof -
  obtain c1 b where b: "builtinErrorResponse c (toHttpError err) = (c1, b)" by fastforce
  have "ea_res a = ea_res b \<and> ea_text a = ea_text b"
    using assms b by (auto simp: errorResponse_def buildErrorResponse_def Let_def split: option.splits if_splits)
  moreover have "400 \<le> he_status (toHttpError err)" "he_status (toHttpError err) \<le> 599"
    using toHttpError_status [of err] by (simp_all add: isValidErrorStatus_def)
  ultimately show ?thesis
    using builtin_shape [OF toHttpError_status b] by (simp add: error_text_def)
qed

section \<open>What an error page inherits\<close>

definition headers_wf :: "headers \<Rightarrow> bool" where "headers_wf h \<longleftrightarrow> (\<forall>k \<in> fst ` set h. to_lower k = k)"

text \<open>The value a header of the failed request has: staged, else baked into the discarded response.\<close>

definition inherited_header :: "hdr_state \<Rightarrow> string \<Rightarrow> header_entry option" where
  "inherited_header h n =
     (case jm_get (stagedHeadersOf h) n of Some e \<Rightarrow> Some e
      | None \<Rightarrow> (case hs_res h of None \<Rightarrow> None
          | Some p \<Rightarrow> if h_values (rs_headers p) n = [] then None else Some (One (js_join '', '' (h_values (rs_headers p) n)))))"

lemma fold_set_get:
  "distinct (jm_keys s) \<Longrightarrow> jm_get (fold (\<lambda>(n, e). jm_set n e) s m) k = (case jm_get s k of None \<Rightarrow> jm_get m k | Some e \<Rightarrow> Some e)"
proof (induction s arbitrary: m)
  case (Cons p s)
  obtain n e where p: "p = (n, e)" by (cases p)
  have "jm_get s n = None" using Cons.prems jm.keys_get [of n s] by (auto simp: p)
  with Cons p show ?case by (auto split: option.split)
qed simp

lemma fold_set_but_cookie:
  assumes "k \<noteq> ''set-cookie''"
  shows "distinct (jm_keys s) \<Longrightarrow> jm_get (fold (\<lambda>(n, e) m. if n = ''set-cookie'' then m else jm_set n e m) s m) k
    = (case jm_get s k of None \<Rightarrow> jm_get m k | Some e \<Rightarrow> Some e)"
proof (induction s arbitrary: m)
  case (Cons p s)
  obtain n e where p: "p = (n, e)" by (cases p)
  have "jm_get s n = None" using Cons.prems jm.keys_get [of n s] by (auto simp: p)
  with Cons p assms show ?case by (auto split: option.split)
qed simp

lemma record_wf_set: "record_wf m \<Longrightarrow> to_lower n = n \<Longrightarrow> record_wf (jm_set n e m)"
  by (auto simp: record_wf_def jm.inv_put jm.keys_put split: if_splits)

lemma fold_set_wf:
  "record_wf s \<Longrightarrow> record_wf m \<Longrightarrow> record_wf (fold (\<lambda>(n, e). jm_set n e) s m)
    \<and> record_wf (fold (\<lambda>(n, e) m. if n = ''set-cookie'' then m else jm_set n e m) s m)"
proof (induction s arbitrary: m)
  case (Cons p s)
  obtain n e where p: "p = (n, e)" by (cases p)
  have s: "record_wf s" "to_lower n = n" using Cons.prems by (auto simp: p record_wf_def)
  have "record_wf (jm_set n e m)" using Cons.prems s by (simp add: record_wf_set)
  with Cons s p show ?case by auto
qed simp

lemma committed_entries_get:
  assumes "to_lower n = n" and "n \<noteq> ''set-cookie''" and "jm_get r n = None"
  shows "jm_get (committed_entries h r) n =
    (if h_values h n = [] then None else Some (One (js_join '', '' (h_values h n))))"
proof -
  have mem: "n \<in> set (map fst h) \<longleftrightarrow> h_values h n \<noteq> []"
    using h_has_values [of h n] assms(1) by (simp add: h_has_def)
  have "jm_get (map (\<lambda>k. (k, f k)) ks) n = (if n \<in> set ks then Some (f n) else None)" for f :: "string \<Rightarrow> header_entry" and ks
    by (induction ks) auto
  then show ?thesis using mem assms by (simp add: committed_entries_def)
qed

lemma committed_entries_wf:
  "headers_wf h \<Longrightarrow> record_wf (committed_entries h r)"
  by (auto simp: committed_entries_def record_wf_def headers_wf_def comp_def)

lemma reconciled_get:
  assumes wf: "record_wf (stagedHeadersOf h)" and hw: "\<forall>p. hs_res h = Some p \<longrightarrow> headers_wf (rs_headers p)"
    and n: "to_lower n = n" "n \<noteq> ''set-cookie''" and s: "reconciledHeaderSources (hs_res h) (hs_record h) = Some s"
  shows "jm_get s n = inherited_header h n \<and> record_wf s"
proof (cases "hs_res h")
  case None
  then have "s = stagedHeadersOf h" using s by (simp add: reconciledHeaderSources_def stagedHeadersOf_def)
  with None wf show ?thesis by (simp add: inherited_header_def split: option.split)
next
  case (Some p)
  let ?r = "stagedHeadersOf h" and ?h = "rs_headers p"
  let ?plain = "committed_entries ?h ?r"
  define out where "out = (if h_values ?h ''set-cookie'' = [] \<and> jm_get ?r ''set-cookie'' = None then ?plain
      else jm_set ''set-cookie'' (Many (h_values ?h ''set-cookie'' @ (case jm_get ?r ''set-cookie'' of None \<Rightarrow> [] | Some e \<Rightarrow> entry_values e))) ?plain)"
  have pwf: "record_wf ?plain" using committed_entries_wf hw Some by blast
  have owf: "record_wf out"
    unfolding out_def using pwf record_wf_set [OF pwf low_names(4)] by simp
  have oget: "jm_get out n = jm_get ?plain n" using n(2) by (simp add: out_def)
  have rec: "(case hs_record h of None \<Rightarrow> [] | Some r \<Rightarrow> r) = ?r" by (simp add: stagedHeadersOf_def)
  have s_eq: "Some s = (if out = [] then hs_record h else Some (fold (\<lambda>(n, e) m. if n = ''set-cookie'' then m else jm_set n e m) ?r out))"
    using s unfolding reconciledHeaderSources_def Some option.case Let_def rec out_def by argo
  show ?thesis
  proof (cases "out = []")
    case True
    then have "hs_record h = Some s" using s_eq by simp
    then have "s = ?r" by (simp add: stagedHeadersOf_def)
    moreover have "jm_get ?r n = inherited_header h n"
      using oget True committed_entries_get [OF n, of ?r ?h]
      by (auto simp: inherited_header_def Some split: option.split if_splits)
    ultimately show ?thesis using wf by simp
  next
    case False
    then have "s = fold (\<lambda>(n, e) m. if n = ''set-cookie'' then m else jm_set n e m) ?r out" using s_eq by simp
    moreover have "distinct (jm_keys ?r)" using wf by (simp add: record_wf_def)
    ultimately show ?thesis
      using fold_set_but_cookie [OF n(2), of ?r out] oget committed_entries_get [OF n, of ?r ?h] fold_set_wf [OF wf owf]
      by (auto simp: inherited_header_def Some split: option.split)
  qed
qed

lemma prune_get: "jm_get (prune_content m) n = (if n \<in> set MERGE_FORBIDDEN_CONTENT then None else jm_get m n)"
  by (simp add: prune_content_def MERGE_FORBIDDEN_CONTENT_def)

lemma prune_wf: "record_wf m \<Longrightarrow> record_wf (prune_content m)"
proof -
  have del: "record_wf (jm_delete k m)" if "record_wf m" for k m
    using that by (auto simp: record_wf_def jm.inv_del jm.keys_del)
  show "record_wf m \<Longrightarrow> record_wf (prune_content m)"
    by (simp add: prune_content_def MERGE_FORBIDDEN_CONTENT_def del)
qed

lemma error_record_get:
  assumes wf: "record_wf (stagedHeadersOf h)" and hw: "\<forall>p. hs_res h = Some p \<longrightarrow> headers_wf (rs_headers p)"
    and n: "to_lower n = n" "n \<noteq> ''set-cookie''" "n \<notin> set MERGE_FORBIDDEN_CONTENT"
    and e: "inherited_header h n = Some e"
  shows "\<exists>r. error_record h = Some r \<and> record_wf r \<and> jm_get r n = Some e"
proof (cases "reconciledHeaderSources (hs_res h) (hs_record h)")
  case None
  have "inherited_header h n = None"
  proof (cases "hs_res h")
    case none: None
    with None show ?thesis by (simp add: reconciledHeaderSources_def inherited_header_def stagedHeadersOf_def)
  next
    case (Some p)
    have rec: "hs_record h = None \<and> committed_entries (rs_headers p) [] = []"
      using None by (auto simp: Some reconciledHeaderSources_def Let_def jm_set_def split: option.splits if_splits)
    have "h_values (rs_headers p) n = []"
    proof (rule ccontr)
      assume "h_values (rs_headers p) n \<noteq> []"
      with committed_entries_get [OF n(1,2), of "[]" "rs_headers p"] rec show False by simp
    qed
    with rec Some show ?thesis by (simp add: inherited_header_def stagedHeadersOf_def)
  qed
  with e show ?thesis by simp
next
  case (Some s)
  note s = reconciled_get [OF wf hw n(1,2) Some]
  let ?m = "fold (\<lambda>(n, e). jm_set n e) s (stagedHeadersOf h)"
  have "distinct (jm_keys s)" using s by (simp add: record_wf_def)
  then have "jm_get ?m n = Some e" using fold_set_get [of s "stagedHeadersOf h" n] s e by simp
  moreover have "record_wf ?m" using fold_set_wf [of s "stagedHeadersOf h"] s wf by blast
  ultimately show ?thesis using Some n(3) by (simp add: error_record_def prune_get prune_wf)
qed

lemma set_other:
  assumes "to_lower f \<noteq> n" and "hs_res h = None"
  shows "jm_get (stagedHeadersOf (fst (setResponseHeader h f a))) n = jm_get (stagedHeadersOf h) n
    \<and> hs_res (fst (setResponseHeader h f a)) = None"
proof -
  have "m \<noteq> n \<Longrightarrow> jm_get (stagedHeadersOf (fst (write_header h m e))) n = jm_get (stagedHeadersOf h) n
      \<and> hs_res (fst (write_header h m e)) = None" for m e
    using assms(2) by (simp add: write_header_def stage_def stagedHeadersOf_def)
  then show ?thesis using assms validateHeaderName_lower [of f]
    by (auto simp: setResponseHeader_def split: header_arg.split sum.split)
qed

lemma stage_errors_other:
  assumes "\<forall>fs. he_headers error = Some fs \<longrightarrow> (\<forall>(f, _) \<in> set fs. to_lower f \<noteq> n)" and "hs_res h = None"
    and "record_wf (stagedHeadersOf h)"
  shows "jm_get (stagedHeadersOf (stage_error_headers error h)) n = jm_get (stagedHeadersOf h) n
    \<and> hs_res (stage_error_headers error h) = None \<and> record_wf (stagedHeadersOf (stage_error_headers error h))"
proof -
  have "jm_get (stagedHeadersOf (fold (\<lambda>(f, v) h. fst (setResponseHeader h f (header_arg_of v))) fs h)) n = jm_get (stagedHeadersOf h) n
      \<and> hs_res (fold (\<lambda>(f, v) h. fst (setResponseHeader h f (header_arg_of v))) fs h) = None
      \<and> record_wf (stagedHeadersOf (fold (\<lambda>(f, v) h. fst (setResponseHeader h f (header_arg_of v))) fs h))"
    if "\<forall>(f, _) \<in> set fs. to_lower f \<noteq> n" "hs_res h = None" "record_wf (stagedHeadersOf h)" for fs h
    using that
  proof (induction fs arbitrary: h)
    case (Cons p fs)
    obtain f v where p: "p = (f, v)" by (cases p)
    with Cons.prems set_other [of f n h "header_arg_of v"] set_record_wf [of h f "header_arg_of v"]
      Cons.IH [of "fst (setResponseHeader h f (header_arg_of v))"] show ?case by simp
  qed simp
  with assms show ?thesis by (simp add: stage_error_headers_def split: option.split)
qed


definition failed_ctx :: fin_ctx where
  "failed_ctx = demo_fin ''GET'' \<lparr>hs_record = Some [(''x-frame-options'', One ''DENY'')],
     hs_res = Some (demo_response 200 [(''x-request-id'', ''7''), (''content-length'', ''3'')])\<rparr>"

lemma error_page_hides_message_witness:
  "ea_text (snd (errorResponse ''production'' None failed_ctx (PlainError ''db password''))) = Some ''Internal Server Error''"
proof -
  let ?x = "errorResponse ''production'' None failed_ctx (PlainError ''db password'')"
  have "?x = (fst ?x, snd ?x)" by simp
  note page = error_page_hides_message [OF this]
  have "(if he_expose (toHttpError (PlainError ''db password'')) then he_message (toHttpError (PlainError ''db password''))
      else if statusMessage (he_status (toHttpError (PlainError ''db password''))) = [] then ''Internal Server Error''
      else statusMessage (he_status (toHttpError (PlainError ''db password'')))) = ''Internal Server Error''" by code_simp
  with page show ?thesis by presburger
qed


section \<open>A mapper's response wins\<close>

lemma h_has_lower: "h_has h n \<longleftrightarrow> h_values h n \<noteq> []"
  by (rule h_has_values)

definition keeps_name :: "string \<Rightarrow> headers \<Rightarrow> headers \<times> bool \<Rightarrow> bool" where
  "keeps_name n h st \<longleftrightarrow> h_values (fst st) n = h_values h n"

lemma merge_item_keeps:
  assumes "keeps_name n h st" and "to_lower field \<noteq> to_lower n"
  shows "keeps_name n h (merge_error_item field m item st)"
  using assms by (simp add: keeps_name_def merge_error_item_def split: option.split)

lemma merge_items_keep:
  "keeps_name n h st \<Longrightarrow> to_lower field \<noteq> to_lower n \<Longrightarrow> keeps_name n h (fold (merge_error_item field m) items st)"
  by (induction items arbitrary: st) (simp_all add: merge_item_keeps)

lemma merge_field_keeps:
  assumes "keeps_name n h st" and "h_has h n"
  shows "keeps_name n h (merge_error_field fe st)"
proof -
  obtain f v where fe: "fe = (f, v)" by (cases fe)
  show ?thesis
  proof (cases "to_lower f = to_lower n")
    case True
    have "h_values (fst st) f = h_values (fst st) n" by (simp add: h_values_def True)
    then have "h_has (fst st) f" using assms by (simp add: h_has_values keeps_name_def)
    with assms(1) show ?thesis by (simp add: merge_error_field_def fe)
  next
    case False
    with assms show ?thesis
      by (simp add: merge_error_field_def fe merge_item_keeps merge_items_keep split: header_entry.split)
  qed
qed

lemma merge_fields_keep:
  "keeps_name n h st \<Longrightarrow> h_has h n \<Longrightarrow> keeps_name n h (fold merge_error_field fs st)"
  by (induction fs arbitrary: st) (simp_all add: merge_field_keeps)

lemma merge_staged_keeps:
  assumes "h_has h n" and "to_lower n \<noteq> ''set-cookie''"
  shows "keeps_name n h st \<Longrightarrow> n \<notin> set merged \<Longrightarrow> to_lower n = n \<Longrightarrow> \<forall>(k, _) \<in> set es. to_lower k = k
    \<Longrightarrow> keeps_name n h (merge_staged_entries es merged st)"
proof (induction es merged st rule: merge_staged_entries.induct)
  case (2 name v rest merged st)
  show ?case
  proof (cases "isMergeForbidden name \<or> \<not> is_token name")
    case True
    with 2 show ?thesis by simp
  next
    case ok: False
    show ?thesis
    proof (cases "name = n")
      case True
      have "h_has (fst st) n" using 2(4) assms(1) by (simp add: h_has_values keeps_name_def)
      with True 2 ok assms(2) show ?thesis by simp
    next
      case False
      have "to_lower name = name" using 2(7) by simp
      then have "keeps_name n h (case wire_value v of None \<Rightarrow> st | Some w \<Rightarrow> (h_append name w (fst st), True))"
        using 2(4,6) False by (simp add: keeps_name_def split: option.split)
      with 2 ok False show ?thesis by simp
    qed
  qed
qed simp

lemma flatten_low: "record_wf r \<Longrightarrow> \<forall>(k, _) \<in> set (flattenHeaders r). to_lower k = k"
proof -
  have "\<forall>(k, _) \<in> set (case p of (k, e) \<Rightarrow> case e of One v \<Rightarrow> [(k, v)] | Many vs \<Rightarrow> map (Pair k) (filter (\<lambda>v. 0 < length v) vs)).
      to_lower k = k" if "to_lower (fst p) = fst p" for p :: "string \<times> header_entry"
    using that by (cases p; cases "snd p") auto
  then show "record_wf r \<Longrightarrow> \<forall>(k, _) \<in> set (flattenHeaders r). to_lower k = k"
    unfolding flattenHeaders_def record_wf_def by fastforce
qed

lemma absent_keeps:
  assumes "h_has h n" and "to_lower n = n" and "n \<noteq> ''set-cookie''" and "\<forall>r. staged = Some r \<longrightarrow> record_wf r"
  shows "h_values (fst (applyAbsentHeaders h error staged)) n = h_values h n"
proof -
  let ?st = "case he_headers error of None \<Rightarrow> (h, False) | Some fs \<Rightarrow> fold merge_error_field fs (h, False)"
  have st: "keeps_name n h ?st"
    using merge_fields_keep [OF _ assms(1)] by (simp add: keeps_name_def split: option.split)
  have "keeps_name n h (merge_staged_entries (flattenHeaders r) [] ?st)" if "staged = Some r" for r
  proof -
    have low: "\<forall>(k, _) \<in> set (flattenHeaders r). to_lower k = k" using flatten_low assms(4) that by blast
    have ne: "to_lower n \<noteq> ''set-cookie''" using assms(2,3) by metis
    show ?thesis by (rule merge_staged_keeps [OF assms(1) ne st _ assms(2) low]) simp
  qed
  with st show ?thesis by (simp add: applyAbsentHeaders_def Let_def keeps_name_def split: option.split)
qed

lemma copy_values:
  assumes "to_lower n = n" and "n \<noteq> ''set-cookie''"
  shows "h_values (copy_headers h) n = (if h_values h n = [] then [] else [js_join '', '' (h_values h n)])"
proof -
  have one: "filter (\<lambda>k. k = n) ks = (if n \<in> set ks then [n] else [])" if "distinct ks" for ks
    using that by (induction ks) auto
  have mem: "n \<in> set (map fst h) \<longleftrightarrow> h_values h n \<noteq> []"
    using h_has_values [of h n] assms(1) by (simp add: h_has_def)
  let ?ks = "filter (\<lambda>k. k \<noteq> ''set-cookie'') (remdups (map fst h))"
  have "distinct ?ks" "n \<in> set ?ks \<longleftrightarrow> n \<in> set (map fst h)" using assms(2) by simp_all
  then have ks: "filter (\<lambda>k. k = n) ?ks = (if h_values h n \<noteq> [] then [n] else [])" using one mem by metis
  have "map snd (filter (\<lambda>(k, _). k = n) (map (\<lambda>k. (k, f k)) ks)) = map f (filter (\<lambda>k. k = n) ks)"
    for f :: "string \<Rightarrow> string" and ks by (induction ks) auto
  moreover have "filter (\<lambda>(k, _). k = n) (map (Pair ''set-cookie'') vs) = []" for vs :: "string list"
    using assms(2) by (induction vs) auto
  ultimately show ?thesis
    unfolding copy_headers_def h_values_def [of "_ @ _"] assms(1) filter_append map_append by (simp add: ks del: filter_filter)
qed

lemma merge_absent_get:
  assumes "h_has (rs_headers res) n" and "to_lower n = n" and "n \<noteq> ''set-cookie''" and "\<forall>r. staged = Some r \<longrightarrow> record_wf r"
  shows "h_get (rs_headers (mergeAbsentHeaders res error staged)) n = h_get (rs_headers res) n"
proof -
  have same: "h_get h' n = h_get h n" if "h_values h' n = h_values h n" for h h' by (simp add: h_get_def that)
  have ne: "h_values (rs_headers res) n \<noteq> []" using assms(1) by (simp add: h_has_values)
  have copy: "h_values (copy_headers (rs_headers res)) n = [js_join '', '' (h_values (rs_headers res) n)]"
    using copy_values [OF assms(2,3), of "rs_headers res"] ne by simp
  then have "h_has (copy_headers (rs_headers res)) n" by (simp add: h_has_values)
  note copied = absent_keeps [OF this assms(2-4), of error]
  have "h_get (fst (applyAbsentHeaders (copy_headers (rs_headers res)) error staged)) n = h_get (rs_headers res) n"
    unfolding h_get_def copied copy using ne by simp
  then show ?thesis
    using same [OF absent_keeps [OF assms], of error]
    by (cases "applyAbsentHeaders (rs_headers res) error staged") (simp add: mergeAbsentHeaders_def mutableHeaderCopy_def)
qed

lemma merge_absent_shape:
  "rs_status (mergeAbsentHeaders res error staged) = rs_status res \<and> rs_body (mergeAbsentHeaders res error staged) = rs_body res"
  by (simp add: mergeAbsentHeaders_def split: prod.split)

text \<open>A response the error mapper takes over with keeps its status, its body (none for HEAD) and every
  header the mapper set: the error's own headers and the staged ones only fill what it left open.\<close>

lemma takeover_wins:
  assumes "m (toHttpError err) c = (c1, Takeover res True)" and "\<not> isEmptyStatus (rs_status res)"
    and "h_has (rs_headers res) n" and "to_lower n = n" and "n \<noteq> ''set-cookie''"
    and "record_wf (stagedHeadersOf (fc_hdr c1))" and "\<forall>p. hs_res (fc_hdr c1) = Some p \<longrightarrow> headers_wf (rs_headers p)"
    and "errorResponse env (Some m) c err = (c', a)"
  shows "rs_status (ea_res a) = rs_status res \<and> h_get (rs_headers (ea_res a)) n = h_get (rs_headers res) n
    \<and> rs_body (ea_res a) = (if fc_method c1 = ''HEAD'' then None else rs_body res)"
proof -
  let ?e = "toHttpError err"
  define src where "src = reconciledHeaderSources (hs_res (fc_hdr c1)) (hs_record (fc_hdr c1))"
  have wf: "\<forall>r. src = Some r \<longrightarrow> record_wf r" using reconciled_get [OF assms(6,7,4,5)] by (simp add: src_def)
  have "ea_res a = ea_res (finalizeTakeoverResponse c1 res True ?e)"
    using assms(1,8) by (auto simp: errorResponse_def buildErrorResponse_def finalizeMapperResult_def Let_def split: option.splits if_splits)
  moreover have "ea_res (finalizeTakeoverResponse c1 res True ?e) = (if fc_method c1 \<noteq> ''HEAD'' \<and> he_headers ?e = None \<and> src = None
      then res else mergeAbsentHeaders (fst (head_strip (fc_method c1 = ''HEAD'') res)) ?e src)"
    using assms(2) by (simp add: finalizeTakeoverResponse_def src_def [symmetric] Let_def plain_answer_def split: prod.split)
  moreover have strip: "rs_status (fst (head_strip b res)) = rs_status res" "rs_body (fst (head_strip True res)) = None"
    "rs_body (fst (head_strip False res)) = rs_body res" for b
    by (simp_all add: head_strip_def stripBody_def bodiless_def)
  moreover have "h_get (rs_headers (mergeAbsentHeaders (fst (head_strip b res)) ?e src)) n = h_get (rs_headers res) n" for b
    using merge_absent_get [OF _ assms(4,5) wf, of "fst (head_strip b res)" ?e] assms(3) by simp
  ultimately show ?thesis using merge_absent_shape
    by (cases "fc_method c1 = ''HEAD''") auto
qed

lemma takeover_wins_witness:
  "h_get (rs_headers (ea_res (snd (errorResponse ''test'' (Some (\<lambda>e c. (c, Takeover (demo_response 418 [(''x-request-id'', ''9'')]) True)))
     failed_ctx (PlainError ''x''))))) ''x-request-id'' = Some ''9''"
proof -
  let ?r = "demo_response 418 [(''x-request-id'', ''9'')]" let ?m = "\<lambda>e c. (c, Takeover ?r True)"
  let ?x = "errorResponse ''test'' (Some ?m) failed_ctx (PlainError ''x'')"
  have x: "?x = (fst ?x, snd ?x)" by simp
  have p: "\<forall>p. hs_res (fc_hdr failed_ctx) = Some p \<longrightarrow> headers_wf (rs_headers p)"
    by (simp add: failed_ctx_def demo_fin_def demo_response_def headers_wf_def char_lower_def)
  have "record_wf (stagedHeadersOf (fc_hdr failed_ctx))" "h_has (rs_headers ?r) ''x-request-id''"
    "to_lower ''x-request-id'' = ''x-request-id''" "\<not> isEmptyStatus (rs_status ?r)" by code_simp+
  with takeover_wins [where n = "''x-request-id''", OF refl _ _ _ _ _ p x]
  have "h_get (rs_headers (ea_res (snd ?x))) ''x-request-id'' = h_get (rs_headers ?r) ''x-request-id''" by fastforce
  moreover have "h_get (rs_headers ?r) ''x-request-id'' = Some ''9''" by code_simp
  ultimately show ?thesis by simp
qed

section \<open>Natively served routes\<close>

text \<open>\<open>sunkErrorResponse\<close>: the funnel of handlers that run without a context. An invalid item ends its field.\<close>

fun append_valid :: "string \<Rightarrow> string list \<Rightarrow> headers \<Rightarrow> headers" where
  "append_valid field [] h = h"
| "append_valid field (item # items) h =
     (case wire_value item of None \<Rightarrow> h | Some v \<Rightarrow> append_valid field items (h_append field v h))"

definition sunkErrorResponse :: "string \<Rightarrow> js_error \<Rightarrow> response \<times> string option" where
  "sunkErrorResponse method err =
     (let http = toHttpError err; bodyless = (method = ''HEAD'');
          base = h_append ''content-type'' text_plain [];
          hs = (case he_headers http of None \<Rightarrow> base
            | Some fs \<Rightarrow> fold (\<lambda>(field, value) h. if is_token field then append_valid field (entry_values value) h else h) fs base)
      in ((text_page (he_status http) (\<not> bodyless))\<lparr>rs_headers := hs\<rparr>,
          if bodyless then None else Some (error_text http)))"

text \<open>A natively served handler that fails with an error without headers of its own is answered like a
  handler of the pipeline that staged nothing: same status, same headers, same text, no body for HEAD.\<close>

lemma sunk_matches_builtin:
  assumes "fc_hdr c = \<lparr>hs_record = None, hs_res = None\<rparr>" and "he_headers (toHttpError err) = None"
    and "errorResponse env None c err = (c', a)" and "sunkErrorResponse (fc_method c) err = (res, txt)"
  shows "rs_status (ea_res a) = rs_status res \<and> rs_headers (ea_res a) = rs_headers res \<and> rs_body (ea_res a) = rs_body res
    \<and> (rs_body res \<noteq> None \<longrightarrow> ea_text a = txt)"
proof -
  let ?e = "toHttpError err"
  obtain c1 b where b: "builtinErrorResponse c ?e = (c1, b)" by fastforce
  have a: "ea_res a = ea_res b \<and> ea_text a = ea_text b"
    using assms(1,3) b by (auto simp: errorResponse_def buildErrorResponse_def Let_def)
  note ct = low_names(1)
  have hdr: "rs_headers (text_page s True) = [(''content-type'', text_plain)]" for s by (simp add: text_page_def)
  have res: "rs_status res = he_status ?e" "rs_headers res = [(''content-type'', text_plain)]"
    "rs_body res = (if fc_method c = ''HEAD'' then None else Some 0)" "fc_method c \<noteq> ''HEAD'' \<Longrightarrow> txt = Some (error_text ?e)"
    using assms(2,4) by (auto simp: sunkErrorResponse_def Let_def h_append_def ct simp del: to_lower_simps)
  have rec: "error_record (fc_hdr c) = None" by (simp add: assms(1) error_record_def reconciledHeaderSources_def)
  have page: "page_record c ?e = \<lparr>hs_record = Some [(''content-type'', One text_plain)], hs_res = None\<rparr>"
    unfolding page_record_def stage_error_headers_def assms(2) rec option.case by code_simp
  have "rs_headers (ea_res b) = [(''content-type'', text_plain)]"
  proof (cases "bare c ?e")
    case True
    then show ?thesis using builtin_cases(2) [OF toHttpError_status b] hdr by simp
  next
    case False
    have "rs_headers (apply_record (text_page s True) (Some [(''content-type'', One text_plain)])) = [(''content-type'', text_plain)]" for s
      by (simp add: apply_record_def applyStagedHeaders_def with_headers_def merge_staged_def hdr h_delete_def h_set_def h_has_def
          h_append_def ct del: to_lower_simps)
    then show ?thesis using builtin_cases(3) [OF toHttpError_status b False]
      finish_text_page [OF toHttpError_status, of "c\<lparr>fc_hdr := page_record c ?e, fc_status := he_status ?e\<rparr>" err] page by simp
  qed
  then show ?thesis using a res builtin_shape [OF toHttpError_status b] by auto
qed

lemma sunk_matches_builtin_witness:
  "rs_status (ea_res (snd (errorResponse ''test'' None (demo_fin ''HEAD'' \<lparr>hs_record = None, hs_res = None\<rparr>) (TypeError ''x''))))
     = rs_status (fst (sunkErrorResponse ''HEAD'' (TypeError ''x'')))"
proof -
  let ?c = "demo_fin ''HEAD'' \<lparr>hs_record = None, hs_res = None\<rparr>"
  let ?x = "errorResponse ''test'' None ?c (TypeError ''x'')" let ?y = "sunkErrorResponse (fc_method ?c) (TypeError ''x'')"
  have "?x = (fst ?x, snd ?x)" "?y = (fst ?y, snd ?y)" by simp_all
  from sunk_matches_builtin [OF _ _ this] show ?thesis
    by (simp add: demo_fin_def toHttpError_def normalizeError_def Let_def)
qed

text \<open>With a content type among the error's headers the two differ: the native route sends both values.\<close>

lemma sunk_content_type_doubled:
  "let err = HttpThrown (createError (Some 400) (SourceText ''bad'') (Some (no_props\<lparr>ep_headers := Some [(''content-type'', One ''text/html'')]\<rparr>)))
   in h_values (rs_headers (fst (sunkErrorResponse ''GET'' err))) ''content-type'' = [text_plain, ''text/html'']
    \<and> h_values (rs_headers (ea_res (snd (errorResponse ''test'' None (demo_fin ''GET'' \<lparr>hs_record = None, hs_res = None\<rparr>) err)))) ''content-type''
        = [text_plain]"
  by code_simp

end
