(* ===== verification/Sinks.thy ===== *)
theory Sinks
  imports Registration ErrorFunnel
begin

text \<open>
  Native sinks, src/core/sink.ts and src/core/sink-directory.ts: paths handed to the host server's own routing
  table, each mirrored by an ordinary route. Responses and handler functions are identities (numbers); the
  mirror closures are values of the handler type made by \<open>mirror_h\<close> from what the closure captures. The file
  system seen by the directory audit is the parameter \<open>readdir\<close>: the entries of a directory in order, or the
  error code; \<open>resolve\<close> makes a path absolute. A path argument that is not a string is refused by the code
  like a relative one and is not represented.
\<close>

section \<open>Data\<close>

text \<open>The value given to \<open>app.sink\<close>: a response (and whether its body was read), a function, a directory or anything else.\<close>

datatype sink_value = SinkResponse nat bool | SinkFn nat | SinkDir string | SinkOther

datatype sink_entry = EntryResponse nat | EntryFn nat | EntryDir string

datatype sink_mirror = MirrorResponse nat | MirrorFn nat | MirrorDir string string

type_synonym sink_table = "(string, sink_entry) js_map"

definition GET_METHODS :: "string list" where "GET_METHODS = [''GET'']"

section \<open>Guards\<close>

definition conflictsWithAny :: "(string \<Rightarrow> bool) \<Rightarrow> string \<Rightarrow> 'h route_def list \<Rightarrow> string option" where
  "conflictsWithAny re_ok path ds =
     first_some (\<lambda>def. if pathsConflict path (rd_path def) \<or> patternsOverlap re_ok path (rd_path def)
       then Some (''route '' @ rd_method def @ '' '' @ rd_path def) else None) ds"

definition plain_native_segment :: "compiled_segment \<Rightarrow> bool" where
  "plain_native_segment s \<longleftrightarrow> kind s = Static \<or> (kind s = Param \<and> \<not> seg_optional s \<and> seg_pattern s = None)"

definition sinkGuardSpecs :: "string list \<Rightarrow> sink_table \<Rightarrow> sink_guard list" where
  "sinkGuardSpecs sunk sinks =
     map (\<lambda>path. \<lparr>sg_path = path, sg_methods = (case jm_get sinks path of Some (EntryFn _) \<Rightarrow> [''GET''] | _ \<Rightarrow> GET_METHODS)\<rparr>) sunk"

section \<open>registerSink\<close>

text \<open>The refusals on the value itself: the entry the table will hold, or the error.\<close>

definition sink_entry_of :: "(string \<Rightarrow> bool) \<Rightarrow> string \<Rightarrow> sink_value \<Rightarrow> bool \<Rightarrow> sink_entry res" where
  "sink_entry_of re_ok path value hasErrorMapper =
     (case value of
        SinkOther \<Rightarrow> throw (TypeError ''app.sink() requires a Response, { dir }, or handler function'')
      | SinkResponse r bodyUsed \<Rightarrow>
          if bodyUsed then throw (TypeError ''app.sink() requires an unconsumed Response'')
          else if CHR ''*'' \<in> set path \<or> CHR '':'' \<in> set path
          then throw (TypeError ''static response sinks must be plain paths'')
          else ok (EntryResponse r)
      | SinkDir dir \<Rightarrow>
          if length dir = 0 then throw (TypeError ''sink { dir } requires a directory path'')
          else if \<not> ends_with ''/*'' path then throw (TypeError ''directory sinks must end in /*'')
          else ok (EntryDir dir)
      | SinkFn f \<Rightarrow>
          if hasErrorMapper then throw (TypeError ''app.sink(path, fn) requires an app without app.onError()'')
          else if CHR ''%'' \<in> set path then throw (TypeError ''percent-encoded paths cannot sink'')
          else res_bind (compilePattern re_ok path) (\<lambda>ir.
            if list_all plain_native_segment (segments ir) then ok (EntryFn f)
            else throw (TypeError ''function sinks support static and plain :param segments only'')))"

definition markSunk :: "'h router_state \<Rightarrow> 'h router_state" where
  "markSunk st = (if defs st = [] then st else st\<lparr>sunkPaths := set_add (rd_path (last (defs st))) (sunkPaths st)\<rparr>)"

definition dir_prefix :: "string \<Rightarrow> string" where "dir_prefix path = take (length path - 2) path"

definition mirror_of :: "string \<Rightarrow> sink_entry \<Rightarrow> sink_mirror" where
  "mirror_of path entry = (case entry of EntryResponse r \<Rightarrow> MirrorResponse r | EntryFn f \<Rightarrow> MirrorFn f
     | EntryDir dir \<Rightarrow> MirrorDir dir (dir_prefix path))"

text \<open>The mirror routes of an accepted entry, then the claim of the key.\<close>

definition mirrorSink ::
  "(string \<Rightarrow> bool) \<Rightarrow> (sink_mirror \<Rightarrow> 'h) \<Rightarrow> 'h router_state \<Rightarrow> sink_table \<Rightarrow> string \<Rightarrow> sink_entry \<Rightarrow> 'h mw_stack
     \<Rightarrow> 'h router_state \<times> sink_table \<times> unit res" where
  "mirrorSink re_ok mirror_h router sinks path entry middleware =
     (let handler = Plain (mirror_h (mirror_of path entry)) in
      case registerDef re_ok router ''GET'' path [handler] None middleware [] of
        (st1, Inl e) \<Rightarrow> (st1, sinks, throw e)
      | (st1, Inr _) \<Rightarrow>
          (case entry of
             EntryDir _ \<Rightarrow>
               (let pre = dir_prefix path in
                case registerDef re_ok st1 ''GET'' (if pre = [] then ''/'' else pre) [handler] None middleware [] of
                  (st2, Inl e) \<Rightarrow> (st2, sinks, throw e)
                | (st2, Inr _) \<Rightarrow>
                    (st2\<lparr>sunkPaths := fold (\<lambda>def. set_add (rd_path def)) (drop (length (defs router)) (defs st2)) (sunkPaths st2)\<rparr>,
                     jm_set path entry sinks, ok ()))
           | _ \<Rightarrow> (markSunk st1, jm_set path entry sinks, ok ())))"

definition registerSink ::
  "(string \<Rightarrow> bool) \<Rightarrow> ('h \<Rightarrow> noop_decl option) \<Rightarrow> (sink_mirror \<Rightarrow> 'h) \<Rightarrow> 'h router_state \<Rightarrow> sink_table \<Rightarrow> string \<Rightarrow> sink_value
     \<Rightarrow> 'h mw_stack \<Rightarrow> bool \<Rightarrow> 'h router_state \<times> sink_table \<times> unit res" where
  "registerSink re_ok noop mirror_h router sinks path value middleware hasErrorMapper =
     (if length path = 0 \<or> hd path \<noteq> CHR ''/'' then (router, sinks, throw (TypeError ''sink path must be an absolute path''))
      else if jm_has sinks path then (router, sinks, throw (TypeError ''sink is already registered''))
      else if middlewareConflictForPath re_ok noop middleware path GET_METHODS \<noteq> None
      then (router, sinks, throw (TypeError
        (if middlewareConflictForPath re_ok noop middleware path GET_METHODS = Some ''global''
         then ''app.sink() requires an app without global middleware'' else ''app.sink() conflicts with scoped middleware'')))
      else if 0 < length (paramMiddlewares router)
      then (router, sinks, throw (TypeError ''app.sink() requires an app without param middleware''))
      else case sink_entry_of re_ok path value hasErrorMapper of
          Inl e \<Rightarrow> (router, sinks, throw e)
        | Inr entry \<Rightarrow>
            if conflictsWithAny re_ok path (defs router) \<noteq> None
            then (router, sinks, throw (TypeError ''sink overlaps an existing route''))
            else mirrorSink re_ok mirror_h router sinks path entry middleware)"

section \<open>The audit of a directory\<close>

datatype dirent_kind = DSymlink | DDirectory | DFile

type_synonym dirent = "string \<times> dirent_kind"

definition MAX_SCAN_ENTRIES :: nat where "MAX_SCAN_ENTRIES = 10000"
definition MAX_SCAN_DEPTH :: nat where "MAX_SCAN_DEPTH = 64"

record dir_scan =
  ds_violations :: "string list"
  ds_scanned :: nat
  ds_overBudget :: bool

definition dotfile :: "string \<Rightarrow> bool" where
  "dotfile name \<longleftrightarrow> prefix ''.'' name \<and> name \<noteq> ''.well-known''"

definition dir_join :: "string \<Rightarrow> string \<Rightarrow> string" where "dir_join current name = current @ ''/'' @ name"

definition violate :: "string \<Rightarrow> dir_scan \<Rightarrow> dir_scan" where
  "violate v s = s\<lparr>ds_violations := ds_violations s @ [v]\<rparr>"

text \<open>\<open>left\<close> counts the levels that may still be entered: \<open>MAX_SCAN_DEPTH + 1 - depth\<close>.\<close>

function walk :: "(string \<Rightarrow> string + dirent list) \<Rightarrow> nat \<Rightarrow> string \<Rightarrow> dir_scan \<Rightarrow> dir_scan res"
  and walk_entries :: "(string \<Rightarrow> string + dirent list) \<Rightarrow> nat \<Rightarrow> string \<Rightarrow> dirent list \<Rightarrow> dir_scan \<Rightarrow> dir_scan res" where
  "walk readdir 0 current s = ok (violate (current @ ''/ (too deep)'') s)"
| "walk readdir (Suc left) current s =
     (case readdir current of
        Inl code \<Rightarrow> throw (TypeError ''sink: cannot scan the directory'')
      | Inr entries \<Rightarrow> walk_entries readdir left current entries s)"
| "walk_entries readdir left current [] s = ok s"
| "walk_entries readdir left current (entry # entries) s =
     (let s1 = s\<lparr>ds_scanned := Suc (ds_scanned s)\<rparr>; full = dir_join current (fst entry) in
      if MAX_SCAN_ENTRIES < ds_scanned s1 then ok (s1\<lparr>ds_overBudget := True\<rparr>)
      else if snd entry = DSymlink then walk_entries readdir left current entries (violate (full @ '' (symlink)'') s1)
      else if dotfile (fst entry) then walk_entries readdir left current entries (violate (full @ '' (dotfile)'') s1)
      else if snd entry = DDirectory
      then res_bind (walk readdir left full s1) (walk_entries readdir left current entries)
      else walk_entries readdir left current entries s1)"
  by pat_completeness auto
termination
  by (relation "inv_image (less_than <*lex*> less_than)
      (\<lambda>x. case x of Inl (_, left, _, _) \<Rightarrow> (left, 0) | Inr (_, left, _, entries, _) \<Rightarrow> (left, Suc (length entries)))") auto

definition assertSunkDirSafe :: "(string \<Rightarrow> string + dirent list) \<Rightarrow> (string \<Rightarrow> string) \<Rightarrow> string \<Rightarrow> unit res" where
  "assertSunkDirSafe readdir resolve dir =
     res_bind (walk readdir (Suc MAX_SCAN_DEPTH) (resolve dir) \<lparr>ds_violations = [], ds_scanned = 0, ds_overBudget = False\<rparr>) (\<lambda>s.
       if ds_overBudget s then throw (TypeError ''sink: directory exceeds the native-table scan budget'')
       else if 0 < length (ds_violations s) then throw (TypeError ''sink: the native {dir} route cannot serve this tree'')
       else ok ())"

section \<open>The native table\<close>

datatype native_route = NativeResponse nat | NativeFn nat | NativeDir string

fun buildNativeRoutes ::
  "(string \<Rightarrow> string + dirent list) \<Rightarrow> (string \<Rightarrow> string) \<Rightarrow> sink_table \<Rightarrow> (string \<times> native_route) list res" where
  "buildNativeRoutes readdir resolve [] = ok []"
| "buildNativeRoutes readdir resolve ((path, entry) # sinks) =
     (case entry of
        EntryFn f \<Rightarrow> res_bind (buildNativeRoutes readdir resolve sinks) (\<lambda>rs. ok ((path, NativeFn f) # rs))
      | EntryResponse r \<Rightarrow> res_bind (buildNativeRoutes readdir resolve sinks) (\<lambda>rs. ok ((path, NativeResponse r) # rs))
      | EntryDir dir \<Rightarrow> res_bind (assertSunkDirSafe readdir resolve dir) (\<lambda>_.
          res_bind (buildNativeRoutes readdir resolve sinks) (\<lambda>rs. ok ((path, NativeDir dir) # rs))))"

text \<open>What the wrapper of a sunk function answers, from what the function did.\<close>

definition sunkCheck :: "string \<Rightarrow> handler_value \<Rightarrow> response \<times> string option" where
  "sunkCheck method result =
     (case result of Returned r \<Rightarrow> (r, None)
      | _ \<Rightarrow> sunkErrorResponse method (TypeError ''a sunk handler must return a Response''))"

definition nativeFnRoute :: "string \<Rightarrow> handler_value res \<Rightarrow> response \<times> string option" where
  "nativeFnRoute method outcome =
     (case outcome of Inl e \<Rightarrow> sunkErrorResponse method e | Inr result \<Rightarrow> sunkCheck method result)"

section \<open>An audited tree\<close>

text \<open>A path through the tree, also through links: the entries met on the way.\<close>

fun tree_path :: "(string \<Rightarrow> string + dirent list) \<Rightarrow> string \<Rightarrow> dirent list \<Rightarrow> bool" where
  "tree_path readdir current [] = True"
| "tree_path readdir current (e # es) =
     (case readdir current of Inl _ \<Rightarrow> False
      | Inr entries \<Rightarrow> e \<in> set entries \<and> (es \<noteq> [] \<longrightarrow> snd e \<noteq> DFile) \<and> tree_path readdir (dir_join current (fst e)) es)"

definition plain_entry :: "dirent \<Rightarrow> bool" where
  "plain_entry e \<longleftrightarrow> snd e \<noteq> DSymlink \<and> \<not> dotfile (fst e)"

definition scan_clean :: "dir_scan \<Rightarrow> bool" where
  "scan_clean s \<longleftrightarrow> ds_violations s = [] \<and> \<not> ds_overBudget s"

lemma scan_clean_simps [simp]:
  "\<not> scan_clean (violate v s)" "\<not> scan_clean (s\<lparr>ds_overBudget := True\<rparr>)"
  "scan_clean (s\<lparr>ds_scanned := n\<rparr>) = scan_clean s"
  by (simp_all add: scan_clean_def violate_def)

text \<open>A scan that ends clean was clean all along, and every path through what it scanned is plain and short.\<close>

lemma walk_clean:
  "walk readdir left current s = Inr s' \<Longrightarrow> scan_clean s' \<Longrightarrow>
     scan_clean s \<and> (\<forall>es. tree_path readdir current es \<longrightarrow> list_all plain_entry es \<and> length es \<le> left)"
  "walk_entries readdir left current entries s = Inr s' \<Longrightarrow> scan_clean s' \<Longrightarrow>
     scan_clean s \<and> (\<forall>e \<in> set entries. plain_entry e \<and> (\<forall>es. (es \<noteq> [] \<longrightarrow> snd e \<noteq> DFile) \<longrightarrow>
        tree_path readdir (dir_join current (fst e)) es \<longrightarrow> list_all plain_entry es \<and> length es \<le> left))"
proof (induction readdir left current s and readdir left current entries s arbitrary: s' and s' rule: walk_walk_entries.induct)
  case (2 readdir left current s)
  then obtain entries where e: "readdir current = Inr entries" by (auto split: sum.splits)
  with 2 have IH: "scan_clean s \<and> (\<forall>e \<in> set entries. plain_entry e \<and> (\<forall>es. (es \<noteq> [] \<longrightarrow> snd e \<noteq> DFile) \<longrightarrow>
        tree_path readdir (dir_join current (fst e)) es \<longrightarrow> list_all plain_entry es \<and> length es \<le> left))" by auto
  have "list_all plain_entry es \<and> length es \<le> Suc left" if "tree_path readdir current es" for es
    using that IH e by (cases es) auto
  with IH show ?case by blast
next
  case (4 readdir left current entry entries s)
  let ?s1 = "s\<lparr>ds_scanned := Suc (ds_scanned s)\<rparr>" and ?full = "dir_join current (fst entry)"
  have in_budget: "\<not> MAX_SCAN_ENTRIES < Suc (ds_scanned s)" using "4.prems" by (auto simp: Let_def split: if_splits)
  consider (c1) "snd entry = DSymlink" | (c2) "snd entry \<noteq> DSymlink" "dotfile (fst entry)"
    | (c3) "snd entry = DDirectory" "\<not> dotfile (fst entry)" | (c4) "snd entry = DFile" "\<not> dotfile (fst entry)"
    by (cases "snd entry") auto
  then show ?case
  proof cases
    case c1
    then have w: "walk_entries readdir left current entries (violate (?full @ '' (symlink)'') ?s1) = Inr s'"
      using "4.prems"(1) in_budget by (simp add: Let_def)
    from "4.IH"(1) [OF refl refl _ _ w "4.prems"(2)] in_budget c1 show ?thesis by simp
  next
    case c2
    then have w: "walk_entries readdir left current entries (violate (?full @ '' (dotfile)'') ?s1) = Inr s'"
      using "4.prems"(1) in_budget by (simp add: Let_def)
    from "4.IH"(2) [OF refl refl _ _ _ w "4.prems"(2)] in_budget c2 show ?thesis by simp
  next
    case c3
    then obtain s2 where w: "walk readdir left ?full ?s1 = Inr s2" "walk_entries readdir left current entries s2 = Inr s'"
      using "4.prems"(1) in_budget by (auto simp: Let_def res_bind_ok)
    note rest = "4.IH"(4) [OF refl refl _ _ _ _ w(2) "4.prems"(2)]
    have clean2: "scan_clean s2" using rest in_budget c3 by simp
    have "plain_entry entry" using c3 by (simp add: plain_entry_def)
    with "4.IH"(3) [OF refl refl _ _ _ _ w(1) clean2] rest in_budget c3 show ?thesis by simp
  next
    case c4
    then have "plain_entry entry" by (simp add: plain_entry_def)
    moreover have w: "walk_entries readdir left current entries ?s1 = Inr s'"
      using "4.prems"(1) in_budget c4 by (simp add: Let_def)
    ultimately show ?thesis using "4.IH"(5) [OF refl refl _ _ _ _ w "4.prems"(2)] in_budget c4 by simp
  qed
qed auto

lemma assertSunkDirSafe_sound:
  assumes "assertSunkDirSafe readdir resolve dir = Inr ()" and "tree_path readdir (resolve dir) es"
  shows "list_all plain_entry es \<and> length es \<le> Suc MAX_SCAN_DEPTH"
proof -
  obtain s where w: "walk readdir (Suc MAX_SCAN_DEPTH) (resolve dir) \<lparr>ds_violations = [], ds_scanned = 0, ds_overBudget = False\<rparr> = Inr s"
    and "scan_clean s" using assms(1) by (auto simp: assertSunkDirSafe_def res_bind_ok scan_clean_def split: if_splits)
  from walk_clean(1) [OF this] assms(2) show ?thesis by simp
qed

lemma buildNativeRoutes_dirs:
  "buildNativeRoutes readdir resolve sinks = Inr routes \<Longrightarrow> (path, NativeDir dir) \<in> set routes \<Longrightarrow>
     assertSunkDirSafe readdir resolve dir = Inr ()"
  by (induction readdir resolve sinks arbitrary: routes rule: buildNativeRoutes.induct)
    (auto simp: res_bind_ok split: sink_entry.splits)

text \<open>C22: a directory the table serves natively has no dotfile and no symbolic link at any depth.\<close>

theorem native_dirs_are_plain:
  assumes "buildNativeRoutes readdir resolve sinks = Inr routes" and "(path, NativeDir dir) \<in> set routes"
    and "tree_path readdir (resolve dir) es"
  shows "list_all plain_entry es \<and> length es \<le> 65"
  using assertSunkDirSafe_sound [OF buildNativeRoutes_dirs [OF assms(1,2)] assms(3)] by (simp add: MAX_SCAN_DEPTH_def)

definition demo_tree :: "string \<Rightarrow> string + dirent list" where
  "demo_tree d = (if d = ''/srv'' then Inr [(''css'', DDirectory), (''index.html'', DFile)]
     else if d = ''/srv/css'' then Inr [(''a.css'', DFile)] else Inl ''ENOENT'')"

lemma native_dirs_are_plain_witness:
  "list_all plain_entry [(''css'', DDirectory), (''a.css'', DFile)]"
proof -
  have "buildNativeRoutes demo_tree (\<lambda>d. ''/'' @ d) [(''/assets/*'', EntryDir ''srv'')] = Inr [(''/assets/*'', NativeDir ''srv'')]"
    "tree_path demo_tree (''/'' @ ''srv'') [(''css'', DDirectory), (''a.css'', DFile)]" by code_simp+
  from native_dirs_are_plain [OF this(1) _ this(2), of "''/assets/*''"] show ?thesis by simp
qed

text \<open>A link is refused before anything is served.\<close>

lemma linked_tree_refused:
  "\<not> is_ok (assertSunkDirSafe (\<lambda>d. if d = ''/srv'' then Inr [(''up'', DSymlink)] else Inl ''ENOENT'') id ''/srv'')"
  by code_simp

end
