(* ===== verification/MiddlewareCorrect.thy ===== *)
theory MiddlewareCorrect
  imports MiddlewareStack
begin

text \<open>
  Correctness of the middleware planning of theory MiddlewareStack: the precomputed fallback
  chains are the layers whose scope covers the path, the chain planned for a route runs exactly
  those layers, and a use() call without plugins is transactional.
\<close>

section \<open>The scope keys are injective\<close>

lemma of_char_digit: "n < 10 \<Longrightarrow> (of_char (char_of (48 + n) :: char) :: nat) = 48 + n"
  by simp

lemma split_unique:
  "a @ x # b = c @ x # d \<Longrightarrow> x \<notin> set a \<Longrightarrow> x \<notin> set c \<Longrightarrow> a = c \<and> b = d"
  by (induction a arbitrary: c) (auto simp: Cons_eq_append_conv)

lemma keyOf_Cons: "keyOf (s # ss) = show_digits (length s) @ CHR '':'' # s @ keyOf ss"
  by (simp add: keyOf_def)

lemma keyOf_inj: "keyOf a = keyOf b \<Longrightarrow> a = b"
proof (induction a arbitrary: b)
  case Nil
  then show ?case by (cases b) (auto simp: keyOf_Cons, simp add: keyOf_def)
next
  case (Cons s ss)
  then obtain t ts where b: "b = t # ts" by (cases b) (auto simp: keyOf_Cons keyOf_def)
  from Cons.prems have "show_digits (length s) = show_digits (length t) \<and> s @ keyOf ss = t @ keyOf ts"
    unfolding b keyOf_Cons by (rule split_unique) (rule show_digits_no_colon)+
  then have eq: "length s = length t" "s @ keyOf ss = t @ keyOf ts" by (metis dec_value_show)+
  then have "s = t \<and> keyOf ss = keyOf ts" by simp
  with Cons.IH show ?case by (simp add: b)
qed

definition scopes_of :: "bool \<Rightarrow> 'h mw_layer list \<Rightarrow> string list set" where
  "scopes_of want ls = {sc_segments sc |sc. \<exists>ly \<in> set ls. ly_scope ly = Some sc \<and> sc_prefix sc = want}"

definition key_table :: "(string, string list) js_map \<Rightarrow> bool" where
  "key_table m \<longleftrightarrow> distinct (map fst m) \<and> (\<forall>(k, v) \<in> set m. k = keyOf v)"

lemma jm_set_in:
  "distinct (map fst m) \<Longrightarrow> (j, w) \<in> set (jm_set k v m) \<longleftrightarrow> (j = k \<and> w = v) \<or> (j \<noteq> k \<and> (j, w) \<in> set m)"
  using jm.inv_put [of m k v] by (auto simp: jm_in_get)

lemma key_table_set:
  assumes "key_table m"
  shows "key_table (jm_set (keyOf s) s m) \<and> snd ` set (jm_set (keyOf s) s m) = insert s (snd ` set m)"
proof -
  have d: "distinct (map fst m)" and k: "\<And>a b. (a, b) \<in> set m \<Longrightarrow> a = keyOf b"
    using assms unfolding key_table_def by blast+
  have mem: "(a, b) \<in> set (jm_set (keyOf s) s m) \<longleftrightarrow> (a = keyOf s \<and> b = s) \<or> (a \<noteq> keyOf s \<and> (a, b) \<in> set m)" for a b
    by (rule jm_set_in [OF d])
  have "a = keyOf b" if "(a, b) \<in> set (jm_set (keyOf s) s m)" for a b
    using that k [of a b] mem [of a b] by metis
  then have "\<forall>(a, b) \<in> set (jm_set (keyOf s) s m). a = keyOf b" by blast
  with jm.inv_put [OF d] have "key_table (jm_set (keyOf s) s m)" unfolding key_table_def by simp
  moreover have "x \<in> snd ` set (jm_set (keyOf s) s m) \<longleftrightarrow> x = s \<or> x \<in> snd ` set m" for x
  proof -
    have snd_in: "x \<in> snd ` A \<longleftrightarrow> (\<exists>a. (a, x) \<in> A)" for A :: "(string \<times> string list) set" by force
    have "(\<exists>a. (a, x) \<in> set m) \<longleftrightarrow> (keyOf x, x) \<in> set m" using k by blast
    then show ?thesis
      unfolding snd_in mem using keyOf_inj [of x s] by blast
  qed
  ultimately show ?thesis by blast
qed

lemma scope_table_spec: "set (map snd (scope_table want ls)) = scopes_of want ls"
proof -
  have "key_table (scope_table want ls) \<and> set (map snd (scope_table want ls)) = scopes_of want ls"
  proof (induction ls rule: rev_induct)
    case Nil
    then show ?case by (simp add: scope_table_def key_table_def scopes_of_def)
  next
    case (snoc ly ls)
    have step: "scope_table want (ls @ [ly]) = (case ly_scope ly of None \<Rightarrow> scope_table want ls
        | Some sc \<Rightarrow> if sc_prefix sc = want
                     then jm_set (keyOf (sc_segments sc)) (sc_segments sc) (scope_table want ls)
                     else scope_table want ls)"
      by (cases "ly_scope ly") (simp_all add: scope_table_def)
    have new: "scopes_of want (ls @ [ly]) = scopes_of want ls
        \<union> {sc_segments sc |sc. ly_scope ly = Some sc \<and> sc_prefix sc = want}"
      by (auto simp: scopes_of_def)
    show ?case
      using snoc.IH key_table_set [of "scope_table want ls"]
      unfolding step new by (auto split: option.split)
  qed
  then show ?thesis by blast
qed

section \<open>The fallback tree\<close>

fun fnode_at :: "'h fallback_node \<Rightarrow> string list \<Rightarrow> 'h fallback_node option" where
  "fnode_at n [] = Some n"
| "fnode_at n (s # ss) = (case jm_get (fchildren n) s of None \<Rightarrow> None | Some c \<Rightarrow> fnode_at c ss)"

definition exact_at :: "'h fallback_node \<Rightarrow> string list \<Rightarrow> 'h list option" where
  "exact_at n ss = (case fnode_at n ss of None \<Rightarrow> None | Some m \<Rightarrow> exactChain m)"

definition prefix_at :: "'h fallback_node \<Rightarrow> string list \<Rightarrow> 'h list option" where
  "prefix_at n ss = (case fnode_at n ss of None \<Rightarrow> None | Some m \<Rightarrow> prefixChain m)"

lemma at_simps [simp]:
  "exact_at n [] = exactChain n" "prefix_at n [] = prefixChain n"
  "exact_at n (s # ss) = (case jm_get (fchildren n) s of None \<Rightarrow> None | Some c \<Rightarrow> exact_at c ss)"
  "prefix_at n (s # ss) = (case jm_get (fchildren n) s of None \<Rightarrow> None | Some c \<Rightarrow> prefix_at c ss)"
  by (simp_all add: exact_at_def prefix_at_def split: option.split)

lemma at_create [simp]: "exact_at createFallbackNode ss = None" "prefix_at createFallbackNode ss = None"
  by (cases ss; simp add: createFallbackNode_def)+

lemma nodeUpdate_exact:
  "exact_at (nodeUpdate (set_exact c) ss n) t = (if t = ss then Some c else exact_at n t)"
  "prefix_at (nodeUpdate (set_exact c) ss n) t = prefix_at n t"
proof (induction ss arbitrary: n t)
  case Nil
  { case 1 show ?case by (cases t) (simp_all add: set_exact_def) }
  { case 2 show ?case by (cases t) (simp_all add: set_exact_def) }
next
  case (Cons s ss)
  { case 1 show ?case using Cons.IH(1) by (cases t) (auto split: option.split) }
  { case 2 show ?case using Cons.IH(2) by (cases t) (auto split: option.split) }
qed

lemma nodeUpdate_prefix:
  "prefix_at (nodeUpdate (set_prefix c) ss n) t = (if t = ss then Some c else prefix_at n t)"
  "exact_at (nodeUpdate (set_prefix c) ss n) t = exact_at n t"
proof (induction ss arbitrary: n t)
  case Nil
  { case 1 show ?case by (cases t) (simp_all add: set_prefix_def) }
  { case 2 show ?case by (cases t) (simp_all add: set_prefix_def) }
next
  case (Cons s ss)
  { case 1 show ?case using Cons.IH(1) by (cases t) (auto split: option.split) }
  { case 2 show ?case using Cons.IH(2) by (cases t) (auto split: option.split) }
qed

lemma install_exact:
  "exact_at (install_chains set_exact h segss root) t =
     (if t \<in> set segss \<and> h t \<noteq> [] then Some (h t) else exact_at root t)
   \<and> prefix_at (install_chains set_exact h segss root) t = prefix_at root t"
  by (induction segss rule: rev_induct)
    (auto simp: install_chains_def nodeUpdate_exact chainOf_def split: option.split)

lemma install_prefix:
  "prefix_at (install_chains set_prefix h segss root) t =
     (if t \<in> set segss \<and> h t \<noteq> [] then Some (h t) else prefix_at root t)
   \<and> exact_at (install_chains set_prefix h segss root) t = exact_at root t"
  by (induction segss rule: rev_induct)
    (auto simp: install_chains_def nodeUpdate_prefix chainOf_def split: option.split)

lemma handlers_nonempty:
  assumes "t \<in> scopes_of b (layers st)"
  shows "handlersForSegments st t (\<not> b) \<noteq> []"
proof -
  obtain ly sc where "ly \<in> set (layers st)" "ly_scope ly = Some sc" "sc_prefix sc = b" "t = sc_segments sc"
    using assms by (auto simp: scopes_of_def)
  then have "ly \<in> set (layers st)" "layer_applies t (\<not> b) ly"
    by (auto simp: layer_applies_def scopeMatchesSegments_def)
  then show ?thesis by (auto simp: handlersForSegments_def filter_empty_conv)
qed

lemma rebuild_at:
  defines "r st \<equiv> fallbackRoot (rebuildFallbacks st)"
  shows "exact_at (r st) t = (if t \<in> scopes_of False (layers st) then Some (handlersForSegments st t True) else None)"
    and "prefix_at (r st) t = (if t \<in> scopes_of True (layers st) then Some (handlersForSegments st t False) else None)"
  using handlers_nonempty [of t True st] handlers_nonempty [of t False st] scope_table_spec [of True "layers st"] scope_table_spec [of False "layers st"]
  by (auto simp: r_def rebuildFallbacks_def Let_def install_exact install_prefix simp del: set_map)


section \<open>The fallback chain of a path\<close>

lemma startsWithSegments_eq [simp]: "startsWithSegments p f = prefix p f" by simp

lemma walk_exact: "exact_at n ss = Some c \<Longrightarrow> fallback_walk n pre g ss = Some c"
  by (induction n pre g ss rule: fallback_walk.induct) (auto split: option.splits)

text \<open>The longest scope on the way decides: no deeper one has a chain.\<close>

lemma walk_prefix:
  assumes "exact_at n ss = None"
  shows "(\<exists>t c. prefix t ss \<and> t \<noteq> [] \<and> prefix_at n t = Some c \<and> fallback_walk n pre g ss = Some c
           \<and> (\<forall>u. prefix u ss \<and> u \<noteq> [] \<and> prefix_at n u \<noteq> None \<longrightarrow> prefix u t))
       \<or> ((\<forall>u. prefix u ss \<and> u \<noteq> [] \<longrightarrow> prefix_at n u = None)
           \<and> fallback_walk n pre g ss = (case pre of Some c \<Rightarrow> Some c | None \<Rightarrow> g))"
  using assms
proof (induction ss arbitrary: n pre)
  case (Cons s ss)
  show ?case
  proof (cases "jm_get (fchildren n) s")
    case None
    then have "prefix u (s # ss) \<Longrightarrow> u \<noteq> [] \<Longrightarrow> prefix_at n u = None" for u
      by (cases u) auto
    with None show ?thesis by simp
  next
    case (Some child)
    define pre' where "pre' = (case prefixChain child of Some c \<Rightarrow> Some c | None \<Rightarrow> pre)"
    have walk: "fallback_walk n pre g (s # ss) = fallback_walk child pre' g ss"
      using Some by (simp add: pre'_def)
    have at: "prefix_at n (s # u) = prefix_at child u" for u using Some by simp
    have up_iff: "prefix u (s # ss) \<longleftrightarrow> u = [] \<or> (\<exists>v. u = s # v \<and> prefix v ss)" for u
      by (cases u) auto
    note Some' = Some
    have "exact_at child ss = None" using Cons.prems Some by simp
    from Cons.IH [OF this, of pre'] show ?thesis
    proof (elim disjE exE conjE)
      fix t c
      assume "prefix t ss" "t \<noteq> []" "prefix_at child t = Some c" "fallback_walk child pre' g ss = Some c"
        and deep: "\<forall>u. prefix u ss \<and> u \<noteq> [] \<and> prefix_at child u \<noteq> None \<longrightarrow> prefix u t"
      then show ?thesis
        unfolding walk by (intro disjI1 exI [of _ "s # t"] exI [of _ c]) (auto simp del: at_simps simp: at up_iff)
    next
      assume none: "\<forall>u. prefix u ss \<and> u \<noteq> [] \<longrightarrow> prefix_at child u = None"
        and res: "fallback_walk child pre' g ss = (case pre' of Some c \<Rightarrow> Some c | None \<Rightarrow> g)"
      show ?thesis
      proof (cases "prefixChain child")
        case None
        with none have "prefix v ss \<Longrightarrow> prefix_at child v = None" for v by (cases v) auto
        with None res show ?thesis unfolding walk by (intro disjI2) (auto simp del: at_simps simp: at up_iff pre'_def)
      next
        case (Some c)
        with none res show ?thesis
          unfolding walk by (intro disjI1 exI [of _ "[s]"] exI [of _ c]) (auto simp: Some' up_iff pre'_def)
      qed
    qed
  qed
qed simp

definition stack_ok :: "'h mw_stack \<Rightarrow> bool" where
  "stack_ok st \<longleftrightarrow> global st = map ly_handler (filter (\<lambda>l. ly_scope l = None) (layers st))
     \<and> rebuildFallbacks st = st"

lemma stack_ok_create: "stack_ok createMiddlewareStack"
  by (simp add: stack_ok_def createMiddlewareStack_def rebuildFallbacks_def scope_table_def
      install_chains_def chainOf_def)

lemma rebuild_idem: "rebuildFallbacks (rebuildFallbacks st) = rebuildFallbacks st"
  by (simp add: rebuildFallbacks_def Let_def handlersForSegments_def)

lemma rebuild_sel [simp]:
  "layers (rebuildFallbacks st) = layers st" "global (rebuildFallbacks st) = global st"
  "globalChain (rebuildFallbacks st) = chainOf (global st)"
  by (simp_all add: rebuildFallbacks_def Let_def)

lemma addMiddleware_layers:
  fixes st :: "'h mw_stack"
  assumes "stack_ok st"
  shows "layers (addMiddleware st scope hs) = layers st @ map (\<lambda>h. \<lparr>ly_scope = scope, ly_handler = h\<rparr>) hs
    \<and> stack_ok (addMiddleware st scope hs)"
proof -
  define push where "push = (\<lambda>(st :: 'h mw_stack) h. st\<lparr>layers := layers st @ [\<lparr>ly_scope = scope, ly_handler = h\<rparr>],
           global := (if scope = None then global st @ [h] else global st)\<rparr>)"
  have "layers (foldl push st hs) = layers st @ map (\<lambda>h. \<lparr>ly_scope = scope, ly_handler = h\<rparr>) hs
      \<and> global (foldl push st hs) = global st @ (if scope = None then hs else [])"
    by (induction hs rule: rev_induct) (auto simp: push_def)
  with assms show ?thesis
    by (auto simp: addMiddleware_def push_def [symmetric] stack_ok_def rebuild_idem comp_def)
qed

lemma fallback_applicable:
  assumes ok: "stack_ok st"
  shows "fallbackMiddlewareForPath st path = chainOf (handlersForSegments st (pathSegments path) True)"
proof -
  define S where "S = pathSegments path"
  have glob: "global st = map ly_handler (filter (\<lambda>l. ly_scope l = None) (layers st))"
    and reb: "rebuildFallbacks st = st" using ok by (simp_all add: stack_ok_def)
  then have gc: "globalChain st = chainOf (global st)" by (metis rebuild_sel(3))
  note at = rebuild_at [of st, unfolded reb]
  show ?thesis
  proof (cases "length (layers st) = length (global st)")
    case True
    then have "filter (\<lambda>l. ly_scope l = None) (layers st) = layers st"
      using glob by (metis length_filter_less length_map less_irrefl filter_id_conv)
    then have "\<forall>l \<in> set (layers st). ly_scope l = None" by (simp add: filter_id_conv)
    then have "filter (layer_applies S True) (layers st) = filter (\<lambda>l. ly_scope l = None) (layers st)"
      by (intro filter_cong) (auto simp: layer_applies_def)
    with True gc glob show ?thesis
      by (simp add: fallbackMiddlewareForPath_def handlersForSegments_def S_def)
  next
    case False
    let ?root = "fallbackRoot st"
    have res: "fallbackMiddlewareForPath st path = fallback_walk ?root (prefixChain ?root) (globalChain st) S"
      using False by (simp add: fallbackMiddlewareForPath_def S_def)
    show ?thesis
    proof (cases "S \<in> scopes_of False (layers st)")
      case True
      then have "exact_at ?root S = Some (handlersForSegments st S True)" using at by simp
      from walk_exact [OF this] res handlers_nonempty [OF True]
      show ?thesis by (simp add: chainOf_def S_def)
    next
      case noexact: False
      then have ex: "exact_at ?root S = None" using at by simp
      have eq: "t = S" if "length t = length S" "prefix t S" for t
        using that by (auto simp: prefix_def)
      have applies: "layer_applies S True ly \<longleftrightarrow>
          (case ly_scope ly of None \<Rightarrow> True | Some sc \<Rightarrow> sc_prefix sc \<and> prefix (sc_segments sc) S)"
        if "ly \<in> set (layers st)" for ly
      proof (cases "ly_scope ly")
        case (Some sc)
        with noexact that eq [of "sc_segments sc"] show ?thesis
          by (auto simp: layer_applies_def scopeMatchesSegments_def scopes_of_def)
      qed (simp add: layer_applies_def)
      have pre: "prefix_at ?root u \<noteq> None \<longleftrightarrow> u \<in> scopes_of True (layers st)" for u
        using at(2) [of u] by simp
      have handlers: "handlersForSegments st S True = map ly_handler (filter P (layers st))"
        if "\<And>ly. ly \<in> set (layers st) \<Longrightarrow> P ly =
          (case ly_scope ly of None \<Rightarrow> True | Some sc \<Rightarrow> sc_prefix sc \<and> prefix (sc_segments sc) S)" for P
        unfolding handlersForSegments_def using that applies
        by (intro arg_cong [of _ _ "map ly_handler"] filter_cong) auto
      consider (longest) t where "prefix t S" "t \<in> scopes_of True (layers st)"
          "fallback_walk ?root (prefixChain ?root) (globalChain st) S = prefix_at ?root t"
          "\<And>u. prefix u S \<Longrightarrow> u \<in> scopes_of True (layers st) \<Longrightarrow> prefix u t"
        | (none) "\<And>u. prefix u S \<Longrightarrow> u \<notin> scopes_of True (layers st)"
          "fallback_walk ?root (prefixChain ?root) (globalChain st) S = globalChain st"
        using walk_prefix [OF ex, of "prefixChain ?root" "globalChain st"]
      proof (elim disjE exE conjE)
        fix t c assume t: "prefix t S" "t \<noteq> []" "prefix_at ?root t = Some c"
          "fallback_walk ?root (prefixChain ?root) (globalChain st) S = Some c"
          "\<forall>u. prefix u S \<and> u \<noteq> [] \<and> prefix_at ?root u \<noteq> None \<longrightarrow> prefix u t"
        have "prefix u t" if "prefix u S" "u \<in> scopes_of True (layers st)" for u
          using that t(5) pre by (cases "u = []") auto
        then show ?thesis using t pre [of t] by (intro longest [of t]) simp_all
      next
        assume n: "\<forall>u. prefix u S \<and> u \<noteq> [] \<longrightarrow> prefix_at ?root u = None"
          "fallback_walk ?root (prefixChain ?root) (globalChain st) S =
            (case prefixChain ?root of Some c \<Rightarrow> Some c | None \<Rightarrow> globalChain st)"
        show ?thesis
        proof (cases "prefixChain ?root")
          case None
          then have at_none: "prefix_at ?root u = None" if "prefix u S" for u
            using that n(1) by (cases "u = []") auto
          have no_scope: "u \<notin> scopes_of True (layers st)" if "prefix u S" for u
            using at_none [OF that] pre [of u] by simp
          have "fallback_walk ?root (prefixChain ?root) (globalChain st) S = globalChain st"
            by (subst n(2)) (simp add: None)
          then show ?thesis using no_scope none by blast
        next
          case (Some c)
          have "u = []" if "prefix u S" "u \<in> scopes_of True (layers st)" for u
            using that n(1) pre [of u] by auto
          note only = this
          show ?thesis
          proof (rule longest [of "[]"])
            show "[] \<in> scopes_of True (layers st)" using Some pre [of "[]"] by simp
            show "prefix u []" if "prefix u S" "u \<in> scopes_of True (layers st)" for u
              using only [OF that] by simp
          qed (use Some n(2) in simp_all)
        qed
      qed
      then show ?thesis
      proof cases
        case longest
        have "layer_applies t False ly =
          (case ly_scope ly of None \<Rightarrow> True | Some sc \<Rightarrow> sc_prefix sc \<and> prefix (sc_segments sc) S)"
          if ly: "ly \<in> set (layers st)" for ly
        proof (cases "ly_scope ly")
          case (Some sc)
          have "prefix (sc_segments sc) S \<longleftrightarrow> prefix (sc_segments sc) t" if "sc_prefix sc"
            using longest(1,4) prefix_order.trans [of "sc_segments sc" t S] that ly Some
            by (auto simp: scopes_of_def)
          with Some show ?thesis by (auto simp: layer_applies_def)
        qed (simp add: layer_applies_def)
        from handlers [of "layer_applies t False", OF this] longest(2,3) res at(2) [of t]
          handlers_nonempty [OF longest(2)]
        show ?thesis by (simp add: chainOf_def S_def handlersForSegments_def)
      next
        case none
        have "(ly_scope ly = None) =
          (case ly_scope ly of None \<Rightarrow> True | Some sc \<Rightarrow> sc_prefix sc \<and> prefix (sc_segments sc) S)"
          if "ly \<in> set (layers st)" for ly
          using none(1) that by (auto simp: scopes_of_def split: option.split)
        from handlers [of "\<lambda>l. ly_scope l = None", OF this] none(2) res gc glob
        show ?thesis by (simp add: S_def)
      qed
    qed
  qed
qed

text \<open>Registration is a sequence of app.use calls with compiled scopes.\<close>

definition app_calls :: "(mw_scope option \<times> 'h list) list \<Rightarrow> 'h mw_stack" where
  "app_calls calls = foldl (\<lambda>st (scope, hs). addMiddleware st scope hs) createMiddlewareStack calls"

lemma app_calls_spec:
  "stack_ok (app_calls calls) \<and> layers (app_calls calls) =
     concat (map (\<lambda>(scope, hs). map (\<lambda>h. \<lparr>ly_scope = scope, ly_handler = h\<rparr>) hs) calls)"
proof (induction calls rule: rev_induct)
  case Nil
  then show ?case by (simp add: app_calls_def stack_ok_create) (simp add: createMiddlewareStack_def)
next
  case (snoc c calls)
  then show ?case
    using addMiddleware_layers [of "app_calls calls" "fst c" "snd c"] by (cases c) (simp add: app_calls_def)
qed

definition in_scope :: "string \<Rightarrow> 'h mw_layer \<Rightarrow> bool" where
  "in_scope path layer =
     (case ly_scope layer of None \<Rightarrow> True | Some scope \<Rightarrow> scopeMatchesSegments scope (pathSegments path))"

lemma fallback_chain:
  "fallbackMiddlewareForPath (app_calls calls) path =
     chainOf (map ly_handler (filter (in_scope path) (layers (app_calls calls))))"
proof -
  have "layer_applies (pathSegments path) True = in_scope path"
    by (auto simp: fun_eq_iff layer_applies_def in_scope_def scopeMatchesSegments_def split: option.split)
  with fallback_applicable [of "app_calls calls" path] app_calls_spec [of calls] show ?thesis
    unfolding handlersForSegments_def by metis
qed

section \<open>The chain planned for a route\<close>

lemma pathSegments_parts: "pathSegments path = map decodeSegment (splitSegments path)"
  by (auto simp: pathSegments_def splitSegments_def path_parts_def Let_def)

lemma static_matches:
  "list_all (\<lambda>s. kind s = Static) route \<Longrightarrow>
     pat_matches rx slash route parts \<longleftrightarrow> map decodeSegment parts = map seg_value route"
proof (induction route arbitrary: parts)
  case (Cons s ss)
  then show ?case by (cases parts) auto
qed simp

lemma prefix_relation_sound:
  assumes "pat_matches rx slash rest parts" and "set rest \<subseteq> set route"
  shows "(prefix_relation vs rest route = Always \<longrightarrow> prefix vs (map decodeSegment parts))
       \<and> (prefix_relation vs rest route = Never \<longrightarrow> \<not> prefix vs (map decodeSegment parts))"
  using assms
proof (induction vs rest route arbitrary: parts rule: prefix_relation.induct)
  case (3 v vs s ss route)
  then show ?case by (cases "kind s = Static"; cases parts) auto
qed auto

lemma list_all_zip_eq:
  "length xs = length ys \<Longrightarrow>
     list_all (\<lambda>(s, v). kind s = Static \<and> seg_value s = v) (zip xs ys) \<longleftrightarrow>
     list_all (\<lambda>s. kind s = Static) xs \<and> map seg_value xs = ys"
  by (induction xs ys rule: list_induct2) auto

lemma routeRelation_sound:
  assumes "pat_matches rx slash route parts"
  shows "(routeRelation scope route = Always \<longrightarrow> scopeMatchesSegments scope (map decodeSegment parts))
       \<and> (routeRelation scope route = Never \<longrightarrow> \<not> scopeMatchesSegments scope (map decodeSegment parts))"
proof (cases "sc_prefix scope")
  case True
  then show ?thesis
    using prefix_relation_sound [OF assms subset_refl, of "sc_segments scope"]
    by (cases "sc_segments scope") (auto simp: routeRelation_def scopeMatchesSegments_def)
next
  case False
  note stat = static_matches [of route rx slash parts] assms
  show ?thesis
  proof (cases "list_all (\<lambda>s. kind s = Static) route")
    case True
    then have eq: "map decodeSegment parts = map seg_value route" using stat by simp
    have pre: "length a = length b \<Longrightarrow> prefix a b \<longleftrightarrow> a = b" for a b :: "string list"
      by (auto simp: prefix_def)
    have "routeRelation scope route = (if map seg_value route = sc_segments scope then Always else Never)"
      using False True list_all_zip_eq [of route "sc_segments scope"]
      by (auto simp: routeRelation_def dest: arg_cong [of _ _ length])
    moreover have "scopeMatchesSegments scope X \<longleftrightarrow> sc_segments scope = X" for X
      using False pre [of "sc_segments scope" X] by (auto simp: scopeMatchesSegments_def)
    ultimately show ?thesis using eq by auto
  next
    case nonstatic: False
    then show ?thesis
      using False list_all_zip_eq [of route "sc_segments scope"] by (auto simp: routeRelation_def)
  qed
qed

lemma mw_simps [simp]:
  "mw_runs path (Plain h)" "mw_handler (Plain h) = h" "mw_handler (Conditional scope h off) = h"
  "mw_runs path (Conditional scope h off) = scopeMatchesSegments scope (drop off (pathSegments path))"
  by (simp_all add: mw_runs_def mw_handler_def)

lemma route_layers_runs:
  assumes "pat_matches rx (trailing_slash path) route (splitSegments path)"
  shows "map mw_handler (filter (mw_runs path) (route_layers route 0 ls)) = map ly_handler (filter (in_scope path) ls)"
proof (induction ls)
  case (Cons l ls)
  show ?case
  proof (cases "ly_scope l")
    case None
    then have "in_scope path l" by (simp add: in_scope_def)
    with None Cons show ?thesis by simp
  next
    case (Some scope)
    then have "in_scope path l = scopeMatchesSegments scope (pathSegments path)" by (simp add: in_scope_def)
    with Some Cons routeRelation_sound [OF assms, of scope] show ?thesis
      by (cases "routeRelation scope (route)") (simp_all add: pathSegments_parts)
  qed
qed simp

text \<open>The chain planned at registration runs, for every request its route answers, exactly the
  layers whose scope covers the request path.\<close>

lemma middlewareForRoute_correct:
  assumes "middlewareForRoute re_ok stack pattern 0 = Inr planned"
    and "compilePattern re_ok pattern = Inr ir"
    and "pat_matches rx (trailing_slash path) (segments ir) (splitSegments path)"
  shows "map mw_handler (filter (mw_runs path) planned)
    = map ly_handler (filter (in_scope path) (layers stack))"
proof -
  have "planned = route_layers (segments ir) 0 (layers stack)"
    using assms(1,2) by (simp add: middlewareForRoute_def)
  then show ?thesis using route_layers_runs [OF assms(3)] by simp
qed

section \<open>app.use is all or nothing without plugins\<close>

definition is_plugin :: "'h use_arg \<Rightarrow> bool" where
  "is_plugin a = (case a of UPlugin _ \<Rightarrow> True | _ \<Rightarrow> False)"

lemma use_loop_plain:
  "list_all (\<lambda>a. \<not> is_plugin a) args \<Longrightarrow> use_loop scope st pending changed args = (st', r) \<Longrightarrow>
     (case r of Inl e \<Rightarrow> st' = st
      | Inr ch \<Rightarrow> \<exists>hs. args = map UFun hs \<and> (st', ch) = flush scope st (pending @ hs) changed)"
proof (induction args arbitrary: pending)
  case (Cons a args)
  show ?case
  proof (cases a)
    case (UFun h)
    with Cons.prems Cons.IH [of "pending @ [h]"] show ?thesis
      by (auto split: sum.splits) (metis append_Cons append_Nil list.simps(9))
  qed (use Cons.prems in \<open>auto simp: is_plugin_def\<close>)
qed (auto split: prod.splits)

text \<open>A use() call of functions only either throws and leaves the stack untouched, or adds every
  function under the compiled scope.\<close>

lemma registerMiddleware_transactional:
  assumes "list_all (\<lambda>a. \<not> is_plugin a) input"
    and "registerMiddleware re_ok noop stack specs input = (stack', r)"
  shows "case r of
      Inl e \<Rightarrow> stack' = stack
    | Inr changed \<Rightarrow> (\<exists>scope hs. (stack', changed) = flush scope stack hs False
        \<and> (input = map UFun hs \<and> scope = None
           \<or> (\<exists>p sc. input = UString p # map UFun hs \<and> scope = Some sc \<and> hs \<noteq> []
                \<and> compileMiddlewareScope re_ok p = Inr sc)))"
proof -
  define pa where "pa = (case input of UString p # rest \<Rightarrow> (Some p, rest) | _ \<Rightarrow> (None, input))"
  have plain: "list_all (\<lambda>a. \<not> is_plugin a) (snd pa)"
    using assms(1) by (auto simp: pa_def split: list.splits use_arg.splits)
  have input: "case fst pa of None \<Rightarrow> input = snd pa | Some p \<Rightarrow> input = UString p # snd pa"
    by (auto simp: pa_def split: list.splits use_arg.splits)
  define sc where "sc = (case fst pa of None \<Rightarrow> ok None | Some p \<Rightarrow> map_sum id Some (compileMiddlewareScope re_ok p))"
  note reg = assms(2) [unfolded registerMiddleware_def pa_def [symmetric] case_prod_beta Let_def, folded sc_def]
  show ?thesis
  proof (cases sc)
    case (Inl e)
    with reg show ?thesis by auto
  next
    case (Inr scope)
    have scope: "case fst pa of None \<Rightarrow> scope = None
      | Some p \<Rightarrow> \<exists>s. scope = Some s \<and> compileMiddlewareScope re_ok p = Inr s"
      using Inr by (auto simp: sc_def map_sum_def split: option.splits sum.splits)
    consider "stack' = stack" "\<exists>e. r = Inl e"
      | "use_loop scope stack [] False (snd pa) = (stack', r)" "scope \<noteq> None \<longrightarrow> snd pa \<noteq> []"
      using reg Inr by (auto split: if_splits)
    then show ?thesis
    proof cases
      case 2
      note loop = use_loop_plain [OF plain 2(1)]
      show ?thesis
      proof (cases r)
        case (Inl e)
        with loop show ?thesis by simp
      next
        case (Inr ch)
        with loop obtain hs where hs: "snd pa = map UFun hs" "(stack', ch) = flush scope stack hs False" by auto
        with Inr input scope 2(2) show ?thesis
          by (cases "fst pa") (auto intro!: exI [of _ scope] exI [of _ hs])
      qed
    qed auto
  qed
qed

lemma middlewareForRoute_correct_witness:
  "map mw_handler (filter (mw_runs ''/api/7'')
      (projr (middlewareForRoute (\<lambda>_. True) (app_calls [(None, [1::nat]), (Some (projr (compileMiddlewareScope (\<lambda>_. True) ''/api'')), [2])]) ''/api/:id'' 0)))
    = map ly_handler (filter (in_scope ''/api/7'') (layers (app_calls [(None, [1::nat]), (Some (projr (compileMiddlewareScope (\<lambda>_. True) ''/api'')), [2])])))"
  by (rule middlewareForRoute_correct [where re_ok = "\<lambda>_. True" and rx = "\<lambda>_ _. True" and pattern = "''/api/:id''"
        and ir = "projr (compilePattern (\<lambda>_. True) ''/api/:id'')"]) code_simp+

lemma registerMiddleware_transactional_witness:
  "case snd (registerMiddleware (\<lambda>_. True) (\<lambda>_. None) (app_calls [(None, [1::nat])]) [] [UString ''/api'', UFun 2]) of
      Inl e \<Rightarrow> fst (registerMiddleware (\<lambda>_. True) (\<lambda>_. None) (app_calls [(None, [1::nat])]) [] [UString ''/api'', UFun 2]) = app_calls [(None, [1])]
    | Inr changed \<Rightarrow> \<exists>scope hs. (fst (registerMiddleware (\<lambda>_. True) (\<lambda>_. None) (app_calls [(None, [1::nat])]) [] [UString ''/api'', UFun 2]), changed)
          = flush scope (app_calls [(None, [1])]) hs False
        \<and> ([UString ''/api'', UFun 2] = map UFun hs \<and> scope = None
           \<or> (\<exists>p sc. [UString ''/api'', UFun 2] = UString p # map UFun hs \<and> scope = Some sc \<and> hs \<noteq> []
                \<and> compileMiddlewareScope (\<lambda>_. True) p = Inr sc))"
  by (rule registerMiddleware_transactional) (simp_all add: is_plugin_def)

end
