(* ===== verification/Application.thy ===== *)
theory Application
  imports Sinks MiddlewareCorrect
begin

text \<open>
  The application facade, src/core/app.ts, over everything registration touches: the router and the websocket
  table, the middleware stack, the native sinks and the error mapper. A setup call is a value of \<open>app_op\<close>;
  \<open>app_step\<close> performs it and returns what it threw. A plugin is the list of setup calls its installer makes on
  the application it is given. A call that is given something else than a function where it wants one is the
  absent function. The application is not listening yet: \<open>sink\<close> on a running server also reloads its table.
\<close>

section \<open>The application under setup\<close>

record ('h, 'w) kapp =
  ka_setup :: "('h, 'w) setup_state"
  ka_stack :: "'h mw_stack"
  ka_sinks :: sink_table
  ka_mapper :: "nat option"
  ka_pooling :: bool

record 'h setup_env =
  se_re_ok :: "string \<Rightarrow> bool"
  se_noop :: "'h \<Rightarrow> noop_decl option"
  se_upgrade :: "string \<Rightarrow> ws_policy \<Rightarrow> 'h"
  se_redirect :: "redirect_spec \<Rightarrow> 'h"
  se_mirror :: "sink_mirror \<Rightarrow> 'h"

text \<open>A plugin is the setup calls its installer makes; an absent function stands for a value that is none.\<close>

datatype ('h, 'w) app_op =
    KUse "('h, 'w) app_arg list"
  | KVerb string "'h route_arg list"
  | KOn string string "'h list"
  | KSink string sink_value
  | KWs string "'w ws_handlers"
  | KParam string "'h option"
  | KMount string "('h, 'w) mount_sub option"
  | KRedirect string string js_value
  | KOnError "nat option"
and ('h, 'w) app_arg = KString string | KFun 'h | KPlugin "('h, 'w) app_op list" | KOther

definition createApp :: "bool \<Rightarrow> bool \<Rightarrow> ('h, 'w) kapp" where
  "createApp dev pooling = \<lparr>ka_setup = \<lparr>su_router = (createRouterState [])\<lparr>devTrace := dev\<rparr>, su_ws = []\<rparr>,
     ka_stack = createMiddlewareStack, ka_sinks = [], ka_mapper = None, ka_pooling = pooling\<rparr>"

definition ka_router :: "('h, 'w) kapp \<Rightarrow> 'h router_state" where
  "ka_router app = su_router (ka_setup app)"

definition set_router :: "'h router_state \<Rightarrow> ('h, 'w) kapp \<Rightarrow> ('h, 'w) kapp" where
  "set_router r app = app\<lparr>ka_setup := (ka_setup app)\<lparr>su_router := r\<rparr>\<rparr>"

definition rebuildApp :: "'h setup_env \<Rightarrow> ('h, 'w) kapp \<Rightarrow> ('h, 'w) kapp \<times> unit res" where
  "rebuildApp env app = (case rebuildChains (se_re_ok env) (ka_router app) (ka_stack app) of (r, v) \<Rightarrow> (set_router r app, v))"

definition app_param :: "'h setup_env \<Rightarrow> ('h, 'w) kapp \<Rightarrow> string \<Rightarrow> 'h option \<Rightarrow> ('h, 'w) kapp \<times> unit res" where
  "app_param env app name middleware =
     (if length name = 0 then (app, throw (TypeError ''app.param() requires a parameter name''))
      else case middleware of
          None \<Rightarrow> (app, throw (TypeError ''app.param() requires a middleware function''))
        | Some h \<Rightarrow>
            if 0 < length (ka_sinks app) then (app, throw (TypeError ''app.param() cannot run alongside sunk routes''))
            else rebuildApp env (set_router ((ka_router app)\<lparr>paramMiddlewares := jm_set name h (paramMiddlewares (ka_router app))\<rparr>) app))"

definition app_onError :: "('h, 'w) kapp \<Rightarrow> nat option \<Rightarrow> ('h, 'w) kapp \<times> unit res" where
  "app_onError app mapper =
     (case mapper of
        None \<Rightarrow> (app, throw (TypeError ''app.onError() requires a function''))
      | Some m \<Rightarrow>
          if list_ex (\<lambda>(_, entry). case entry of EntryFn _ \<Rightarrow> True | _ \<Rightarrow> False) (ka_sinks app)
          then (app, throw (TypeError ''app.onError() cannot run alongside a sunk function handler''))
          else if ka_mapper app \<noteq> None then (app, throw (TypeError ''app.onError() is already registered''))
          else (app\<lparr>ka_mapper := Some m\<rparr>, ok ()))"

definition app_on :: "'h setup_env \<Rightarrow> ('h, 'w) kapp \<Rightarrow> string \<Rightarrow> string \<Rightarrow> 'h list \<Rightarrow> ('h, 'w) kapp \<times> unit res" where
  "app_on env app method path handlers =
     (case registerDef (se_re_ok env) (ka_router app) method path (map Plain handlers) None (ka_stack app) [] of
        (r, Inl e) \<Rightarrow> (set_router r app, throw e) | (r, Inr _) \<Rightarrow> (set_router r app, ok ()))"

definition app_sink :: "'h setup_env \<Rightarrow> ('h, 'w) kapp \<Rightarrow> string \<Rightarrow> sink_value \<Rightarrow> ('h, 'w) kapp \<times> unit res" where
  "app_sink env app path value =
     (case registerSink (se_re_ok env) (se_noop env) (se_mirror env) (ka_router app) (ka_sinks app) path value (ka_stack app)
             (ka_mapper app \<noteq> None) of
        (r, sinks, v) \<Rightarrow> ((set_router r app)\<lparr>ka_sinks := sinks\<rparr>, v))"

definition app_ws :: "'h setup_env \<Rightarrow> ('h, 'w) kapp \<Rightarrow> string \<Rightarrow> 'w ws_handlers \<Rightarrow> ('h, 'w) kapp \<times> unit res" where
  "app_ws env app path handlers =
     (case registerWsRoute (se_re_ok env) (se_upgrade env) (ka_setup app) (ka_stack app) (ka_pooling app) path handlers of
        (su, v) \<Rightarrow> (app\<lparr>ka_setup := su\<rparr>, v))"

definition app_mount :: "'h setup_env \<Rightarrow> ('h, 'w) kapp \<Rightarrow> string \<Rightarrow> ('h, 'w) mount_sub option \<Rightarrow> ('h, 'w) kapp \<times> unit res" where
  "app_mount env app pre sub =
     (case mountInto (se_re_ok env) (se_upgrade env) (sub = None) (ka_setup app) (ka_stack app) (ka_pooling app)
             (length (ka_sinks app)) pre
             (case sub of None \<Rightarrow> SubApp (ka_router app) (ka_stack app) (su_ws (ka_setup app)) | Some s \<Rightarrow> s) of
        (su, v) \<Rightarrow> (app\<lparr>ka_setup := su\<rparr>, v))"

text \<open>\<open>use\<close>: the pattern and the remaining arguments, and the refusals made before anything is added.\<close>

definition use_pattern :: "('h, 'w) app_arg list \<Rightarrow> string option" where
  "use_pattern input = (case input of KString p # _ \<Rightarrow> Some p | _ \<Rightarrow> None)"

definition use_rest :: "('h, 'w) app_arg list \<Rightarrow> ('h, 'w) app_arg list" where
  "use_rest input = (case input of KString _ # rest \<Rightarrow> rest | _ \<Rightarrow> input)"

lemma use_rest_size [termination_simp]: "size_list size (use_rest input) \<le> size_list size input"
  by (auto simp: use_rest_def split: list.split app_arg.split)

definition unexcused_fn :: "('h \<Rightarrow> noop_decl option) \<Rightarrow> sink_guard list \<Rightarrow> ('h, 'w) app_arg list \<Rightarrow> bool" where
  "unexcused_fn noop specs args \<longleftrightarrow>
     list_ex (\<lambda>a. case a of KFun h \<Rightarrow> \<not> list_all (\<lambda>spec. noOpExcuses noop h (sg_methods spec)) specs | _ \<Rightarrow> False) args"

definition use_guard :: "'h setup_env \<Rightarrow> ('h, 'w) kapp \<Rightarrow> ('h, 'w) app_arg list \<Rightarrow> mw_scope option res" where
  "use_guard env app input =
     (let args = use_rest input; specs = sinkGuardSpecs (sunkPaths (ka_router app)) (ka_sinks app) in
      case (case use_pattern input of None \<Rightarrow> ok None | Some p \<Rightarrow> map_sum id Some (compileMiddlewareScope (se_re_ok env) p)) of
        Inl e \<Rightarrow> throw e
      | Inr scope \<Rightarrow>
          if scope \<noteq> None \<and> args = [] then throw (TypeError ''app.use(pattern) requires at least one middleware function'')
          else if scope = None \<and> 0 < length specs \<and> unexcused_fn (se_noop env) specs args
          then throw (TypeError ''app.use(fn) cannot run alongside sunk routes'')
          else if (case scope of None \<Rightarrow> False
                   | Some sc \<Rightarrow> list_ex (\<lambda>spec. scopeOverlapsPath (se_re_ok env) sc (sg_path spec) \<and> unexcused_fn (se_noop env) specs args) specs)
          then throw (TypeError ''app.use(pattern) middleware overlaps a natively-sunk path'')
          else ok scope)"

fun app_step :: "'h setup_env \<Rightarrow> ('h, 'w) kapp \<Rightarrow> ('h, 'w) app_op \<Rightarrow> ('h, 'w) kapp \<times> unit res"
  and app_use_loop :: "'h setup_env \<Rightarrow> mw_scope option \<Rightarrow> ('h, 'w) kapp \<Rightarrow> 'h list \<Rightarrow> bool \<Rightarrow> ('h, 'w) app_arg list
        \<Rightarrow> ('h, 'w) kapp \<times> bool res"
  and run_setup :: "'h setup_env \<Rightarrow> ('h, 'w) kapp \<Rightarrow> ('h, 'w) app_op list \<Rightarrow> ('h, 'w) kapp \<times> unit res" where
  "app_step env app (KUse input) =
     (case use_guard env app input of
        Inl e \<Rightarrow> (app, throw e)
      | Inr scope \<Rightarrow>
          (case app_use_loop env scope app [] False (use_rest input) of
             (app1, Inl e) \<Rightarrow> (app1, throw e)
           | (app1, Inr changed) \<Rightarrow> if changed then rebuildApp env app1 else (app1, ok ())))"
| "app_step env app (KVerb method args) =
     (case routeShortcut (se_re_ok env) (ka_router app) (ka_stack app) method args of (r, v) \<Rightarrow> (set_router r app, v))"
| "app_step env app (KOn method path handlers) = app_on env app method path handlers"
| "app_step env app (KSink path value) = app_sink env app path value"
| "app_step env app (KWs path handlers) = app_ws env app path handlers"
| "app_step env app (KParam name middleware) = app_param env app name middleware"
| "app_step env app (KMount pre sub) = app_mount env app pre sub"
| "app_step env app (KRedirect source destination code) =
     (case registerRedirect (se_re_ok env) (se_redirect env) (ka_router app) source destination code (ka_stack app) of
        (r, v) \<Rightarrow> (set_router r app, v))"
| "app_step env app (KOnError mapper) = app_onError app mapper"
| "app_use_loop env scope app pending changed [] =
     (let (st, ch) = flush scope (ka_stack app) pending changed in (app\<lparr>ka_stack := st\<rparr>, ok ch))"
| "app_use_loop env scope app pending changed (a # args) =
     (case a of
        KPlugin ops \<Rightarrow>
          if scope \<noteq> None then (app, throw (TypeError ''app.use(pattern, plugin) is invalid''))
          else (let (st, ch) = flush scope (ka_stack app) pending changed in
                case run_setup env (app\<lparr>ka_stack := st\<rparr>) ops of
                  (app1, Inl e) \<Rightarrow> (app1, throw e)
                | (app1, Inr _) \<Rightarrow> app_use_loop env scope app1 [] ch args)
      | KFun h \<Rightarrow> app_use_loop env scope app (pending @ [h]) changed args
      | _ \<Rightarrow> (app, throw (TypeError ''app.use() requires a middleware function or plugin'')))"
| "run_setup env app [] = (app, ok ())"
| "run_setup env app (op # ops) =
     (case app_step env app op of (app1, Inl e) \<Rightarrow> (app1, throw e) | (app1, Inr _) \<Rightarrow> run_setup env app1 ops)"

end
