(* ===== verification/ApplicationCorrect.thy ===== *)
theory ApplicationCorrect
  imports Application
begin

text \<open>
  Invariant of an application under setup: whatever the host server answers from its native table would have
  reached nothing but the sink's own mirror route. Every setup call preserves it, provided no function follows a
  plugin in a call of \<open>use\<close>; the last lemma shows that call breaking it.
\<close>

section \<open>Requests a pattern may answer\<close>

text \<open>The lenient reading, in which a wildcard also covers the bare prefix.\<close>

definition hits :: "(string \<Rightarrow> bool) \<Rightarrow> (string \<Rightarrow> string \<Rightarrow> bool) \<Rightarrow> string \<Rightarrow> string \<Rightarrow> bool" where
  "hits re_ok rx pattern path \<longleftrightarrow>
     (case compilePattern re_ok pattern of Inl _ \<Rightarrow> False
      | Inr ir \<Rightarrow> pat_matches rx True (segments ir) (splitSegments path))"

lemma hits_overlap: "hits re_ok rx a path \<Longrightarrow> hits re_ok rx b path \<Longrightarrow> patternsOverlap re_ok a b"
  by (auto simp: hits_def patternsOverlap_def split: sum.splits intro: overlap_sound dest: compilePattern_wf)

lemma pat_matches_lenient: "pat_matches rx slash ss parts \<Longrightarrow> pat_matches rx True ss parts"
  by (induction rx slash ss parts rule: pat_matches.induct) (auto split: seg_kind.splits list.splits)

lemma scope_loop_matches:
  assumes "scope_loop i n ss = Inr (vs, p)" and "i + length ss = n"
    and "if p then prefix vs (map decodeSegment parts) else vs = map decodeSegment parts"
  shows "pat_matches rx True ss parts"
  using assms
proof (induction ss arbitrary: i vs parts)
  case (Cons s ss)
  show ?case
  proof (cases "kind s = Static")
    case True
    with Cons.prems obtain ws where w: "scope_loop (Suc i) n ss = Inr (ws, p)" "vs = seg_value s # ws"
      by (auto simp: res_bind_ok)
    with Cons.prems obtain q qs where q: "parts = q # qs" "decodeSegment q = seg_value s"
      by (cases parts) (auto split: if_splits)
    with Cons.IH [OF w(1), of qs] Cons.prems w True show ?thesis by (auto split: if_splits)
  next
    case False
    with Cons.prems have "kind s = Wildcard" by (auto split: if_splits)
    then show ?thesis by simp
  qed
qed auto

lemma scope_hits:
  assumes "compileMiddlewareScope re_ok pat = Inr sc" and "scopeMatchesSegments sc (pathSegments path)"
  shows "hits re_ok rx (sc_pattern sc) path"
proof -
  obtain ir vs p where c: "compilePattern re_ok pat = Inr ir" "scope_loop 0 (length (segments ir)) (segments ir) = Inr (vs, p)"
    "sc = \<lparr>sc_pattern = pat, sc_segments = vs, sc_prefix = p\<rparr>"
    using assms(1) by (auto simp: compileMiddlewareScope_def res_bind_ok)
  have pre: "length a = length b \<Longrightarrow> prefix a b \<Longrightarrow> a = b" for a b :: "string list" by (auto simp: prefix_def)
  have "if p then prefix vs (map decodeSegment (splitSegments path)) else vs = map decodeSegment (splitSegments path)"
    using assms(2) c(3) by (auto simp: scopeMatchesSegments_def pathSegments_parts intro!: pre)
  from scope_loop_matches [OF c(2) _ this, of rx] c show ?thesis by (simp add: hits_def)
qed

text \<open>The path a route given as \<open>p\<close> to an application is registered under.\<close>

definition route_of :: "string \<Rightarrow> string" where
  "route_of p = normalizePath (if normalizePrefix p = [] then ''/'' else normalizePrefix p)"

lemma compile_parts_nonempty: "compile_parts re_ok parts = Inr ss \<Longrightarrow> [] \<notin> set parts"
  by (induction parts arbitrary: ss) (auto simp: res_bind_ok split: if_splits)

lemma split_ends: "js_split c (s @ [c]) = js_split c s @ [[]]"
  by (metis js_split_append js_split.simps(1))

lemma route_of_parts:
  assumes "hd p = CHR ''/''" and "p \<noteq> []" and "[] \<notin> set (path_parts p)"
  shows "path_parts (route_of p) = path_parts p \<and> route_of p \<noteq> [] \<and> hd (route_of p) = CHR ''/''"
proof (cases "1 < length p \<and> ends_with ''/'' p")
  case True
  then have "\<exists>q. p = q @ ''/''" by (simp add: suffix_def)
  then obtain q where q0: "p = q @ ''/''" by blast
  with True have "q \<noteq> []" by (cases q) simp_all
  note q = q0 this
  show ?thesis
  proof (cases "q = ''/''")
    case True
    with q show ?thesis by (simp add: route_of_def normalizePrefix_def path_parts_def normalizePath_def)
  next
    case False
    have "\<not> ends_with ''/'' q"
    proof
      assume "ends_with ''/'' q"
      then have "\<exists>r. q = r @ ''/''" by (simp add: suffix_def)
      then obtain r where r: "q = r @ ''/''" by blast
      with False have "r \<noteq> []" by auto
      moreover from this have "hd r = CHR ''/''" using assms(1) q r by simp
      ultimately obtain t where t: "r = CHR ''/'' # t" by (cases r) auto
      have n: "normalizePath p = q" using q by (auto simp: normalizePath_def suffix_def)
      have "tl (js_split CHR ''/'' q) = js_split CHR ''/'' t @ [[]]"
        using t r split_ends [of "CHR ''/''" r] by simp
      then have "[] \<in> set (path_parts p)" by (simp add: path_parts_def n Let_def)
      with assms(3) show False ..
    qed
    with q False assms(1) show ?thesis
      by (auto simp: route_of_def normalizePrefix_def path_parts_def normalizePath_def)
  qed
next
  case False
  then have "normalizePath p = p" by (auto simp: normalizePath_def)
  with False assms(1,2) show ?thesis
    by (cases p; cases "tl p") (auto simp: route_of_def normalizePrefix_def)
qed

lemma route_of_compile:
  assumes "compilePattern re_ok p = Inr ir"
  shows "compilePattern re_ok (route_of p) = Inr ir"
proof -
  have "p \<noteq> []" "hd p = CHR ''/''" "[] \<notin> set (path_parts p)"
    using compilePatternD [OF assms] compile_parts_nonempty by auto
  from route_of_parts [OF this(2,1,3)] assms \<open>p \<noteq> []\<close> \<open>hd p = _\<close> show ?thesis by (simp add: compilePattern_def)
qed

lemma route_of_hits: "hits re_ok rx p path \<Longrightarrow> hits re_ok rx (route_of p) path"
  by (auto simp: hits_def route_of_compile split: sum.splits)

section \<open>What setup calls do to the router\<close>

definition core :: "'h route_def \<Rightarrow> string \<times> string \<times> 'h mw list" where
  "core d = (rd_method d, rd_path d, rd_handlers d)"

text \<open>\<open>r'\<close> keeps the routes of \<open>r\<close> and adds only routes that stay clear of every sunk path.\<close>

definition grows :: "(string \<Rightarrow> bool) \<Rightarrow> 'h router_state \<Rightarrow> 'h router_state \<Rightarrow> bool" where
  "grows re_ok r r' \<longleftrightarrow> sunkPaths r' = sunkPaths r \<and> rs_prefix r' = rs_prefix r
     \<and> core ` set (defs r) \<subseteq> core ` set (defs r')
     \<and> (\<forall>d \<in> set (defs r'). core d \<in> core ` set (defs r) \<or> (\<forall>s \<in> set (sunkPaths r). \<not> patternsOverlap re_ok (rd_path d) s))"

lemma grows_refl [simp]: "grows re_ok r r" by (simp add: grows_def)

lemma core_path: "core d = core d' \<Longrightarrow> rd_path d = rd_path d'" by (simp add: core_def)

lemma grows_trans: "grows re_ok a b \<Longrightarrow> grows re_ok b c \<Longrightarrow> grows re_ok a c"
  unfolding grows_def by (smt (verit, ccfv_SIG) core_path image_iff subset_trans)

lemma grows_same_defs:
  "defs r' = defs r \<Longrightarrow> sunkPaths r' = sunkPaths r \<Longrightarrow> rs_prefix r' = rs_prefix r \<Longrightarrow> grows re_ok r r'"
  by (simp add: grows_def)

lemma registerDef_sunk:
  assumes "registerDef re_ok st method path handlers name mw pm = (st', r)"
  shows "sunkPaths st' = sunkPaths st"
    and "r = Inr def \<Longrightarrow> s \<in> set (sunkPaths st) \<Longrightarrow> \<not> patternsOverlap re_ok (rd_path def) s"
proof -
  show "r = Inr def \<Longrightarrow> s \<in> set (sunkPaths st) \<Longrightarrow> \<not> patternsOverlap re_ok (rd_path def) s"
    using assms by (auto simp: registerDef_def Let_def split: if_splits prod.splits sum.splits)
  show "sunkPaths st' = sunkPaths st"
    using assms unfolding registerDef_def Let_def
    by (auto split: if_splits prod.splits sum.splits dest!: bindDef_keeps rebuild_keeps)
qed

lemma registerDef_grows:
  assumes "registerDef re_ok st method path handlers name mw pm = (st', r)"
  shows "grows re_ok st st'"
  using registerDef_frame [OF assms] registerDef_sunk [OF assms] by (cases r) (auto simp: grows_def)

lemma set_wsKey_grows:
  assumes "registerDef re_ok st method path handlers name mw pm = (st', Inr def)"
  shows "grows re_ok st (set_wsKey key def st')"
  using registerDef_frame [OF assms] registerDef_sunk [OF assms]
  by (auto simp: grows_def set_wsKey_def core_def Let_def)

text \<open>Also the param middleware is kept.\<close>

definition grows_only :: "(string \<Rightarrow> bool) \<Rightarrow> 'h router_state \<Rightarrow> 'h router_state \<Rightarrow> bool" where
  "grows_only re_ok r r' \<longleftrightarrow> grows re_ok r r' \<and> paramMiddlewares r' = paramMiddlewares r"

lemma grows_only_refl [simp]: "grows_only re_ok r r" by (simp add: grows_only_def)

lemma grows_only_trans: "grows_only re_ok a b \<Longrightarrow> grows_only re_ok b c \<Longrightarrow> grows_only re_ok a c"
  unfolding grows_only_def by (metis grows_trans)

lemma registerDef_grows_only:
  "registerDef re_ok st method path handlers name mw pm = (st', r) \<Longrightarrow> grows_only re_ok st st'"
  unfolding grows_only_def using registerDef_grows registerDef_frame(3) by blast

lemma set_wsKey_grows_only:
  assumes "registerDef re_ok st method path handlers name mw pm = (st', Inr def)"
  shows "grows_only re_ok st (set_wsKey key def st')"
  unfolding grows_only_def using set_wsKey_grows [OF assms] registerDef_frame(3) [OF assms]
  by (simp add: set_wsKey_def Let_def)

lemma rebuild_grows_only: "grows_only re_ok st (fst (rebuildChains re_ok st mw))"
  using rebuild_keeps [of re_ok st mw] by (cases "rebuildChains re_ok st mw") (auto simp: grows_only_def intro: grows_same_defs)

lemmas grows_only_intros = registerDef_grows_only set_wsKey_grows_only

lemma shortcut_grows: "grows_only re_ok r (fst (routeShortcut re_ok r mw method args))"
  by (auto simp: routeShortcut_def Let_def intro: grows_only_intros split: list.split route_arg.split option.split prod.split sum.split)

lemma redirect_grows: "grows_only re_ok r (fst (registerRedirect re_ok rh r source destination code mw))"
  by (auto simp: registerRedirect_def intro: grows_only_intros split: prod.split sum.split)

lemma ws_grows: "grows_only re_ok (su_router su) (su_router (fst (registerWsRoute re_ok uh su mw pooling path h)))"
  by (auto simp: registerWsRoute_def Let_def intro: grows_only_intros split: prod.split sum.split)

lemma merge_ws_grows: "grows_only re_ok (su_router su) (su_router (fst (mergeMountedWs re_ok uh su path mm def mw handlers)))"
  by (auto simp: mergeMountedWs_def Let_def intro: grows_only_intros split: prod.split sum.split option.split)

lemma mount_one_grows: "grows_only re_ok (su_router su) (su_router (fst (mount_one re_ok uh mw pooling base off sub su def)))"
  using merge_ws_grows
  by (auto simp: mount_one_def Let_def intro: grows_only_intros split: prod.split sum.split)

lemma mount_defs_grows: "grows_only re_ok (su_router su) (su_router (fst (mount_defs re_ok uh mw pooling base off sub su ds)))"
proof (induction ds arbitrary: su)
  case (Cons def ds)
  obtain su' r where s: "mount_one re_ok uh mw pooling base off sub su def = (su', r)" by fastforce
  with mount_one_grows [of re_ok su uh mw pooling base off sub def] have "grows_only re_ok (su_router su) (su_router su')" by simp
  with Cons [of su'] s show ?case by (cases r) (auto intro: grows_only_trans)
qed simp

lemma mount_grows:
  assumes "mountInto re_ok uh self su mw pooling n pre sub = (su', v)"
  shows "grows re_ok (su_router su) (su_router su')"
    and "0 < n \<Longrightarrow> paramMiddlewares (su_router su') = paramMiddlewares (su_router su)"
proof -
  let ?r1 = "(su_router su)\<lparr>paramMiddlewares := mergeParams (paramMiddlewares (su_router su)) (sub_params sub)\<rparr>"
  obtain r q where r: "(if \<exists>(name, h) \<in> set (sub_params sub). \<not> jm_has (paramMiddlewares (su_router su)) name
      then rebuildChains re_ok ?r1 mw else (?r1, ok ())) = (r, q)" by fastforce
  have g1: "grows_only re_ok ?r1 r" using r rebuild_grows_only [of re_ok ?r1 mw] by (auto split: if_splits)
  have g: "grows re_ok (su_router su) ?r1" by (rule grows_same_defs) simp_all
  have g2: "grows re_ok (su_router su) r" using g g1 grows_trans unfolding grows_only_def by blast
  have g3: "grows_only re_ok r (su_router s')" if "mount_defs re_ok uh mw pooling base off sub (su\<lparr>su_router := r\<rparr>) ds = (s', w)" for base off ds s' w
    using mount_defs_grows [of re_ok "su\<lparr>su_router := r\<rparr>" uh mw pooling base off sub ds] that by simp
  have g4: "grows re_ok (su_router su) (su_router s')"
    if "mount_defs re_ok uh mw pooling base off sub (su\<lparr>su_router := r\<rparr>) ds = (s', w)" for base off ds s' w
    using g2 g3 [OF that] grows_trans unfolding grows_only_def by blast
  show "grows re_ok (su_router su) (su_router su')"
    using assms g2 unfolding mountInto_def Let_def r by (auto intro: g4 split: sum.splits if_splits)
  assume n: "0 < n"
  show "paramMiddlewares (su_router su') = paramMiddlewares (su_router su)"
  proof (cases "sub_params sub")
    case Nil
    with r have p: "paramMiddlewares r = paramMiddlewares (su_router su)" by (auto simp: mergeParams_def)
    have "paramMiddlewares (su_router s') = paramMiddlewares (su_router su)"
      if "mount_defs re_ok uh mw pooling base off sub (su\<lparr>su_router := r\<rparr>) ds = (s', w)" for base off ds s' w
      using g3 [OF that] p by (simp add: grows_only_def)
    with p show ?thesis using assms unfolding mountInto_def Let_def r by (auto split: sum.splits if_splits)
  next
    case (Cons a b)
    with assms n show ?thesis unfolding mountInto_def by (auto simp: Let_def split: sum.splits if_splits)
  qed
qed

section \<open>The native table bypasses nothing\<close>

definition is_mirror :: "'h setup_env \<Rightarrow> string \<Rightarrow> sink_entry \<Rightarrow> 'h route_def \<Rightarrow> bool" where
  "is_mirror env p e d \<longleftrightarrow> rd_method d = ''GET'' \<and> rd_handlers d = [Plain (se_mirror env (mirror_of p e))]"

text \<open>A middleware function with its scope that a request answered by the sink may bypass.\<close>

definition clear_of :: "'h setup_env \<Rightarrow> string \<Rightarrow> mw_scope option \<Rightarrow> 'h \<Rightarrow> bool" where
  "clear_of env p scope h \<longleftrightarrow> noOpExcuses (se_noop env) h GET_METHODS
     \<or> (\<exists>sc. scope = Some sc \<and> (\<forall>rx path. \<not> (scopeMatchesSegments sc (pathSegments path) \<and> hits (se_re_ok env) rx p path)))"

definition sink_safe :: "'h setup_env \<Rightarrow> ('h, 'w) kapp \<Rightarrow> string \<Rightarrow> sink_entry \<Rightarrow> bool" where
  "sink_safe env app p e \<longleftrightarrow>
     route_of p \<in> set (sunkPaths (ka_router app))
     \<and> (\<forall>l \<in> set (layers (ka_stack app)). clear_of env p (ly_scope l) (ly_handler l))
     \<and> paramMiddlewares (ka_router app) = []
     \<and> (\<exists>d \<in> set (defs (ka_router app)). is_mirror env p e d \<and> rd_path d = route_of p)
     \<and> (\<forall>d \<in> set (defs (ka_router app)). is_mirror env p e d
          \<or> (\<forall>rx path. \<not> (hits (se_re_ok env) rx p path \<and> hits (se_re_ok env) rx (rd_path d) path)))
     \<and> (\<forall>f. e = EntryFn f \<longrightarrow> ka_mapper app = None)"

definition scope_ok :: "'h setup_env \<Rightarrow> mw_scope option \<Rightarrow> bool" where
  "scope_ok env scope \<longleftrightarrow> (\<forall>sc. scope = Some sc \<longrightarrow> (\<exists>p. compileMiddlewareScope (se_re_ok env) p = Inr sc))"

definition native_safe :: "'h setup_env \<Rightarrow> ('h, 'w) kapp \<Rightarrow> bool" where
  "native_safe env app \<longleftrightarrow> rs_prefix (ka_router app) = []
     \<and> (\<forall>l \<in> set (layers (ka_stack app)). scope_ok env (ly_scope l))
     \<and> (\<forall>p e. jm_get (ka_sinks app) p = Some e \<longrightarrow> sink_safe env app p e)"

lemma ka_simps [simp]:
  "ka_router (set_router r app) = r" "ka_stack (set_router r app) = ka_stack app"
  "ka_sinks (set_router r app) = ka_sinks app" "ka_mapper (set_router r app) = ka_mapper app"
  "ka_router (app\<lparr>ka_sinks := s\<rparr>) = ka_router app" "ka_router (app\<lparr>ka_stack := k\<rparr>) = ka_router app"
  "ka_router (app\<lparr>ka_setup := su\<rparr>) = su_router su" "ka_router (app\<lparr>ka_mapper := m\<rparr>) = ka_router app"
  by (simp_all add: ka_router_def set_router_def)

lemma core_mirror: "core d = core d' \<Longrightarrow> is_mirror env p e d = is_mirror env p e d'"
  by (simp add: core_def is_mirror_def)

text \<open>A router that grew keeps a sink safe.\<close>

lemma sink_safe_grows:
  assumes safe: "sink_safe env app p e" and g: "grows_only (se_re_ok env) (ka_router app) (ka_router app')"
    and same: "ka_stack app' = ka_stack app" "ka_mapper app' = ka_mapper app"
  shows "sink_safe env app' p e"
proof -
  have clear: "is_mirror env p e d \<or> (\<forall>rx path. \<not> (hits (se_re_ok env) rx p path \<and> hits (se_re_ok env) rx (rd_path d) path))"
    if d: "d \<in> set (defs (ka_router app'))" for d
  proof -
    consider (old) d0 where "d0 \<in> set (defs (ka_router app))" "core d = core d0"
      | (new) "\<forall>s \<in> set (sunkPaths (ka_router app)). \<not> patternsOverlap (se_re_ok env) (rd_path d) s"
      using g d unfolding grows_only_def grows_def by blast
    then show ?thesis
    proof cases
      case old
      have "rd_path d0 = rd_path d" "is_mirror env p e d0 = is_mirror env p e d"
        using core_path [of d d0] core_mirror [of d d0] old(2) by auto
      then show ?thesis using safe old(1) unfolding sink_safe_def by metis
    next
      case new
      then show ?thesis using safe route_of_hits hits_overlap unfolding sink_safe_def by blast
    qed
  qed
  obtain d0 where d0: "d0 \<in> set (defs (ka_router app))" "is_mirror env p e d0" "rd_path d0 = route_of p"
    using safe by (auto simp: sink_safe_def)
  obtain d where d: "d \<in> set (defs (ka_router app'))" "core d = core d0"
    using g d0(1) unfolding grows_only_def grows_def by force
  have "is_mirror env p e d \<and> rd_path d = route_of p"
    using d0 core_mirror [OF d(2), of env p e] core_path [OF d(2)] by simp
  with d(1) clear safe g same show ?thesis by (auto simp: sink_safe_def grows_only_def grows_def)
qed

lemma native_safe_grows:
  assumes "native_safe env app" and "grows_only (se_re_ok env) (ka_router app) (ka_router app')"
    and "ka_stack app' = ka_stack app" "ka_mapper app' = ka_mapper app" "ka_sinks app' = ka_sinks app"
  shows "native_safe env app'"
  using assms sink_safe_grows [OF _ assms(2-4)] by (auto simp: native_safe_def grows_only_def grows_def)

text \<open>So does one whose params changed while there was no sink.\<close>

lemma native_safe_no_sinks:
  assumes "native_safe env app" and "ka_sinks app = []" and "ka_sinks app' = []"
    and "rs_prefix (ka_router app') = rs_prefix (ka_router app)" and "ka_stack app' = ka_stack app"
  shows "native_safe env app'"
  using assms by (simp add: native_safe_def)

section \<open>Adding middleware\<close>

lemma addMiddleware_adds:
  "layers (addMiddleware st scope hs) = layers st @ map (\<lambda>h. \<lparr>ly_scope = scope, ly_handler = h\<rparr>) hs"
proof -
  have "layers (foldl (\<lambda>st h. st\<lparr>layers := layers st @ [\<lparr>ly_scope = scope, ly_handler = h\<rparr>],
           global := (if scope = None then global st @ [h] else global st)\<rparr>) st hs)
       = layers st @ map (\<lambda>h. \<lparr>ly_scope = scope, ly_handler = h\<rparr>) hs"
    by (induction hs rule: rev_induct) auto
  then show ?thesis by (simp add: addMiddleware_def)
qed

lemma flush_adds:
  "layers (fst (flush scope st pending ch)) = layers st @ map (\<lambda>h. \<lparr>ly_scope = scope, ly_handler = h\<rparr>) pending"
  by (simp add: flush_def addMiddleware_adds)

lemma flush_safe:
  assumes "native_safe env app" and "scope_ok env scope"
    and "\<And>p e h. jm_get (ka_sinks app) p = Some e \<Longrightarrow> h \<in> set pending \<Longrightarrow> clear_of env p scope h"
  shows "native_safe env (app\<lparr>ka_stack := fst (flush scope (ka_stack app) pending ch)\<rparr>)"
  using assms by (auto simp: native_safe_def sink_safe_def flush_adds)

section \<open>Adding a sink\<close>

lemma conflict_free:
  assumes "middlewareConflictForPath re_ok noop st p methods = None" and "l \<in> set (layers st)"
  shows "noOpExcuses noop (ly_handler l) methods
    \<or> (\<exists>sc. ly_scope l = Some sc \<and> \<not> scopeOverlapsPath re_ok sc p)"
  using assms by (auto simp: middlewareConflictForPath_def first_some_None split: if_splits option.splits)

lemma conflict_free_clear:
  assumes "middlewareConflictForPath (se_re_ok env) (se_noop env) st p GET_METHODS = None"
    and "l \<in> set (layers st)" and "scope_ok env (ly_scope l)"
  shows "clear_of env p (ly_scope l) (ly_handler l)"
proof (rule disjE [OF conflict_free [OF assms(1,2)]])
  assume "\<exists>sc. ly_scope l = Some sc \<and> \<not> scopeOverlapsPath (se_re_ok env) sc p"
  then obtain sc q where sc: "ly_scope l = Some sc" "compileMiddlewareScope (se_re_ok env) q = Inr sc"
    "\<not> patternsOverlap (se_re_ok env) (sc_pattern sc) p" using assms(3) by (auto simp: scope_ok_def scopeOverlapsPath_def)
  then show ?thesis unfolding clear_of_def using scope_hits hits_overlap by blast
qed (simp add: clear_of_def)

lemma no_conflict_overlap: "conflictsWithAny re_ok p ds = None \<Longrightarrow> d \<in> set ds \<Longrightarrow> \<not> patternsOverlap re_ok p (rd_path d)"
  by (auto simp: conflictsWithAny_def first_some_None split: if_splits)

lemma make_def_route: "rs_prefix st = [] \<Longrightarrow> rd_path (make_def st m path hs name pm) = route_of path"
  by (simp add: make_def_def Let_def route_of_def)

lemma set_add_set [simp]: "set (set_add x xs) = insert x (set xs)"
  by (auto simp: set_add_def)

lemma fold_set_add [simp]: "set (fold (\<lambda>d. set_add (f d)) ds xs) = f ` set ds \<union> set xs"
  by (induction ds arbitrary: xs) auto

lemma mirrorSink_spec:
  assumes "mirrorSink re_ok mirror_h r sinks p e mw = (r', sinks', v)" and "rs_prefix r = []"
  shows "case v of Inl _ \<Rightarrow> sinks' = sinks \<and> grows_only re_ok r r'
    | Inr _ \<Rightarrow> sinks' = jm_set p e sinks \<and> (\<exists>r1 S. grows_only re_ok r r1 \<and> r' = r1\<lparr>sunkPaths := S\<rparr>
        \<and> set (sunkPaths r) \<subseteq> set S \<and> route_of p \<in> set S
        \<and> (\<exists>ds. defs r1 = defs r @ ds \<and> (\<forall>d \<in> set ds. rd_method d = ''GET'' \<and> rd_handlers d = [Plain (mirror_h (mirror_of p e))])
             \<and> (\<exists>d \<in> set ds. rd_path d = route_of p)))"
proof -
  let ?hs = "[Plain (mirror_h (mirror_of p e))]"
  obtain r1 v1 where reg1: "registerDef re_ok r ''GET'' p ?hs None mw [] = (r1, v1)" by fastforce
  note f1 = registerDef_frame [OF reg1] and g1 = registerDef_grows_only [OF reg1] and s1 = registerDef_sunk(1) [OF reg1]
  have up: "to_upper ''GET'' = ''GET''" by code_simp
  show ?thesis
  proof (cases v1)
    case (Inl err)
    with assms(1) reg1 g1 show ?thesis by (auto simp: mirrorSink_def)
  next
    case (Inr d1)
    with f1(1) have d1: "d1 = make_def r ''GET'' p ?hs None []" "defs r1 = defs r @ [d1]" using up by simp_all
    then have d1': "rd_method d1 = ''GET''" "rd_handlers d1 = ?hs" "rd_path d1 = route_of p"
      using make_def_route [OF assms(2)] by (simp_all add: make_def_def Let_def)
    show ?thesis
    proof (cases "\<exists>dir. e = EntryDir dir")
      case False
      with assms(1) reg1 Inr have r': "r' = markSunk r1" "sinks' = jm_set p e sinks" "v = Inr ()"
        by (auto simp: mirrorSink_def Let_def split: sink_entry.splits)
      have "r' = r1\<lparr>sunkPaths := set_add (rd_path d1) (sunkPaths r1)\<rparr>" using r'(1) d1 by (simp add: markSunk_def)
      with r' d1(2) d1' g1 s1 show ?thesis
        by (auto intro!: exI [of _ r1] exI [of _ "set_add (rd_path d1) (sunkPaths r1)"])
    next
      case True
      let ?pre = "if dir_prefix p = [] then ''/'' else dir_prefix p"
      obtain r2 v2 where reg2: "registerDef re_ok r1 ''GET'' ?pre ?hs None mw [] = (r2, v2)" by fastforce
      note f2 = registerDef_frame [OF reg2] and s2 = registerDef_sunk(1) [OF reg2]
      have g2: "grows_only re_ok r r2" using g1 registerDef_grows_only [OF reg2] grows_only_trans by blast
      show ?thesis
      proof (cases v2)
        case (Inl err)
        with assms(1) reg1 Inr True reg2 g2 show ?thesis by (auto simp: mirrorSink_def Let_def)
      next
        case (Inr d2)
        with f2(1) up have d2: "d2 = make_def r1 ''GET'' ?pre ?hs None []" "defs r2 = defs r1 @ [d2]" by simp_all
        then have d2': "rd_method d2 = ''GET''" "rd_handlers d2 = ?hs" by (simp_all add: make_def_def Let_def)
        define S where "S = fold (\<lambda>def. set_add (rd_path def)) (drop (length (defs r)) (defs r2)) (sunkPaths r2)"
        have S: "set S = {rd_path d1, rd_path d2} \<union> set (sunkPaths r)" using d1(2) d2(2) s1 s2 by (simp add: S_def insert_commute)
        have "r' = r2\<lparr>sunkPaths := S\<rparr>" "sinks' = jm_set p e sinks" "v = Inr ()"
          using assms(1) reg1 \<open>v1 = _\<close> True reg2 Inr by (auto simp: mirrorSink_def Let_def S_def)
        with g2 S d1(2) d2(2) d1' d2' show ?thesis by (auto intro!: exI [of _ r2] exI [of _ S])
      qed
    qed
  qed
qed

lemma sink_safe_more_sunk:
  "sink_safe env (set_router r1 app) p e \<Longrightarrow> set (sunkPaths r1) \<subseteq> set S \<Longrightarrow>
     sink_safe env ((set_router (r1\<lparr>sunkPaths := S\<rparr>) app)\<lparr>ka_sinks := sinks\<rparr>) p e"
  by (auto simp: sink_safe_def)

lemma sink_entry_mapper: "sink_entry_of re_ok p v m = Inr (EntryFn f) \<Longrightarrow> \<not> m"
  by (auto simp: sink_entry_of_def res_bind_ok split: sink_value.splits if_splits)

lemma app_sink_safe:
  assumes safe: "native_safe env app"
  shows "native_safe env (fst (app_sink env app p value))"
proof -
  let ?re = "se_re_ok env" and ?r = "ka_router app" and ?st = "ka_stack app"
  obtain r' sinks' v where reg: "registerSink ?re (se_noop env) (se_mirror env) ?r (ka_sinks app) p value ?st
      (ka_mapper app \<noteq> None) = (r', sinks', v)" by (metis prod_cases3)
  have pre: "rs_prefix ?r = []" using safe by (simp add: native_safe_def)
  have res: "fst (app_sink env app p value) = (set_router r' app)\<lparr>ka_sinks := sinks'\<rparr>" unfolding app_sink_def reg by simp
  consider (refused) "r' = ?r" "sinks' = ka_sinks app"
    | (mirrored) e where "middlewareConflictForPath ?re (se_noop env) ?st p GET_METHODS = None" "paramMiddlewares ?r = []"
        "sink_entry_of ?re p value (ka_mapper app \<noteq> None) = Inr e" "conflictsWithAny ?re p (defs ?r) = None"
        "mirrorSink ?re (se_mirror env) ?r (ka_sinks app) p e ?st = (r', sinks', v)"
    using reg unfolding registerSink_def by (auto split: if_splits sum.splits)
  then show ?thesis
  proof cases
    case refused
    have "native_safe env ((set_router ?r app)\<lparr>ka_sinks := ka_sinks app\<rparr>)"
      by (rule native_safe_grows [OF safe]) simp_all
    then show ?thesis using res refused by simp
  next
    case mirrored
    note spec = mirrorSink_spec [OF mirrored(5) pre]
    show ?thesis
    proof (cases v)
      case (Inl err)
      have "native_safe env ((set_router r' app)\<lparr>ka_sinks := sinks'\<rparr>)"
        by (rule native_safe_grows [OF safe]) (use spec Inl in simp_all)
      then show ?thesis using res by simp
    next
      case (Inr u)
      with spec obtain r1 S ds where s: "sinks' = jm_set p e (ka_sinks app)" "grows_only ?re ?r r1" "r' = r1\<lparr>sunkPaths := S\<rparr>"
        "set (sunkPaths ?r) \<subseteq> set S" "route_of p \<in> set S" "defs r1 = defs ?r @ ds"
        "\<forall>d \<in> set ds. rd_method d = ''GET'' \<and> rd_handlers d = [Plain (se_mirror env (mirror_of p e))]"
        "\<exists>d \<in> set ds. rd_path d = route_of p" by auto
      have keep: "sunkPaths r1 = sunkPaths ?r" "rs_prefix r1 = []" "paramMiddlewares r1 = []"
        using s(2) pre mirrored(2) by (auto simp: grows_only_def grows_def)
      have old: "sink_safe env ((set_router r' app)\<lparr>ka_sinks := sinks'\<rparr>) q e'" if q: "jm_get (ka_sinks app) q = Some e'" for q e'
      proof -
        have "sink_safe env app q e'" using safe q by (simp add: native_safe_def)
        then have "sink_safe env (set_router r1 app) q e'"
          by (rule sink_safe_grows) (use s(2) in simp_all)
        then show ?thesis unfolding s(3) by (rule sink_safe_more_sunk) (use keep s(4) in simp)
      qed
      have clear: "\<forall>l \<in> set (layers ?st). clear_of env p (ly_scope l) (ly_handler l)"
        using conflict_free_clear [OF mirrored(1)] safe by (auto simp: native_safe_def)
      have fresh: "is_mirror env p e d \<or> \<not> (hits ?re rx p path \<and> hits ?re rx (rd_path d) path)"
        if "d \<in> set (defs r1)" for d rx path
        using that s(6,7) no_conflict_overlap [OF mirrored(4), of d] hits_overlap [of ?re rx p path "rd_path d"]
        by (auto simp: is_mirror_def)
      have mir: "\<exists>d \<in> set (defs r1). is_mirror env p e d \<and> rd_path d = route_of p"
        using s(6-8) by (auto simp: is_mirror_def)
      have "e = EntryFn f \<Longrightarrow> ka_mapper app = None" for f using sink_entry_mapper mirrored(3) by blast
      with clear fresh mir keep(3) s(5) have "sink_safe env ((set_router r' app)\<lparr>ka_sinks := sinks'\<rparr>) p e"
        unfolding sink_safe_def s(3) by simp blast
      with old s(1) safe keep show ?thesis by (auto simp: res s(3) native_safe_def split: if_splits)
    qed
  qed
qed

section \<open>The setup calls\<close>

text \<open>Calls of \<open>use\<close> in which no function follows a plugin, also inside the plugins.\<close>

fun plugins_last :: "('h, 'w) app_op \<Rightarrow> bool" and args_last :: "('h, 'w) app_arg list \<Rightarrow> bool"
  and ops_last :: "('h, 'w) app_op list \<Rightarrow> bool" where
  "plugins_last (KUse args) = args_last args"
| "plugins_last _ = True"
| "args_last [] = True"
| "args_last (a # args) = (case a of
      KPlugin ops \<Rightarrow> ops_last ops \<and> list_all (\<lambda>b. case b of KFun _ \<Rightarrow> False | _ \<Rightarrow> True) args \<and> args_last args
    | _ \<Rightarrow> args_last args)"
| "ops_last [] = True"
| "ops_last (op # ops) = (plugins_last op \<and> ops_last ops)"

lemma spec_methods [simp]: "sg_methods spec = GET_METHODS" if "spec \<in> set (sinkGuardSpecs sunk sinks)"
  using that by (auto simp: sinkGuardSpecs_def GET_METHODS_def split: option.splits sink_entry.splits)

lemma spec_paths: "sg_path ` set (sinkGuardSpecs sunk sinks) = set sunk"
  by (force simp: sinkGuardSpecs_def)

lemma map_sum_ok [simp]: "map_sum id f r = Inr b \<longleftrightarrow> (\<exists>a. r = Inr a \<and> f a = b)"
  by (cases r) auto

lemma use_guard_clear:
  assumes "native_safe env app" and "use_guard env app input = Inr scope"
    and "jm_get (ka_sinks app) p = Some e" and "KFun h \<in> set (use_rest input)"
  shows "clear_of env p scope h"
proof (cases "noOpExcuses (se_noop env) h GET_METHODS")
  case False
  let ?specs = "sinkGuardSpecs (sunkPaths (ka_router app)) (ka_sinks app)"
  have "route_of p \<in> set (sunkPaths (ka_router app))" using assms(1,3) by (auto simp: native_safe_def sink_safe_def)
  then obtain spec where spec: "spec \<in> set ?specs" "sg_path spec = route_of p" using spec_paths by (metis imageE)
  with False have un: "unexcused_fn (se_noop env) ?specs (use_rest input)"
    using assms(4) by (auto simp: unexcused_fn_def list_ex_iff list_all_iff intro!: bexI [of _ "KFun h"] bexI [of _ spec])
  have "0 < length ?specs" using spec(1) by (cases ?specs) auto
  with un assms(2) have "scope \<noteq> None" by (auto simp: use_guard_def Let_def split: sum.splits if_splits)
  then obtain sc where sc: "scope = Some sc" by auto
  obtain q where q: "compileMiddlewareScope (se_re_ok env) q = Inr sc"
    using assms(2) sc by (auto simp: use_guard_def Let_def split: sum.splits if_splits option.splits)
  have "\<not> scopeOverlapsPath (se_re_ok env) sc (route_of p)"
    using assms(2) sc un spec by (auto simp: use_guard_def Let_def list_ex_iff split: sum.splits if_splits)
  then have "\<not> (scopeMatchesSegments sc (pathSegments path) \<and> hits (se_re_ok env) rx p path)" for rx path
    using scope_hits [OF q] route_of_hits hits_overlap unfolding scopeOverlapsPath_def by blast
  with sc show ?thesis by (auto simp: clear_of_def)
qed (simp add: clear_of_def)

lemma use_guard_scope: "use_guard env app input = Inr scope \<Longrightarrow> scope_ok env scope"
  by (auto simp: use_guard_def Let_def scope_ok_def split: sum.splits if_splits option.splits)

lemma rebuildApp_safe: "native_safe env app \<Longrightarrow> native_safe env (fst (rebuildApp env app))"
  by (erule native_safe_grows)
    (use rebuild_grows_only [of "se_re_ok env" "ka_router app" "ka_stack app"] in \<open>simp_all add: rebuildApp_def case_prod_beta\<close>)

lemma app_param_safe: "native_safe env app \<Longrightarrow> native_safe env (fst (app_param env app name middleware))"
proof -
  assume safe: "native_safe env app"
  let ?a = "\<lambda>h. set_router ((ka_router app)\<lparr>paramMiddlewares := jm_set name h (paramMiddlewares (ka_router app))\<rparr>) app"
  have "ka_sinks app = [] \<Longrightarrow> native_safe env (?a h)" for h
    by (rule native_safe_no_sinks [OF safe]) simp_all
  then show ?thesis using safe by (auto simp: app_param_def rebuildApp_safe split: option.split)
qed

lemma app_mount_safe: "native_safe env app \<Longrightarrow> native_safe env (fst (app_mount env app pre sub))"
proof -
  assume safe: "native_safe env app"
  obtain su v where m: "app_mount env app pre sub = (app\<lparr>ka_setup := su\<rparr>, v)"
    and g: "grows (se_re_ok env) (ka_router app) (su_router su)"
    and p: "ka_sinks app \<noteq> [] \<Longrightarrow> paramMiddlewares (su_router su) = paramMiddlewares (ka_router app)"
  proof -
    define s where "s = (case sub of None \<Rightarrow> SubApp (ka_router app) (ka_stack app) (su_ws (ka_setup app)) | Some s \<Rightarrow> s)"
    obtain su v where m: "mountInto (se_re_ok env) (se_upgrade env) (sub = None) (ka_setup app) (ka_stack app) (ka_pooling app)
        (length (ka_sinks app)) pre s = (su, v)" by fastforce
    show thesis
      by (rule that [of su v]) (use m mount_grows [OF m] in \<open>simp_all add: app_mount_def s_def ka_router_def\<close>)
  qed
  show ?thesis
  proof (cases "ka_sinks app")
    case Nil
    show ?thesis by (rule native_safe_no_sinks [OF safe]) (use Nil m g in \<open>simp_all add: grows_def\<close>)
  next
    case (Cons a b)
    show ?thesis by (rule native_safe_grows [OF safe]) (use Cons m g p in \<open>simp_all add: grows_only_def\<close>)
  qed
qed

lemma app_ws_safe: "native_safe env app \<Longrightarrow> native_safe env (fst (app_ws env app path handlers))"
  by (erule native_safe_grows)
    (use ws_grows [of "se_re_ok env" "ka_setup app" "se_upgrade env" "ka_stack app" "ka_pooling app" path handlers]
      in \<open>simp_all add: app_ws_def ka_router_def case_prod_beta\<close>)

lemma app_on_safe: "native_safe env app \<Longrightarrow> native_safe env (fst (app_on env app method path handlers))"
  by (erule native_safe_grows) (auto simp: app_on_def intro: registerDef_grows_only split: prod.splits sum.splits)

lemma app_onError_safe: "native_safe env app \<Longrightarrow> native_safe env (fst (app_onError app mapper))"
proof (cases "fst (app_onError app mapper) = app")
  case False
  assume safe: "native_safe env app"
  from False obtain m where "fst (app_onError app mapper) = app\<lparr>ka_mapper := Some m\<rparr>"
    and none: "\<forall>x \<in> set (ka_sinks app). case snd x of EntryFn _ \<Rightarrow> False | _ \<Rightarrow> True"
    by (auto simp: app_onError_def list_ex_iff case_prod_beta split: option.splits if_splits sink_entry.splits)
  moreover have "e \<noteq> EntryFn f" if "jm_get (ka_sinks app) p = Some e" for p e f
    using none map_of_SomeD [OF that [unfolded jm_get_def]] by (auto split: sink_entry.splits)
  ultimately show ?thesis using safe by (auto simp: native_safe_def sink_safe_def)
qed simp

lemma shortcut_safe:
  "native_safe env app \<Longrightarrow> native_safe env (fst (app_step env app (KVerb meth args)))"
  by (erule native_safe_grows)
    (use shortcut_grows [of "se_re_ok env" "ka_router app" "ka_stack app" meth args] in \<open>simp_all add: case_prod_beta\<close>)

lemma redirect_safe:
  "native_safe env app \<Longrightarrow> native_safe env (fst (app_step env app (KRedirect source destination code)))"
  by (erule native_safe_grows)
    (use redirect_grows [of "se_re_ok env" "ka_router app" "se_redirect env" source destination code "ka_stack app"]
      in \<open>simp_all add: case_prod_beta\<close>)

lemma setup_safe:
  "native_safe env app \<Longrightarrow> plugins_last op \<Longrightarrow> native_safe env (fst (app_step env app op))"
  "native_safe env app \<Longrightarrow> scope_ok env scope \<Longrightarrow> args_last args \<Longrightarrow>
     (\<And>p e h. jm_get (ka_sinks app) p = Some e \<Longrightarrow> h \<in> set pending \<or> KFun h \<in> set args \<Longrightarrow> clear_of env p scope h) \<Longrightarrow>
     native_safe env (fst (app_use_loop env scope app pending changed args))"
  "native_safe env app \<Longrightarrow> ops_last ops \<Longrightarrow> native_safe env (fst (run_setup env app ops))"
proof (induction env app op and env scope app pending changed args and env app ops
    rule: app_step_app_use_loop_run_setup.induct)
  case (1 env app input)
  show ?case
  proof (cases "use_guard env app input")
    case (Inr scope)
    have "args_last (use_rest input)" using 1(3) by (auto simp: use_rest_def split: list.split app_arg.split)
    then have safe: "native_safe env (fst (app_use_loop env scope app [] False (use_rest input)))"
      using 1(1) [OF Inr 1(2) use_guard_scope [OF Inr]] use_guard_clear [OF 1(2) Inr] by simp
    obtain a1 r where "app_use_loop env scope app [] False (use_rest input) = (a1, r)" by fastforce
    with safe rebuildApp_safe Inr show ?thesis by (auto split: sum.split)
  qed (use 1 in simp)
next
  case (11 env scope app pending changed a args)
  show ?case
  proof (cases a)
    case (KPlugin ops)
    show ?thesis
    proof (cases "scope = None")
      case True
      obtain st ch where f: "flush scope (ka_stack app) pending changed = (st, ch)" by fastforce
      have s1: "native_safe env (app\<lparr>ka_stack := st\<rparr>)"
        using flush_safe [OF 11(4,5), of pending changed] 11(7) f by simp
      obtain app1 r where r: "run_setup env (app\<lparr>ka_stack := st\<rparr>) ops = (app1, r)" by fastforce
      have s2: "native_safe env app1" using 11(2) [OF KPlugin _ f [symmetric] refl s1] r True 11(6) KPlugin by simp
      have nof: "KFun h \<notin> set args" for h using 11(6) KPlugin by (auto simp: list_all_iff)
      show ?thesis
      proof (cases r)
        case (Inr u)
        then have "native_safe env (fst (app_use_loop env scope app1 [] ch args))"
          using 11(3) [OF KPlugin _ f [symmetric] refl _ _ s2 11(5)] f r True 11(6) KPlugin nof by auto
        with f r True KPlugin Inr show ?thesis by simp
      qed (use f r True KPlugin s2 in simp)
    qed (use KPlugin 11(4) in simp)
  next
    case (KFun h)
    then show ?thesis using 11(1) [OF KFun 11(4,5)] 11(6,7) by auto
  qed (use 11(4) in simp_all)
next
  case (13 env app op ops)
  obtain app1 r where r: "app_step env app op = (app1, r)" by fastforce
  then have "native_safe env app1" using 13(1,3,4) by simp
  with 13(2,4) r show ?case by (cases r) auto
next
  case (2 env app meth args)
  then show ?case using shortcut_safe by blast
next
  case (8 env app source destination code)
  then show ?case using redirect_safe by blast
next
  case (10 env scope app pending changed)
  then show ?case using flush_safe [of env app scope pending changed] by (simp add: Let_def case_prod_beta)
qed (simp_all add: app_on_safe app_sink_safe app_ws_safe app_param_safe app_mount_safe app_onError_safe)

lemma native_safe_create: "native_safe env (createApp dev pooling)"
  by (simp add: native_safe_def createApp_def ka_router_def createRouterState_def createMiddlewareStack_def normalizePrefix_def)

text \<open>The application after its setup calls, each with whatever it throws dropped.\<close>

definition setup_app :: "'h setup_env \<Rightarrow> bool \<Rightarrow> bool \<Rightarrow> ('h, 'w) app_op list \<Rightarrow> ('h, 'w) kapp" where
  "setup_app env dev pooling ops = foldl (\<lambda>app op. fst (app_step env app op)) (createApp dev pooling) ops"

lemma setup_app_safe: "list_all plugins_last ops \<Longrightarrow> native_safe env (setup_app env dev pooling ops)"
  by (induction ops rule: rev_induct) (simp_all add: setup_app_def native_safe_create setup_safe(1))


section \<open>On concrete setups\<close>

definition demo_env :: "nat setup_env" where
  "demo_env = \<lparr>se_re_ok = (\<lambda>_. True),
     se_noop = (\<lambda>h. if h = 5 then Some \<lparr>nd_methods = None, nd_bodyless = True\<rparr> else None),
     se_upgrade = (\<lambda>_ _. 0), se_redirect = (\<lambda>_. 0),
     se_mirror = (\<lambda>m. case m of MirrorResponse n \<Rightarrow> 100 + n | MirrorFn n \<Rightarrow> 200 + n | MirrorDir _ _ \<Rightarrow> 300)\<rparr>"

definition demo_setup :: "(nat, unit) app_op list" where
  "demo_setup = [KUse [KFun 5], KSink ''/health'' (SinkResponse 1 False), KVerb ''GET'' [AStr ''/health'', AFn (Plain 8)],
     KVerb ''GET'' [AStr ''/users/:id'', AFn (Plain 9)], KUse [KString ''/users/*'', KFun 7]]"


text \<open>A function that follows a plugin is checked against the sinks before the plugin ran: the plugin's own
  sink is then bypassing the function.\<close>

lemma function_after_plugin_bypassed:
  "let app = setup_app demo_env False False [KUse [KPlugin [KSink ''/health'' (SinkResponse 1 False)], KFun (7 :: nat)] :: (nat, unit) app_op] in
   jm_get (ka_sinks app) ''/health'' = Some (EntryResponse 1)
   \<and> layers (ka_stack app) = [\<lparr>ly_scope = None, ly_handler = 7\<rparr>] \<and> \<not> noOpExcuses (se_noop demo_env) 7 GET_METHODS"
  by code_simp

end
