(* ===== verification/Url.thy ===== *)
theory Url
  imports Strings
begin

text \<open>
  Slicing of the request URL, src/utils/url.ts and src/core/request-url.ts, and \<open>encodeUrlValue\<close>, which
  makes a string fit for a Location header. Strings are UTF-8 bytes, so a code point above 0x7E is
  the run of its bytes, each escaped.
\<close>

section \<open>Path and query\<close>

text \<open>The first position from \<open>i\<close> on whose character satisfies the test, the length if there is none.\<close>

definition scan :: "(char \<Rightarrow> bool) \<Rightarrow> string \<Rightarrow> nat \<Rightarrow> nat" where
  "scan P s i = i + length (takeWhile (\<lambda>c. \<not> P c) (drop i s))"

definition index_from :: "char \<Rightarrow> string \<Rightarrow> nat \<Rightarrow> nat option" where
  "index_from c s i = map_option (\<lambda>k. i + k) (index_of c (drop i s))"

definition path_stop :: "char \<Rightarrow> bool" where "path_stop c \<longleftrightarrow> c = CHR ''?'' \<or> c = CHR ''#''"

definition getPathStart :: "string \<Rightarrow> nat" where
  "getPathStart url =
     (if prefix ''/'' url then 0
      else case index_of_str ''://'' url 0 of
        None \<Rightarrow> 0
      | Some scheme \<Rightarrow> scan (\<lambda>c. c = CHR ''/'' \<or> path_stop c) url (scheme + 3))"

definition getPath :: "string \<Rightarrow> string" where
  "getPath url =
     (let start = getPathStart url; stop = scan path_stop url start; path = js_slice start stop url
      in if path = [] then ''/'' else path)"

definition getSearch :: "string \<Rightarrow> string" where
  "getSearch url =
     (let limit = (case index_of CHR ''#'' url of None \<Rightarrow> length url | Some h \<Rightarrow> h) in
      case index_of CHR ''?'' url of
        None \<Rightarrow> []
      | Some query \<Rightarrow> if limit < query then [] else js_slice query limit url)"

text \<open>\<open>primeRequestUrl\<close>: the path it returns and the url view it stores.\<close>

definition primeRequestUrl :: "string \<Rightarrow> string \<times> string" where
  "primeRequestUrl url =
     (let start = getPathStart url; query = index_from CHR ''?'' url start; hash = index_from CHR ''#'' url start;
          sawQuery = (case query of None \<Rightarrow> False | Some q \<Rightarrow> (case hash of None \<Rightarrow> True | Some h \<Rightarrow> q < h));
          stop = (if sawQuery then query else hash);
          rawPath = (case stop of None \<Rightarrow> drop start url | Some e \<Rightarrow> js_slice start e url);
          path = (if rawPath = [] then ''/'' else rawPath);
          view = (if sawQuery then js_slice start (case hash of None \<Rightarrow> length url | Some h \<Rightarrow> h) url else path)
      in (path, if sawQuery \<and> rawPath = [] then CHR ''/'' # view else view))"

section \<open>Location values\<close>

definition location_unsafe :: "char \<Rightarrow> bool" where
  "location_unsafe c \<longleftrightarrow> (of_char c :: nat) > 0x7e \<or> (of_char c :: nat) < 0x21
     \<or> c \<in> {CHR 0x22, CHR ''<'', CHR ''>'', CHR 0x60, CHR ''{'', CHR ''}'', CHR 0x5C}"

fun encodeUrlValue :: "string \<Rightarrow> string" where
  "encodeUrlValue [] = []"
| "encodeUrlValue (c # s) =
     (if c = CHR ''%'' then
        (case s of
           a # b # rest \<Rightarrow> if is_hex a \<and> is_hex b then c # a # b # encodeUrlValue rest
                           else ''%25'' @ encodeUrlValue s
         | _ \<Rightarrow> ''%25'' @ encodeUrlValue s)
      else (if location_unsafe c then escape_byte c else [c]) @ encodeUrlValue s)"

section \<open>One scan instead of two\<close>

lemma scan_bound: "i \<le> length s \<Longrightarrow> scan P s i \<le> length s"
  using length_takeWhile_le [of "\<lambda>c. \<not> P c" "drop i s"] by (simp add: scan_def)

lemma slice_scan: "js_slice i (scan P s i) s = takeWhile (\<lambda>c. \<not> P c) (drop i s)"
  by (simp add: js_slice_def scan_def takeWhile_eq_take [symmetric])

lemma slice_from: "js_slice i (i + k) s = take k (drop i s)"
  by (simp add: js_slice_def)

lemma index_of_append: "c \<notin> set p \<Longrightarrow> index_of c (p @ r) = map_option (\<lambda>k. length p + k) (index_of c r)"
  by (induction p) (auto simp: index_of_def)

lemma index_of_Cons: "index_of c (d # r) = (if c = d then Some 0 else map_option Suc (index_of c r))"
  by (auto simp: index_of_def)

lemma stop_split:
  obtains p r where "t = p @ r" "takeWhile (\<lambda>c. \<not> path_stop c) t = p" "CHR ''?'' \<notin> set p" "CHR ''#'' \<notin> set p"
    "r = [] \<or> (\<exists>r'. r = CHR ''?'' # r') \<or> (\<exists>r'. r = CHR ''#'' # r')"
proof -
  let ?p = "takeWhile (\<lambda>c. \<not> path_stop c) t" and ?r = "dropWhile (\<lambda>c. \<not> path_stop c) t"
  have p: "CHR ''?'' \<notin> set ?p" "CHR ''#'' \<notin> set ?p"
    using set_takeWhileD [of "CHR ''?''" "\<lambda>c. \<not> path_stop c" t] set_takeWhileD [of "CHR ''#''" "\<lambda>c. \<not> path_stop c" t]
    by (metis path_stop_def)+
  have "?r = [] \<or> (\<exists>r'. ?r = CHR ''?'' # r') \<or> (\<exists>r'. ?r = CHR ''#'' # r')"
  proof (cases ?r)
    case (Cons a l)
    then have "path_stop a" using hd_dropWhile [of "\<lambda>c. \<not> path_stop c" t] by simp
    with Cons show ?thesis unfolding path_stop_def by blast
  qed simp
  with p show ?thesis by (intro that [of ?p ?r]) simp_all
qed

text \<open>The scan of a target (the part from the path start on).\<close>

definition prime_target :: "string \<Rightarrow> string \<times> string" where
  "prime_target t =
     (let query = index_of CHR ''?'' t; hash = index_of CHR ''#'' t;
          sawQuery = (case query of None \<Rightarrow> False | Some q \<Rightarrow> (case hash of None \<Rightarrow> True | Some h \<Rightarrow> q < h));
          rawPath = (case (if sawQuery then query else hash) of None \<Rightarrow> t | Some e \<Rightarrow> take e t);
          path = (if rawPath = [] then ''/'' else rawPath);
          view = (if sawQuery then take (case hash of None \<Rightarrow> length t | Some h \<Rightarrow> h) t else path)
      in (path, if sawQuery \<and> rawPath = [] then CHR ''/'' # view else view))"

lemma primeRequestUrl_target:
  assumes "getPathStart url \<le> length url"
  shows "primeRequestUrl url = prime_target (drop (getPathStart url) url)"
proof -
  let ?s = "getPathStart url" let ?t = "drop ?s url"
  have idx: "index_from c url ?s = map_option (\<lambda>k. ?s + k) (index_of c ?t)" for c by (simp add: index_from_def)
  show ?thesis
    unfolding primeRequestUrl_def prime_target_def Let_def idx
    by (cases "index_of CHR ''?'' ?t"; cases "index_of CHR ''#'' ?t") (simp_all add: js_slice_def del: index_of_None)
qed

lemma prime_target_views:
  "prime_target t = (let p = takeWhile (\<lambda>c. \<not> path_stop c) t; path = (if p = [] then ''/'' else p) in (path, path @ getSearch t))"
proof -
  obtain p r where t: "t = p @ r" "takeWhile (\<lambda>c. \<not> path_stop c) t = p" "CHR ''?'' \<notin> set p" "CHR ''#'' \<notin> set p"
    "r = [] \<or> (\<exists>r'. r = CHR ''?'' # r') \<or> (\<exists>r'. r = CHR ''#'' # r')" using stop_split by blast
  from t(5) consider "r = []" | r' where "r = CHR ''?'' # r'" | r' where "r = CHR ''#'' # r'" by blast
  then show ?thesis
  proof cases
    case 1
    then have i: "index_of CHR ''?'' t = None" "index_of CHR ''#'' t = None" using t by (simp_all add: index_of_def)
    have "takeWhile (\<lambda>c. \<not> path_stop c) t = t" using 1 t(1,2) by simp
    then show ?thesis unfolding prime_target_def getSearch_def Let_def i option.case if_False by (simp only: append_Nil2 simp_thms if_False)
  next
    case 2
    have q: "index_of CHR ''?'' t = Some (length p)" "index_of CHR ''#'' t = map_option (\<lambda>k. length p + Suc k) (index_of CHR ''#'' r')"
      using t(1,3,4) 2 by (simp_all add: index_of_append index_of_Cons option.map_comp comp_def)
    show ?thesis
      unfolding prime_target_def getSearch_def Let_def t(2) q
      by (cases "index_of CHR ''#'' r'") (simp_all add: t(1) 2 js_slice_def del: index_of_None)
  next
    case 3
    have q: "index_of CHR ''#'' t = Some (length p)" "index_of CHR ''?'' t = map_option (\<lambda>k. length p + Suc k) (index_of CHR ''?'' r')"
      using t(1,3,4) 3 by (simp_all add: index_of_append index_of_Cons option.map_comp comp_def)
    show ?thesis
      unfolding prime_target_def getSearch_def Let_def t(2) q
      by (cases "index_of CHR ''?'' r'") (simp_all add: t(1) 3 js_slice_def del: index_of_None)
  qed
qed

lemma getPathStart_le: "getPathStart url \<le> length url"
proof -
  have "scheme + 3 \<le> length url" if "index_of_str ''://'' url 0 = Some scheme" for scheme
    using find_from_bound [of "''://''" url 0 scheme] that by (auto simp: index_of_str_def dest!: prefix_length_le)
  then show ?thesis by (auto simp: getPathStart_def intro!: scan_bound split: option.split)
qed

text \<open>The one-pass split of the request URL gives the path and the url view of the two separate scans.\<close>

lemma prime_views:
  assumes "\<forall>c \<in> set (take (getPathStart url) url). \<not> path_stop c"
  shows "primeRequestUrl url = (getPath url, getPath url @ getSearch url)"
proof -
  let ?s = "getPathStart url" let ?t = "drop ?s url" let ?a = "take ?s url"
  have path: "getPath url = (let p = takeWhile (\<lambda>c. \<not> path_stop c) ?t in if p = [] then ''/'' else p)"
    by (simp add: getPath_def Let_def slice_scan)
  have no: "CHR ''?'' \<notin> set ?a" "CHR ''#'' \<notin> set ?a" using assms by (auto simp: path_stop_def)
  have idx: "index_of c url = map_option (\<lambda>k. ?s + k) (index_of c ?t)" if "c \<notin> set ?a" for c
    using index_of_append [OF that, of ?t] getPathStart_le [of url] by (simp add: min_def)
  have "getSearch url = getSearch ?t"
    unfolding getSearch_def Let_def idx [OF no(1)] idx [OF no(2)]
    using getPathStart_le [of url]
    by (cases "index_of CHR ''?'' ?t"; cases "index_of CHR ''#'' ?t") (auto simp: js_slice_def add.commute simp del: index_of_None)
  then show ?thesis
    using primeRequestUrl_target [OF getPathStart_le] prime_target_views [of ?t] path by (simp add: Let_def)
qed

section \<open>Locations are safe\<close>

lemma is_hex_safe: "is_hex c \<Longrightarrow> \<not> location_unsafe c \<and> c \<noteq> CHR ''%''"
  by (auto simp: is_hex_def hex_val_def location_unsafe_def Let_def split: if_splits)

lemma hex_digit_hex: "n < 16 \<Longrightarrow> is_hex (hex_digit n)"
  by (simp add: is_hex_def hex_val_digit)

lemma escape_hex: "escape_byte c = [CHR ''%'', hex_digit (of_char c div 16), hex_digit (of_char c mod 16)]
    \<and> is_hex (hex_digit (of_char c div 16)) \<and> is_hex (hex_digit (of_char c mod 16))"
  by (simp add: escape_byte_def hex_digit_hex of_char_div)

text \<open>The encoder of Location values leaves nothing a header or a URL parser could misread (no control
  byte, space, quote, backslash or non-ASCII byte, every percent sign starts an escape), and encoding
  an encoded value changes nothing.\<close>

lemma encodeUrlValue_safe:
  "(\<forall>c \<in> set (encodeUrlValue s). \<not> location_unsafe c) \<and> encodeUrlValue (encodeUrlValue s) = encodeUrlValue s"
proof (induction s rule: encodeUrlValue.induct)
  case (2 c s)
  have esc: "(\<forall>x \<in> set (escape_byte c @ t). \<not> location_unsafe x) \<and> encodeUrlValue (escape_byte c @ t) = escape_byte c @ t"
    if "(\<forall>x \<in> set t. \<not> location_unsafe x) \<and> encodeUrlValue t = t" for t
    using that escape_hex [of c] is_hex_safe by (auto simp: location_unsafe_def)
  have hex: "is_hex CHR ''2''" "is_hex CHR ''5''" by code_simp+
  have pct: "\<not> location_unsafe CHR ''%''" "\<not> location_unsafe CHR ''2''" "\<not> location_unsafe CHR ''5''" by code_simp+
  show ?case
  proof (cases "c = CHR ''%''")
    case True
    show ?thesis
    proof (cases "\<exists>a b r. s = a # b # r \<and> is_hex a \<and> is_hex b")
      case hx: True
      then obtain a b r where s: "s = a # b # r" "is_hex a" "is_hex b" by blast
      have "(\<forall>c \<in> set (encodeUrlValue r). \<not> location_unsafe c) \<and> encodeUrlValue (encodeUrlValue r) = encodeUrlValue r"
        using 2(3) [OF True s(1) refl] s by simp
      with s True is_hex_safe pct show ?thesis by simp
    next
      case False
      then have "encodeUrlValue (c # s) = ''%25'' @ encodeUrlValue s"
        using True by (auto split: list.split)
      moreover have "(\<forall>x \<in> set (encodeUrlValue s). \<not> location_unsafe x) \<and> encodeUrlValue (encodeUrlValue s) = encodeUrlValue s"
      proof (cases s)
        case Nil
        show ?thesis by (rule 2(1) [OF True Nil])
      next
        case s: (Cons a t)
        show ?thesis
        proof (cases t)
          case Nil
          show ?thesis by (rule 2(2) [OF True s Nil])
        next
          case (Cons b r)
          with False s have "\<not> (is_hex a \<and> is_hex b)" by blast
          then show ?thesis by (rule 2(4) [OF True s Cons])
        qed
      qed
      ultimately show ?thesis using hex pct by simp
    qed
  next
    case False
    let ?e = "if location_unsafe c then escape_byte c else [c]"
    have e: "encodeUrlValue (c # s) = ?e @ encodeUrlValue s" using False by simp
    note ih = 2(5) [OF False]
    show ?thesis
    proof (cases "location_unsafe c")
      case True
      with e have "encodeUrlValue (c # s) = escape_byte c @ encodeUrlValue s" by simp
      with esc [OF ih] show ?thesis by (simp del: encodeUrlValue.simps)
    next
      case safe: False
      with e have "encodeUrlValue (c # s) = c # encodeUrlValue s" by simp
      moreover have "encodeUrlValue (c # encodeUrlValue s) = c # encodeUrlValue (encodeUrlValue s)"
        using False safe by simp
      ultimately show ?thesis using ih safe by (simp del: encodeUrlValue.simps)
    qed
  qed
qed simp

lemma encodeUrlValue_safe_witness: "encodeUrlValue ''/a%20b'' = ''/a%20b'' \<and> encodeUrlValue ''/a b'' = ''/a%20b''"
proof -
  have e: "encodeUrlValue ''/a b'' = ''/a%20b''"
    by (simp add: location_unsafe_def escape_byte_def hex_digit_def char_of_def bit_0)
  have "encodeUrlValue (encodeUrlValue ''/a b'') = encodeUrlValue ''/a b''"
    using encodeUrlValue_safe [of "''/a b''"] by (rule conjunct2)
  then show ?thesis by (simp only: e simp_thms)
qed

end
