(* ===== verification/Dispatch.thy ===== *)
theory Dispatch
  imports ErrorFunnel Url MiddlewareCorrect
begin

text \<open>
  Request dispatch, src/core/dispatch.ts: one request from the URL to the answer. The application's
  middleware values are of a type \<open>'h\<close> with their programs in \<open>ap_handlers\<close>; a context carries what the
  dispatcher publishes (\<open>dreq\<close>). Answers are those of the error funnel, a plain response being one
  without text. The set of keys already warned about (\<open>swallowWarned\<close>) is threaded through.
\<close>

section \<open>Contexts and applications\<close>

record 'u dreq =
  dq_method :: string                    \<comment> \<open>as the request has it\<close>
  dq_path :: string
  dq_view :: string                      \<comment> \<open>\<open>urlValue\<close>\<close>
  dq_record :: "header_map option"
  dq_allowed :: "string list option"
  dq_status :: nat
  dq_names :: "string list"
  dq_values :: "string option list"
  dq_offset :: nat
  dq_routePath :: string
  dq_routeName :: "string option"
  dq_state :: 'u

type_synonym 'u rctx = "'u dreq ctx"

record ('h, 'u) app =
  ap_env :: string
  ap_mapper :: "error_mapper option"
  ap_notFound :: "'u rctx \<Rightarrow> response option res"
  ap_onStreamError :: bool
  ap_unknownMethodAs404 :: bool
  ap_handlers :: "'h \<Rightarrow> 'u rctx prog"

record request_source =
  rq_method :: string
  rq_url :: string

text \<open>The fresh context of a request.\<close>

definition createContext :: "('h, 'u) app \<Rightarrow> request_source \<Rightarrow> 'u \<Rightarrow> 'u rctx" where
  "createContext ap rq u = \<lparr>cx_res = None, cx_dev = (ap_env ap = ''development''), cx_stalled = False, cx_reached = False,
     cx_discarded = [],
     cx_user = \<lparr>dq_method = rq_method rq, dq_path = [], dq_view = [], dq_record = None, dq_allowed = None, dq_status = 404,
                dq_names = [], dq_values = [], dq_offset = 0, dq_routePath = [], dq_routeName = None, dq_state = u\<rparr>\<rparr>"

definition on_user :: "('u dreq \<Rightarrow> 'u dreq) \<Rightarrow> 'u rctx \<Rightarrow> 'u rctx" where
  "on_user f c = c\<lparr>cx_user := f (cx_user c)\<rparr>"

definition fin_of :: "('h, 'u) app \<Rightarrow> 'u rctx \<Rightarrow> fin_ctx" where
  "fin_of ap c = \<lparr>fc_method = dq_method (cx_user c), fc_hdr = \<lparr>hs_record = dq_record (cx_user c), hs_res = cx_res c\<rparr>,
     fc_allowed = dq_allowed (cx_user c), fc_status = dq_status (cx_user c), fc_unknownMethodAs404 = ap_unknownMethodAs404 ap,
     fc_onStreamError = ap_onStreamError ap, fc_notFound = ap_notFound ap c\<rparr>"

text \<open>\<open>c.params(name)\<close>: the last capture of a repeated name.\<close>

definition last_index_of :: "string \<Rightarrow> string list \<Rightarrow> nat option" where
  "last_index_of n ns = (if n \<in> set ns then Some (length ns - 1 - length (takeWhile (\<lambda>x. x \<noteq> n) (rev ns))) else None)"

definition params :: "'u rctx \<Rightarrow> string \<Rightarrow> string option" where
  "params c name =
     (case last_index_of name (dq_names (cx_user c)) of
        None \<Rightarrow> None
      | Some index \<Rightarrow>
          if index + dq_offset (cx_user c) < length (dq_values (cx_user c))
          then dq_values (cx_user c) ! (index + dq_offset (cx_user c)) else None)"

section \<open>Running a chain\<close>

text \<open>Handlers that only call \<open>return next()\<close>, the conditional wrapper and the reached marker.\<close>

definition pass_through :: "'c prog" where
  "pass_through = Next (\<lambda>r. case r of Inl e \<Rightarrow> Raise e | Inr _ \<Rightarrow> Return Undefined)"

definition mw_prog :: "('h, 'u) app \<Rightarrow> 'h mw \<Rightarrow> 'u rctx prog" where
  "mw_prog ap m =
     (case m of Plain h \<Rightarrow> ap_handlers ap h
      | Conditional scope h off \<Rightarrow>
          Observe (\<lambda>c. if mw_runs (dq_path (cx_user c)) m then ap_handlers ap h else pass_through))"

definition markRouteReached :: "'u rctx prog" where
  "markRouteReached = Effect (\<lambda>c. c\<lparr>cx_reached := True\<rparr>) pass_through"

definition item_prog :: "('h, 'u) app \<Rightarrow> 'h chain_item \<Rightarrow> 'u rctx prog" where
  "item_prog ap it = (case it of Item m \<Rightarrow> mw_prog ap m | MarkReached \<Rightarrow> markRouteReached)"

definition run_chain :: "('h, 'u) app \<Rightarrow> 'h chain \<Rightarrow> 'u rctx level" where
  "run_chain ap ch = (case ch of Direct m \<Rightarrow> direct (mw_prog ap m) | Composed items \<Rightarrow> compose (map (item_prog ap) items))"

section \<open>Finishing\<close>

definition funnel :: "('h, 'u) app \<Rightarrow> 'u rctx \<Rightarrow> js_error \<Rightarrow> error_answer" where
  "funnel ap c err = snd (errorResponse (ap_env ap) (ap_mapper ap) (fin_of ap c) err)"

definition finalizeGuarded :: "('h, 'u) app \<Rightarrow> 'u rctx \<Rightarrow> error_answer" where
  "finalizeGuarded ap c =
     (case finalize (fin_of ap c) of
        (_, Inr rb) \<Rightarrow> plain_answer rb
      | (f, Inl err) \<Rightarrow> snd (errorResponse (ap_env ap) (ap_mapper ap) f err))"

record route_trace =
  tr_method :: string
  tr_path :: string
  tr_marked :: bool

definition trace_key :: "route_trace \<Rightarrow> string" where "trace_key t = tr_method t @ '' '' @ tr_path t"

text \<open>Each of these gives the keys warned about so far and whether it warned now.\<close>

definition warnOnce :: "string list \<Rightarrow> string \<Rightarrow> string list \<times> bool" where
  "warnOnce seen key = (if key \<in> set seen then (seen, False) else (seen @ [key], True))"

definition warnIfSwallowed :: "string list \<Rightarrow> 'u rctx \<Rightarrow> route_trace \<Rightarrow> string list \<times> bool" where
  "warnIfSwallowed seen c trace =
     (if \<not> tr_marked trace \<or> cx_reached c then (seen, False) else warnOnce seen (trace_key trace))"

definition warnIfStalled :: "string list \<Rightarrow> 'u rctx \<Rightarrow> route_trace \<Rightarrow> string list" where
  "warnIfStalled seen c trace =
     (if \<not> cx_stalled c \<or> cx_res c \<noteq> None then seen else fst (warnOnce seen (trace_key trace)))"

definition finishDispatch ::
  "('h, 'u) app \<Rightarrow> string list \<Rightarrow> 'u rctx \<Rightarrow> route_trace option \<Rightarrow> string list \<times> error_answer" where
  "finishDispatch ap seen c trace =
     (case trace of None \<Rightarrow> (seen, finalizeGuarded ap c)
      | Some t \<Rightarrow> (case warnIfSwallowed seen c t of
          (seen1, warned) \<Rightarrow> (if warned then seen1 else warnIfStalled seen1 c t, finalizeGuarded ap c)))"

definition dispatchChain ::
  "('h, 'u) app \<Rightarrow> string list \<Rightarrow> 'u rctx \<Rightarrow> 'u rctx level \<Rightarrow> route_trace option \<Rightarrow> string list \<times> error_answer" where
  "dispatchChain ap seen c ch trace =
     (case ch NOOP_TAIL c of
        (c1, Inl err) \<Rightarrow> (seen, funnel ap c1 err)
      | (c1, Inr _) \<Rightarrow> finishDispatch ap seen c1 trace)"

definition finishDirect :: "('h, 'u) app \<Rightarrow> 'u rctx \<Rightarrow> handler_value \<Rightarrow> string \<Rightarrow> error_answer" where
  "finishDirect ap c result method =
     (case result of
        Undefined \<Rightarrow> finalizeGuarded ap c
      | Thenable \<Rightarrow> funnel ap c (TypeError ''handler returned a promise'')
      | OtherValue t \<Rightarrow> funnel ap c (TypeError (''handler returned '' @ t))
      | Returned res \<Rightarrow>
          if dq_record (cx_user c) = None \<and> method \<noteq> ''HEAD'' \<and> \<not> ap_onStreamError ap
             \<and> \<not> (isEmptyStatus (rs_status res) \<and> rs_body res \<noteq> None)
          then plain_answer (res, [])
          else finalizeGuarded ap (c\<lparr>cx_res := Some res\<rparr>))"

definition dispatchDirect :: "('h, 'u) app \<Rightarrow> 'u rctx \<Rightarrow> 'u rctx prog \<Rightarrow> string \<Rightarrow> error_answer" where
  "dispatchDirect ap c handler method =
     (case guarded handler NOOP_TAIL c of
        (c1, Inl err) \<Rightarrow> funnel ap c1 err
      | (c1, Inr result) \<Rightarrow> finishDirect ap c1 result method)"

section \<open>Choosing the chain\<close>

definition publishMatch :: "'u rctx \<Rightarrow> route_match \<Rightarrow> 'h route_target \<Rightarrow> 'u rctx" where
  "publishMatch c m target = on_user (\<lambda>d. d\<lparr>dq_names := rm_names m, dq_values := rm_values m, dq_offset := rm_offset m,
     dq_routePath := rt_pattern target, dq_routeName := rt_name target\<rparr>) c"

definition alternateMethodChain :: "'h route_target \<Rightarrow> string \<Rightarrow> 'h chain option" where
  "alternateMethodChain target method =
     or_else (if method = ''HEAD'' then jm_get (rt_methods target) ''GET'' else None) (jm_get (rt_methods target) ''ALL'')"

definition allow_methods :: "'h route_target \<Rightarrow> 'u rctx \<Rightarrow> 'u rctx" where
  "allow_methods target c =
     (if rt_allowed target = [] then c
      else on_user (\<lambda>d. d\<lparr>dq_allowed := Some (fold set_add (rt_allowed target) (case dq_allowed d of None \<Rightarrow> [] | Some a \<Rightarrow> a))\<rparr>) c)"

definition dispatchFallback ::
  "('h, 'u) app \<Rightarrow> string list \<Rightarrow> 'u rctx \<Rightarrow> 'h mw_stack \<Rightarrow> string \<Rightarrow> 'h route_target option \<Rightarrow> string list \<times> error_answer" where
  "dispatchFallback ap seen c middleware path target =
     (let c1 = (case target of None \<Rightarrow> c | Some t \<Rightarrow> allow_methods t c) in
      case fallbackMiddlewareForPath middleware path of
        None \<Rightarrow> (seen, finalizeGuarded ap c1)
      | Some fallback \<Rightarrow> dispatchChain ap seen c1 (compose (map (ap_handlers ap) fallback)) None)"

definition dispatchRoutedChain ::
  "('h, 'u) app \<Rightarrow> string list \<Rightarrow> 'u rctx \<Rightarrow> 'h chain \<Rightarrow> 'h router_state \<Rightarrow> 'h mw_stack \<Rightarrow> string \<Rightarrow> string
     \<Rightarrow> string list \<times> error_answer" where
  "dispatchRoutedChain ap seen c ch router middleware method path =
     dispatchChain ap seen c (run_chain ap ch)
       (if devTrace router then Some \<lparr>tr_method = method, tr_path = path, tr_marked = hasMiddlewareForPath middleware path\<rparr>
        else None)"

definition dispatchRequest ::
  "(string \<Rightarrow> string \<Rightarrow> bool) \<Rightarrow> ('h, 'u) app \<Rightarrow> string list \<Rightarrow> 'u rctx \<Rightarrow> 'h router_state \<Rightarrow> 'h mw_stack
     \<Rightarrow> request_source \<Rightarrow> 'h router_state \<times> string list \<times> error_answer" where
  "dispatchRequest rx ap seen c router middleware request =
     (let (path, view) = primeRequestUrl (rq_url request);
          c0 = on_user (\<lambda>d. d\<lparr>dq_path := path, dq_view := view\<rparr>) c;
          (router1, matched) = matchRoute rx router path
      in (router1,
          case matched of
            None \<Rightarrow> dispatchFallback ap seen c0 middleware path None
          | Some m \<Rightarrow>
              (let target = rs_targets router1 ! rm_target m;
                   c1 = publishMatch c0 m target;
                   method = to_upper (rq_method request)
               in case or_else (jm_get (rt_methods target) method) (alternateMethodChain target method) of
                    Some (Direct h) \<Rightarrow> (seen, dispatchDirect ap c1 (mw_prog ap h) method)
                  | Some (Composed items) \<Rightarrow> dispatchRoutedChain ap seen c1 (Composed items) router1 middleware method path
                  | None \<Rightarrow> dispatchFallback ap seen c1 middleware path (Some target))))"

section \<open>The direct path\<close>

definition framed_empty :: "response \<Rightarrow> bool" where
  "framed_empty r \<longleftrightarrow> isEmptyStatus (rs_status r) \<and> rs_body r = None \<and> (\<exists>n. describes_body n \<and> h_has (rs_headers r) n)"

lemma finalize_plain:
  assumes "cx_res c = Some r" and "dq_record (cx_user c) = None" and "dq_method (cx_user c) \<noteq> ''HEAD''"
    and "\<not> ap_onStreamError ap" and "\<not> (isEmptyStatus (rs_status r) \<and> rs_body r \<noteq> None)" and "\<not> framed_empty r"
  shows "finalizeGuarded ap c = plain_answer (r, [])"
proof -
  have d: "describes_body ''content-type''" "describes_body ''content-length''" "describes_body ''transfer-encoding''"
    by (simp_all add: describes_body_def)
  have "\<not> (isEmptyStatus (rs_status r) \<and> (rs_body r \<noteq> None \<or> h_has (rs_headers r) ''content-type''
      \<or> h_has (rs_headers r) ''content-length'' \<or> h_has (rs_headers r) ''transfer-encoding''))"
    using assms(5,6) d unfolding framed_empty_def by metis
  then have "finishCommitted (fin_of ap c) r = (r, [])"
    using assms(2-4) by (auto simp: finishCommitted_def fin_of_def apply_record_def Let_def)
  then show ?thesis using assms(1) by (simp add: finalizeGuarded_def finalize_def fin_of_def)
qed

lemma chain_direct:
  "dispatchChain ap seen c (direct p) None =
     (seen, case guarded p NOOP_TAIL c of
        (c1, Inl err) \<Rightarrow> funnel ap c1 err
      | (c1, Inr v) \<Rightarrow> (case commit c1 v of (c2, Inl err) \<Rightarrow> funnel ap c2 err | (c2, Inr _) \<Rightarrow> finalizeGuarded ap c2))"
  by (simp add: dispatchChain_def direct_def finishDispatch_def split: prod.split sum.split)


definition demo_app :: "(nat \<Rightarrow> unit rctx prog) \<Rightarrow> (nat, unit) app" where
  "demo_app f = \<lparr>ap_env = ''test'', ap_mapper = None, ap_notFound = (\<lambda>_. Inr None), ap_onStreamError = False,
     ap_unknownMethodAs404 = False, ap_handlers = f\<rparr>"

definition demo_rctx :: "(nat, unit) app \<Rightarrow> string \<Rightarrow> unit rctx" where
  "demo_rctx ap method = createContext ap \<lparr>rq_method = method, rq_url = ''/a''\<rparr> ()"


text \<open>On such an empty status the direct path skips the finalizer and ships the headers of a body.\<close>

lemma direct_empty_status_unsanitized:
  "let ap = demo_app (\<lambda>_. Return Undefined); r = (demo_response 204 [(''content-type'', ''text/html'')])\<lparr>rs_body := None\<rparr>;
       p = Return (Returned r) in
   h_has (rs_headers (ea_res (dispatchDirect ap (demo_rctx ap ''GET'') p ''GET''))) ''content-type''
   \<and> \<not> h_has (rs_headers (ea_res (snd (dispatchChain ap [] (demo_rctx ap ''GET'') (direct p) None)))) ''content-type''"
  by code_simp

section \<open>The chain a route runs\<close>

definition on_path :: "string \<Rightarrow> 'u rctx \<Rightarrow> bool" where
  "on_path path c \<longleftrightarrow> production c \<and> dq_path (cx_user c) = path"

lemma on_path_production: "on_path path c \<Longrightarrow> production c"
  by (simp add: on_path_def)

lemma stable_on_path: "stable (on_path path)"
proof -
  have "on_path path = (\<lambda>c :: 'a rctx. \<not> cx_dev c \<and> dq_path (cx_user c) = path)"
    by (simp add: fun_eq_iff on_path_def production_def)
  with stable_user [of "\<lambda>u d. \<not> d \<and> dq_path u = path"] show ?thesis by simp
qed

lemma pass_through_level: "makeLevel pass_through b below tail c = below tail c"
  by (simp add: makeLevel_def pass_through_def commit_def markStalled_def split: prod.split sum.split)

text \<open>A planned layer is its handler where it runs and transparent where it does not.\<close>

lemma mw_level:
  assumes "on_path path c"
  shows "makeLevel (mw_prog ap m) b below tail c =
    (if mw_runs path m then makeLevel (ap_handlers ap (mw_handler m)) b below tail c else below tail c)"
proof (cases m)
  case (Plain h)
  then show ?thesis by (simp add: mw_prog_def mw_runs_def mw_handler_def)
next
  case (Conditional scope h off)
  have "makeLevel (Observe g) b below tail c = makeLevel (g c) b below tail c" for g
    by (simp add: makeLevel_def)
  moreover have "dq_path (cx_user c) = path" using assms by (simp add: on_path_def)
  ultimately show ?thesis using pass_through_level [of b below tail c] by (simp add: Conditional mw_prog_def mw_handler_def)
qed

lemma pass_through_keeps: "keeps I pass_through"
  by (simp add: pass_through_def split: sum.split)

lemma mw_prog_keeps: "\<forall>h. keeps I (ap_handlers ap h) \<Longrightarrow> keeps I (mw_prog ap m)"
  by (simp add: mw_prog_def pass_through_keeps split: mw.split)

lemma planned_effective:
  assumes keep: "\<forall>h. keeps (on_path path) (ap_handlers ap h)"
    and tail: "\<And>c. on_path path c \<Longrightarrow> on_path path (fst (tail c))" and "on_path path c"
  shows "compose (map (mw_prog ap) ms @ map (mw_prog ap) rest) tail c =
    compose (map (ap_handlers ap) (map mw_handler (filter (mw_runs path) ms)) @ map (mw_prog ap) rest) tail c"
  using assms(3)
proof (induction ms arbitrary: c)
  case (Cons m ms)
  let ?f = "\<lambda>ms. map (ap_handlers ap) (map mw_handler (filter (mw_runs path) ms)) @ map (mw_prog ap) rest"
  let ?below = "compose (map (mw_prog ap) ms @ map (mw_prog ap) rest)"
  have inv: "on_path path (fst (?below tail d))" if "on_path path d" for d
    by (rule compose_keeps [OF stable_on_path _ tail that]) (use mw_prog_keeps [OF keep] in auto)
  show ?case
  proof (cases "mw_runs path m")
    case True
    have "makeLevel (ap_handlers ap (mw_handler m)) b ?below tail c
        = makeLevel (ap_handlers ap (mw_handler m)) b' (compose (?f ms)) tail c" for b b'
      by (rule level_cong_on [where I = "on_path path", OF stable_on_path on_path_production _ Cons.prems])
        (use keep Cons.IH inv in auto)
    with True show ?thesis using mw_level [OF Cons.prems, of ap m _ ?below tail] by simp
  next
    case False
    with Cons.IH [OF Cons.prems] show ?thesis using mw_level [OF Cons.prems, of ap m _ ?below tail] by simp
  qed
qed simp

text \<open>C3: in production the chain compiled for a route runs, for a request its pattern matches, exactly the
  application middleware whose scope covers the request path, in registration order, around the route's
  own handlers.\<close>

theorem route_chain_correct:
  assumes "middlewareForRoute re_ok stack pattern 0 = Inr planned" and "compilePattern re_ok pattern = Inr ir"
    and "pat_matches rx (trailing_slash path) (segments ir) (splitSegments path)"
    and "\<forall>h. keeps (on_path path) (ap_handlers ap h)" and "on_path path c"
  shows "run_chain ap (route_chainOf handlers planned False) NOOP_TAIL c =
    compose (map (ap_handlers ap) (map ly_handler (filter (in_scope path) (layers stack))) @ map (mw_prog ap) handlers) NOOP_TAIL c"
proof -
  have planned: "planned = route_layers (segments ir) 0 (layers stack)"
    using assms(1,2) by (simp add: middlewareForRoute_def)
  have "run_chain ap (route_chainOf handlers planned False) = compose (map (mw_prog ap) planned @ map (mw_prog ap) handlers)"
  proof (cases "planned = [] \<and> length handlers = 1")
    case True
    then obtain h where "handlers = [h]" by (auto simp: length_Suc_conv)
    with True direct_eq_compose show ?thesis by (simp add: route_chainOf_def run_chain_def)
  next
    case False
    have "item_prog ap \<circ> Item = mw_prog ap" by (simp add: fun_eq_iff item_prog_def)
    with False show ?thesis by (auto simp: route_chainOf_def run_chain_def)
  qed
  moreover have "compose (map (mw_prog ap) planned @ map (mw_prog ap) handlers) NOOP_TAIL c =
      compose (map (ap_handlers ap) (map mw_handler (filter (mw_runs path) planned)) @ map (mw_prog ap) handlers) NOOP_TAIL c"
    by (rule planned_effective [OF assms(4) _ assms(5)]) (simp add: NOOP_TAIL_def)
  ultimately show ?thesis
    using route_layers_runs [OF assms(3), of "layers stack"] unfolding planned by simp
qed

definition demo_stack :: "nat mw_stack" where
  "demo_stack = addMiddleware (addMiddleware createMiddlewareStack (Some \<lparr>sc_pattern = ''/a'', sc_segments = [''a''], sc_prefix = False\<rparr>) [1]) None [2]"

lemma route_chain_correct_witness:
  "let ap = demo_app (\<lambda>h. pass_through); c = on_user (\<lambda>d. d\<lparr>dq_path := ''/b''\<rparr>) (demo_rctx ap ''GET'') in
   \<exists>planned. middlewareForRoute (\<lambda>_. True) demo_stack ''/:x'' 0 = Inr planned \<and> length planned = 2
     \<and> run_chain ap (route_chainOf [Plain 3] planned False) NOOP_TAIL c
        = compose (map (ap_handlers ap) [2] @ [ap_handlers ap 3]) NOOP_TAIL c"
proof -
  let ?ap = "demo_app (\<lambda>h :: nat. pass_through)" let ?c = "on_user (\<lambda>d. d\<lparr>dq_path := ''/b''\<rparr>) (demo_rctx ?ap ''GET'')"
  obtain planned ir where pl: "middlewareForRoute (\<lambda>_. True) demo_stack ''/:x'' 0 = Inr planned" "length planned = 2"
    and ir: "compilePattern (\<lambda>_. True) ''/:x'' = Inr ir"
    and m: "pat_matches (\<lambda>_ _. True) (trailing_slash ''/b'') (segments ir) (splitSegments ''/b'')"
  proof -
    let ?ir = "projr (compilePattern (\<lambda>_. True) ''/:x'')" let ?pl = "projr (middlewareForRoute (\<lambda>_. True) demo_stack ''/:x'' 0)"
    have "middlewareForRoute (\<lambda>_. True) demo_stack ''/:x'' 0 = Inr ?pl" "length ?pl = 2"
      "compilePattern (\<lambda>_. True) ''/:x'' = Inr ?ir"
      "pat_matches (\<lambda>_ _. True) (trailing_slash ''/b'') (segments ?ir) (splitSegments ''/b'')" by code_simp+
    then show ?thesis by (rule that)
  qed
  have scope: "map ly_handler (filter (in_scope ''/b'') (layers demo_stack)) = [2]" by code_simp
  have "on_path ''/b'' ?c" by (simp add: on_path_def production_def on_user_def demo_rctx_def createContext_def demo_app_def)
  from route_chain_correct [where handlers = "[Plain 3]" and ap = ?ap, OF pl(1) ir m _ this]
  have "run_chain ?ap (route_chainOf [Plain 3] planned False) NOOP_TAIL ?c
      = compose (map (ap_handlers ?ap) [2] @ [ap_handlers ?ap 3]) NOOP_TAIL ?c"
    unfolding scope by (simp add: pass_through_keeps demo_app_def mw_prog_def)
  with pl show ?thesis unfolding Let_def by blast
qed

section \<open>Requests no route answers\<close>

text \<open>A request no route matches runs exactly the application middleware whose scope covers its path, in
  registration order, and is then finalized; the not-found answer needs no route.\<close>

lemma unmatched_request:
  assumes "primeRequestUrl (rq_url request) = (path, view)" and "matchRoute rx router path = (router', None)"
  shows "dispatchRequest rx ap seen c router (app_calls calls) request =
    (router', dispatchChain ap seen (on_user (\<lambda>d. d\<lparr>dq_path := path, dq_view := view\<rparr>) c)
       (compose (map (ap_handlers ap) (map ly_handler (filter (in_scope path) (layers (app_calls calls)))))) None)"
proof -
  let ?hs = "map ly_handler (filter (in_scope path) (layers (app_calls calls)))"
  have "dispatchFallback ap seen d (app_calls calls) path None = dispatchChain ap seen d (compose (map (ap_handlers ap) ?hs)) None" for d
  proof (cases "?hs = []")
    case True
    then show ?thesis
      by (simp add: dispatchFallback_def fallback_chain chainOf_def dispatchChain_def terminal_def NOOP_TAIL_def finishDispatch_def)
  next
    case False
    then show ?thesis by (simp add: dispatchFallback_def fallback_chain chainOf_def)
  qed
  then show ?thesis by (simp add: dispatchRequest_def assms)
qed

lemma unmatched_request_witness:
  "let ap = demo_app (\<lambda>h. pass_through) in
   snd (snd (dispatchRequest (\<lambda>_ _. True) ap [] (demo_rctx ap ''GET'') (createRouterState []) (app_calls [(None, [1])])
      \<lparr>rq_method = ''GET'', rq_url = ''/a''\<rparr>))
   = plain_answer (default_404, [])"
proof -
  let ?ap = "demo_app (\<lambda>h :: nat. pass_through)" let ?st = "createRouterState [] :: nat router_state"
  have url: "primeRequestUrl (rq_url \<lparr>rq_method = ''GET'', rq_url = ''/a''\<rparr>) = (''/a'', ''/a'')" by code_simp
  have "matchRoute (\<lambda>_ _. True) ?st ''/a'' = (?st, None)"
    by (simp add: matchRoute_def matchDynamic_def static_candidate_def createRouterState_def Let_def)
  note req = unmatched_request [OF url this, of ?ap "[]" "demo_rctx ?ap ''GET''" "[(None, [1])]"]
  show ?thesis unfolding Let_def req by code_simp
qed

text \<open>C36: a path that is registered, but not for the method of the request, and that no middleware covers, is
  answered 405 (200 for OPTIONS, 501 for a method HTTP does not know) with the registered methods in
  the Allow header, in the standard order, and without a body.\<close>

theorem method_not_allowed:
  assumes "primeRequestUrl (rq_url request) = (path, view)" and "matchRoute rx router path = (router', Some m)"
    and "target = rs_targets router' ! rm_target m" and "M = to_upper (rq_method request)"
    and "jm_get (rt_methods target) M = None" and "alternateMethodChain target M = None"
    and "rt_allowed target \<noteq> []" and "M \<notin> set (rt_allowed target) \<or> M = ''OPTIONS''"
    and "fallbackMiddlewareForPath mw path = None" and "\<not> ap_unknownMethodAs404 ap"
  shows "let a = snd (snd (dispatchRequest rx ap seen (createContext ap request u) router mw request)) in
    rs_status (ea_res a) = (if M \<notin> set KNOWN_METHODS then 501 else if M = ''OPTIONS'' then 200 else 405)
    \<and> rs_headers (ea_res a) = [(''allow'', js_join '', '' (filter (\<lambda>m. m \<in> set (rt_allowed target)) ALLOW_ORDER))]
    \<and> rs_body (ea_res a) = None"
proof -
  let ?c0 = "on_user (\<lambda>d. d\<lparr>dq_path := path, dq_view := view\<rparr>) (createContext ap request u)"
  let ?c = "allow_methods target (publishMatch ?c0 m target)"
  have "snd (snd (dispatchRequest rx ap seen (createContext ap request u) router mw request)) = finalizeGuarded ap ?c"
    using assms by (simp add: dispatchRequest_def or_else_def Let_def dispatchFallback_def)
  moreover have fold: "set (fold set_add xs ys) = set xs \<union> set ys" for xs ys :: "string list"
    by (induction xs arbitrary: ys) (auto simp: set_add_def)
  define al where "al = fold set_add (rt_allowed target) []"
  have al: "set al = set (rt_allowed target)" "al \<noteq> []" using fold [of "rt_allowed target" "[]"] assms(7) by (auto simp: al_def)
  have fin: "fin_of ap ?c = \<lparr>fc_method = rq_method request, fc_hdr = \<lparr>hs_record = None, hs_res = None\<rparr>, fc_allowed = Some al,
      fc_status = 404, fc_unknownMethodAs404 = False, fc_onStreamError = ap_onStreamError ap, fc_notFound = ap_notFound ap ?c\<rparr>"
    using assms(7,10) by (simp add: fin_of_def allow_methods_def publishMatch_def on_user_def createContext_def al_def)
  obtain s where s: "s = (if M \<notin> set KNOWN_METHODS then 501 else if M = ''OPTIONS'' then 200 else 405 :: nat)" by blast
  let ?rej = "synthesized s (js_join '', '' (filter (\<lambda>m. m \<in> set (rt_allowed target)) ALLOW_ORDER))"
  have "methodNotAllowed (fin_of ap ?c) = ((fin_of ap ?c)\<lparr>fc_status := s\<rparr>, Some ?rej)"
    using assms(4,8) al by (simp add: methodNotAllowed_def fin s Let_def)
  then have "finalizeGuarded ap ?c = plain_answer (if rq_method request = ''HEAD'' then stripBody ?rej else (?rej, []))"
    by (simp add: finalizeGuarded_def finalize_def fin apply_record_def Let_def)
  ultimately show ?thesis
    by (simp add: Let_def plain_answer_def stripBody_def bodiless_def synthesized_def s)
qed

definition demo_router :: "nat router_state" where
  "demo_router = fst (registerDef (\<lambda>_. True) (createRouterState []) ''GET'' ''/u'' [Plain 1] None createMiddlewareStack [])"

lemma method_not_allowed_witness:
  "let ap = demo_app (\<lambda>h. pass_through); rq = \<lparr>rq_method = ''POST'', rq_url = ''/u''\<rparr> in
   rs_status (ea_res (snd (snd (dispatchRequest (\<lambda>_ _. True) ap [] (createContext ap rq ()) demo_router createMiddlewareStack rq)))) = 405"
proof -
  let ?ap = "demo_app (\<lambda>h :: nat. pass_through)" let ?rq = "\<lparr>rq_method = ''POST'', rq_url = ''/u''\<rparr>"
  let ?m = "\<lparr>rm_target = 0, rm_names = [], rm_values = [], rm_offset = 0\<rparr>"
  have url: "primeRequestUrl (rq_url ?rq) = (''/u'', ''/u'')" by code_simp
  have m: "matchRoute (\<lambda>_ _. True) demo_router ''/u'' = (demo_router, Some ?m)" by code_simp
  have t: "jm_get (rt_methods (rs_targets demo_router ! rm_target ?m)) ''POST'' = None"
    "alternateMethodChain (rs_targets demo_router ! rm_target ?m) ''POST'' = None"
    "rt_allowed (rs_targets demo_router ! rm_target ?m) = [''GET'', ''HEAD'']" by code_simp+
  have up: "''POST'' = to_upper (rq_method ?rq)" "fallbackMiddlewareForPath (createMiddlewareStack :: nat mw_stack) ''/u'' = None"
    "\<not> ap_unknownMethodAs404 ?ap" by code_simp+
  have k: "''POST'' \<in> set KNOWN_METHODS" by code_simp
  show ?thesis
    using method_not_allowed [where u = "()" and ap = ?ap and seen = "[]", OF url m refl up(1) t(1,2) _ _ up(2,3)] t(3) k
    unfolding Let_def by simp
qed

section \<open>HEAD\<close>

lemma takeover_head:
  "fc_method c = ''HEAD'' \<Longrightarrow> rs_body (ea_res (finalizeTakeoverResponse c res s error)) = None"
proof -
  have "rs_body (fst (head_strip True r)) = None" for r by (simp add: head_strip_def stripBody_def bodiless_def)
  then have "rs_body x = None" if "head_strip True r = (x, y)" for r x y using that by (metis fst_conv)
  then show "fc_method c = ''HEAD'' \<Longrightarrow> rs_body (ea_res (finalizeTakeoverResponse c res s error)) = None"
    using merge_absent_shape
    by (auto simp: finalizeTakeoverResponse_def Let_def plain_answer_def mapperFailed_def staticServerError_def split: prod.split)
qed

definition mapper_keeps_method :: "error_mapper option \<Rightarrow> bool" where
  "mapper_keeps_method m \<longleftrightarrow> (\<forall>f e c. m = Some f \<longrightarrow> fc_method (fst (f e c)) = fc_method c)"

lemma errorResponse_head:
  assumes "fc_method c = ''HEAD''" and "mapper_keeps_method mapper"
  shows "rs_body (ea_res (snd (errorResponse env mapper c err))) = None"
proof -
  have builtin: "rs_body (ea_res (snd (builtinErrorResponse d (toHttpError err)))) = None" if "fc_method d = ''HEAD''" for d
    using builtin_shape [where c = d, OF toHttpError_status surjective_pairing] that by simp
  have "rs_body (ea_res (snd (buildErrorResponse env mapper c err))) = None"
  proof (cases mapper)
    case None
    with builtin [OF assms(1)] show ?thesis by (simp add: buildErrorResponse_def Let_def)
  next
    case (Some m)
    obtain c1 out where m: "m (toHttpError err) c = (c1, out)" by fastforce
    have "fc_method c1 = ''HEAD''"
      using assms(2) Some m assms(1) unfolding mapper_keeps_method_def by (metis fst_conv)
    with builtin [OF this] takeover_head [OF this] show ?thesis
      by (cases out) (simp_all add: buildErrorResponse_def Some m finalizeMapperResult_def invalidMapperResult_def mapperFailed_def staticServerError_def)
  qed
  then show ?thesis
    by (cases "buildErrorResponse env mapper c err"; cases "hs_res (fc_hdr c)") (simp_all add: errorResponse_def)
qed

lemma finalizeGuarded_head:
  assumes "dq_method (cx_user c) = ''HEAD''" and "mapper_keeps_method (ap_mapper ap)"
  shows "rs_body (ea_res (finalizeGuarded ap c)) = None"
proof -
  have head: "fc_method (fin_of ap c) = ''HEAD''" using assms(1) by (simp add: fin_of_def)
  obtain f q where fin: "finalize (fin_of ap c) = (f, q)" by fastforce
  show ?thesis
  proof (cases q)
    case (Inl e)
    have "fc_method f = fc_method (fin_of ap c)"
      using fin by (auto simp: finalize_def methodNotAllowed_def Let_def split: option.splits prod.splits sum.splits if_splits)
    with head errorResponse_head [OF _ assms(2), of f] fin Inl show ?thesis by (simp add: finalizeGuarded_def)
  next
    case (Inr rb)
    with fin finalize_head [OF head, of f "fst rb" "snd rb"] show ?thesis by (simp add: finalizeGuarded_def plain_answer_def)
  qed
qed

lemma funnel_head:
  "dq_method (cx_user c) = ''HEAD'' \<Longrightarrow> mapper_keeps_method (ap_mapper ap) \<Longrightarrow> rs_body (ea_res (funnel ap c e)) = None"
  by (simp add: funnel_def errorResponse_head fin_of_def)

definition is_head :: "'u rctx \<Rightarrow> bool" where "is_head c \<longleftrightarrow> dq_method (cx_user c) = ''HEAD''"

lemma stable_is_head: "stable is_head"
  unfolding is_head_def [abs_def] by (rule stable_user [where P = "\<lambda>u d. dq_method u = ''HEAD''"])

lemma dispatchChain_head:
  assumes "is_head (fst (ch NOOP_TAIL c))" and "mapper_keeps_method (ap_mapper ap)"
  shows "rs_body (ea_res (snd (dispatchChain ap seen c ch trace))) = None"
  using assms finalizeGuarded_head [OF _ assms(2)] funnel_head [OF _ assms(2)]
  by (auto simp: dispatchChain_def finishDispatch_def is_head_def split: prod.split sum.split option.split)

lemma compose_head:
  assumes "\<forall>p \<in> set ps. keeps is_head p" and "is_head c"
  shows "is_head (fst (compose ps NOOP_TAIL c))"
  by (rule compose_keeps [OF stable_is_head assms(1) _ assms(2)]) (simp add: NOOP_TAIL_def)

lemma direct_head:
  assumes "keeps is_head p" and "is_head c" and "mapper_keeps_method (ap_mapper ap)"
  shows "rs_body (ea_res (dispatchDirect ap c p ''HEAD'')) = None"
proof -
  obtain c1 a q where run: "run_prog p NOOP_TAIL False c = (c1, a, q)" by (metis prod_cases3)
  have "is_head c1"
    using run_keeps [OF assms(1) _ assms(2), of NOOP_TAIL False] run by (simp add: NOOP_TAIL_def)
  then have h: "dq_method (cx_user c1) = ''HEAD''" by (simp add: is_head_def)
  note fin = finalizeGuarded_head [OF _ assms(3)] and err = funnel_head [OF h assms(3)]
  show ?thesis
  proof (cases q)
    case (Inl e)
    with run err show ?thesis by (simp add: dispatchDirect_def guarded_def)
  next
    case (Inr v)
    with run err fin [of c1] fin [of "c1\<lparr>cx_res := r\<rparr>" for r] h show ?thesis
      by (cases v) (simp_all add: dispatchDirect_def guarded_def finishDirect_def)
  qed
qed

lemma run_chain_head:
  assumes "\<forall>h. keeps is_head (ap_handlers ap h)" and "is_head c"
  shows "is_head (fst (run_chain ap (Composed items) NOOP_TAIL c))"
proof -
  have "keeps is_head (item_prog ap it)" for it
    using mw_prog_keeps [OF assms(1)] pass_through_keeps
    by (auto simp: item_prog_def markRouteReached_def is_head_def split: chain_item.split)
  then show ?thesis using compose_head [OF _ assms(2)] by (simp add: run_chain_def)
qed

text \<open>C19: whatever routes, middleware, handlers, error mapper and not-found handler an application has, the
  answer to a HEAD request has no body: on the direct path, in a composed chain, on the fallback chains
  and on every error path.\<close>

theorem head_never_has_body:
  assumes "rq_method request = ''HEAD''" and "\<forall>h. keeps is_head (ap_handlers ap h)" and "mapper_keeps_method (ap_mapper ap)"
  shows "rs_body (ea_res (snd (snd (dispatchRequest rx ap seen (createContext ap request u) router mw request)))) = None"
proof -
  obtain path view where url: "primeRequestUrl (rq_url request) = (path, view)" by fastforce
  obtain router1 matched where m: "matchRoute rx router path = (router1, matched)" by fastforce
  let ?c0 = "on_user (\<lambda>d. d\<lparr>dq_path := path, dq_view := view\<rparr>) (createContext ap request u)"
  have c0: "is_head ?c0" using assms(1) by (simp add: is_head_def on_user_def createContext_def)
  have fallback: "rs_body (ea_res (snd (dispatchFallback ap seen c mw path t))) = None" if "is_head c" for c t
  proof -
    let ?c = "case t of None \<Rightarrow> c | Some t \<Rightarrow> allow_methods t c"
    have c: "is_head ?c" using that by (simp add: is_head_def allow_methods_def on_user_def split: option.split)
    have "is_head (fst (compose (map (ap_handlers ap) hs) NOOP_TAIL ?c))" for hs
      by (rule compose_head [OF _ c]) (use assms(2) in auto)
    with c finalizeGuarded_head [of ?c, OF _ assms(3)] dispatchChain_head [OF _ assms(3)] show ?thesis
      by (simp add: dispatchFallback_def Let_def is_head_def split: option.split)
  qed
  show ?thesis
  proof (cases matched)
    case None
    with fallback [OF c0] show ?thesis by (simp add: dispatchRequest_def url m)
  next
    case hit: (Some mt)
    let ?t = "rs_targets router1 ! rm_target mt" let ?c1 = "publishMatch ?c0 mt ?t"
    have c1: "is_head ?c1" using c0 by (simp add: is_head_def publishMatch_def on_user_def)
    have M: "to_upper (rq_method request) = ''HEAD''" unfolding assms(1) by code_simp
    note dispatch = dispatchRequest_def url m hit M Let_def
    show ?thesis
    proof (cases "or_else (jm_get (rt_methods ?t) ''HEAD'') (alternateMethodChain ?t ''HEAD'')")
      case None
      with fallback [OF c1] show ?thesis by (simp add: dispatch)
    next
      case (Some ch)
      show ?thesis
      proof (cases ch)
        case (Direct h)
        with Some direct_head [OF mw_prog_keeps [OF assms(2)] c1 assms(3)] show ?thesis by (simp add: dispatch)
      next
        case (Composed items)
        with Some dispatchChain_head [where ch = "run_chain ap (Composed items)", OF run_chain_head [OF assms(2) c1] assms(3)] show ?thesis
          by (simp add: dispatch dispatchRoutedChain_def)
      qed
    qed
  qed
qed

lemma head_never_has_body_witness:
  "let ap = demo_app (\<lambda>h. if h = 1 then Return (Returned (demo_response 200 [])) else Raise (PlainError ''x'')); rq = \<lparr>rq_method = ''HEAD'', rq_url = ''/u''\<rparr> in
   rs_body (ea_res (snd (snd (dispatchRequest (\<lambda>_ _. True) ap [] (createContext ap rq ()) demo_router createMiddlewareStack rq)))) = None"
  unfolding Let_def by (rule head_never_has_body) (simp_all add: demo_app_def mapper_keeps_method_def)

end
