(* ===== verification/Cookies.thy ===== *)
theory Cookies
  imports Headers Complex_Main
begin

text \<open>
  Cookies, src/plugins/cookies/cookies.ts: the request header parser, the Set-Cookie serializer, signing with key
  rotation and the per-request facade. The keyed hash \<open>hmac\<close> and the base64url codec \<open>b64\<close>, \<open>unb64\<close> of the
  runtime are parameters. A finite JavaScript number is a rational; a date is its time value in milliseconds.
\<close>

section \<open>Signing\<close>

definition sign :: "('k \<Rightarrow> string \<Rightarrow> string) \<Rightarrow> (string \<Rightarrow> string) \<Rightarrow> string \<Rightarrow> 'k \<Rightarrow> string" where
  "sign hmac b64 value key = value @ ''.'' @ b64 (hmac key value)"

fun unsign_any :: "('k \<Rightarrow> string \<Rightarrow> string) \<Rightarrow> string \<Rightarrow> string \<Rightarrow> 'k list \<Rightarrow> string option" where
  "unsign_any hmac digest value [] = None"
| "unsign_any hmac digest value (key # keys) =
     (let expected = hmac key value in
      if length digest = length expected \<and> digest = expected then Some value else unsign_any hmac digest value keys)"

definition unsign :: "('k \<Rightarrow> string \<Rightarrow> string) \<Rightarrow> (string \<Rightarrow> string) \<Rightarrow> string \<Rightarrow> 'k list \<Rightarrow> string option" where
  "unsign hmac unb64 signed keys =
     (case last_index_of CHR ''.'' signed of
        None \<Rightarrow> None
      | Some dot \<Rightarrow> unsign_any hmac (unb64 (drop (dot + 1) signed)) (take dot signed) keys)"

section \<open>Parsing\<close>

definition header_ws :: "char \<Rightarrow> bool" where
  "header_ws c \<longleftrightarrow> (of_char c :: nat) \<in> {32, 9, 13, 10}"

definition trimHeaderWs :: "string \<Rightarrow> string" where
  "trimHeaderWs value = rev (dropWhile header_ws (rev (dropWhile header_ws value)))"

definition tryDecode :: "string \<Rightarrow> string" where
  "tryDecode input = (if CHR ''%'' \<notin> set input then input
     else (case decodeURIComponent input of None \<Rightarrow> input | Some d \<Rightarrow> d))"

definition isValidCookieName :: "string \<Rightarrow> bool" where
  "isValidCookieName name \<longleftrightarrow> is_token name"

definition isValidCookieValue :: "string \<Rightarrow> bool" where
  "isValidCookieValue value \<longleftrightarrow> list_all (\<lambda>c. let code = of_char c :: nat in
     \<not> (code = 13 \<or> code = 10 \<or> code = 0 \<or> 1 \<le> code \<and> code \<le> 8 \<or> 14 \<le> code \<and> code \<le> 31)) value"

definition cookie_raw :: "string \<Rightarrow> string" where
  "cookie_raw raw =
     (if starts_with [CHR 0x22] raw \<and> ends_with [CHR 0x22] raw \<and> 2 \<le> length raw
      then tryDecode (butlast (tl raw)) else tryDecode raw)"

definition parse_pair :: "string \<Rightarrow> string \<times> string" where
  "parse_pair part =
     (case index_of CHR ''='' part of
        None \<Rightarrow> (trimHeaderWs part, cookie_raw [])
      | Some eq \<Rightarrow> (trimHeaderWs (take eq part), cookie_raw (trimHeaderWs (drop (eq + 1) part))))"

definition parseCookies :: "string option \<Rightarrow> (string, string) js_map" where
  "parseCookies header =
     (case header of None \<Rightarrow> []
      | Some h \<Rightarrow>
          if length h = 0 then []
          else foldl (\<lambda>out part. let (name, value) = parse_pair part in
                 if length name = 0 \<or> \<not> isValidCookieName name then out else jm_set name value out)
               [] (js_split CHR '';'' h))"

section \<open>Serializing\<close>

datatype js_number = NotFinite | Finite rat
datatype date_arg = NotADate | InvalidDate | DateAt int
datatype same_site = SameBool bool | SameText string

record cookie_options =
  co_maxAge :: "js_number option"
  co_expires :: "date_arg option"
  co_path :: "string option"
  co_domain :: "string option"
  co_secure :: "bool option"
  co_httpOnly :: bool
  co_sameSite :: "same_site option"
  co_signed :: "bool option"
  co_overwrite :: bool
  co_partitioned :: bool
  co_priority :: "string option"

definition MAX_COOKIE_AGE_SECONDS :: int where "MAX_COOKIE_AGE_SECONDS = 400 * 24 * 60 * 60"
definition MAX_COOKIE_AGE_MS :: int where "MAX_COOKIE_AGE_MS = MAX_COOKIE_AGE_SECONDS * 1000"

text \<open>\<open>Math.trunc\<close> (the zeros of both signs print alike) and \<open>Date.prototype.toUTCString\<close>.\<close>

definition js_trunc :: "rat \<Rightarrow> int" where
  "js_trunc r = (if r < 0 then \<lceil>r\<rceil> else \<lfloor>r\<rfloor>)"

definition pad_to :: "nat \<Rightarrow> string \<Rightarrow> string" where
  "pad_to n s = replicate (n - length s) CHR ''0'' @ s"

definition two :: "int \<Rightarrow> string" where "two i = pad_to 2 (show_digits (nat i))"

definition civil :: "int \<Rightarrow> int \<times> int \<times> int" where
  "civil days =
     (let z = days + 719468; era = z div 146097; doe = z mod 146097;
          yoe = (doe - doe div 1460 + doe div 36524 - doe div 146096) div 365;
          doy = doe - (365 * yoe + yoe div 4 - yoe div 100);
          mp = (5 * doy + 2) div 153;
          d = doy - (153 * mp + 2) div 5 + 1;
          m = (if mp < 10 then mp + 3 else mp - 9);
          y = yoe + era * 400 + (if m \<le> 2 then 1 else 0)
      in (y, m, d))"

definition day_name :: "nat \<Rightarrow> string" where
  "day_name n = [''Sun'', ''Mon'', ''Tue'', ''Wed'', ''Thu'', ''Fri'', ''Sat''] ! n"

definition month_name :: "nat \<Rightarrow> string" where
  "month_name n = [''Jan'', ''Feb'', ''Mar'', ''Apr'', ''May'', ''Jun'', ''Jul'', ''Aug'', ''Sep'', ''Oct'', ''Nov'', ''Dec''] ! n"

definition utc_string :: "int \<Rightarrow> string" where
  "utc_string ms =
     (let days = ms div 86400000; secs = (ms mod 86400000) div 1000; (y, m, d) = civil days in
      day_name (nat ((days + 4) mod 7)) @ '', '' @ two d @ '' '' @ month_name (nat ((m - 1) mod 12)) @ '' ''
      @ (if y < 0 then ''-'' else '''') @ pad_to 4 (show_digits (nat \<bar>y\<bar>)) @ '' ''
      @ two (secs div 3600) @ '':'' @ two (secs div 60 mod 60) @ '':'' @ two (secs mod 60) @ '' GMT'')"

definition assertHeaderSafe :: "string \<Rightarrow> unit res" where
  "assertHeaderSafe value = (if hasCrlf value \<or> CHR '';'' \<in> set value then throw (TypeError ''Invalid cookie attribute'') else ok ())"

definition maxAge_attr :: "cookie_options \<Rightarrow> string res" where
  "maxAge_attr o' = (case co_maxAge o' of
      None \<Rightarrow> ok []
    | Some NotFinite \<Rightarrow> throw (TypeError ''cookie maxAge must be a finite number'')
    | Some (Finite r) \<Rightarrow>
        if rat_of_int MAX_COOKIE_AGE_SECONDS < \<bar>r\<bar> then throw (TypeError ''cookie maxAge cannot exceed 400 days'')
        else ok (''; Max-Age='' @ show_int (js_trunc r)))"

definition expires_attr :: "int \<Rightarrow> cookie_options \<Rightarrow> string res" where
  "expires_attr now o' = (case co_expires o' of
      None \<Rightarrow> ok []
    | Some NotADate \<Rightarrow> throw (TypeError ''cookie expires must be a Date'')
    | Some InvalidDate \<Rightarrow> throw (TypeError ''cookie expires must be a valid Date'')
    | Some (DateAt t) \<Rightarrow>
        if MAX_COOKIE_AGE_MS < t - now then throw (TypeError ''cookie expires cannot exceed 400 days out'')
        else ok (''; Expires='' @ utc_string t))"

definition domain_attr :: "cookie_options \<Rightarrow> string res" where
  "domain_attr o' = (case co_domain o' of None \<Rightarrow> ok []
    | Some d \<Rightarrow> res_bind (assertHeaderSafe d) (\<lambda>_. ok (''; Domain='' @ d)))"

definition path_attr :: "cookie_options \<Rightarrow> string res" where
  "path_attr o' = (let path = (case co_path o' of None \<Rightarrow> ''/'' | Some p \<Rightarrow> p) in
     if 0 < length path then res_bind (assertHeaderSafe path) (\<lambda>_. ok (''; Path='' @ path)) else ok [])"

definition capitalize :: "string \<Rightarrow> string" where
  "capitalize s = to_upper (take 1 s) @ drop 1 s"

definition priority_attr :: "cookie_options \<Rightarrow> string res" where
  "priority_attr o' = (case co_priority o' of None \<Rightarrow> ok []
    | Some p \<Rightarrow> let prio = to_lower p in
        if prio \<noteq> ''low'' \<and> prio \<noteq> ''medium'' \<and> prio \<noteq> ''high'' then throw (TypeError ''Invalid cookie option priority'')
        else ok (''; Priority='' @ capitalize prio))"

definition sameSite_attr :: "cookie_options \<Rightarrow> string res" where
  "sameSite_attr o' = (case co_sameSite o' of
      None \<Rightarrow> ok []
    | Some (SameBool False) \<Rightarrow> ok []
    | Some s \<Rightarrow> let site = to_lower (case s of SameBool _ \<Rightarrow> ''strict'' | SameText t \<Rightarrow> t) in
        if site \<noteq> ''strict'' \<and> site \<noteq> ''lax'' \<and> site \<noteq> ''none'' then throw (TypeError ''Invalid cookie option sameSite'')
        else ok (''; SameSite='' @ capitalize site))"

definition flag_attrs :: "cookie_options \<Rightarrow> string res" where
  "flag_attrs o' =
     (if co_partitioned o' \<and> co_secure o' \<noteq> Some True then throw (TypeError ''partitioned cookies require { secure: true }'')
      else ok ((if co_partitioned o' then ''; Partitioned'' else [])
        @ (if co_secure o' = Some True then ''; Secure'' else []) @ (if co_httpOnly o' then ''; HttpOnly'' else [])))"

definition serializeCookie :: "int \<Rightarrow> string \<Rightarrow> string \<Rightarrow> cookie_options \<Rightarrow> string res" where
  "serializeCookie now name value o' =
     (if \<not> isValidCookieName name then throw (TypeError ''Invalid cookie name'')
      else if \<not> isValidCookieValue value then throw (TypeError ''Invalid cookie value'')
      else res_bind (maxAge_attr o') (\<lambda>a. res_bind (expires_attr now o') (\<lambda>b. res_bind (domain_attr o') (\<lambda>c.
        res_bind (path_attr o') (\<lambda>d. res_bind (priority_attr o') (\<lambda>e. res_bind (sameSite_attr o') (\<lambda>f.
          res_bind (flag_attrs o') (\<lambda>g. ok (name @ ''='' @ encodeURIComponent value @ a @ b @ c @ d @ e @ f @ g)))))))))"

section \<open>The facade\<close>

record 'k cookies_host =
  ch_cookieHeader :: "string option"
  ch_requestSecure :: bool
  ch_keys :: "'k list option"

definition signing_keys :: "'k cookies_host \<Rightarrow> 'k list" where
  "signing_keys host = (case ch_keys host of None \<Rightarrow> [] | Some ks \<Rightarrow> ks)"

text \<open>The jar is the memo of the parsed header; \<open>signed\<close> is the option, None when it is not given.\<close>

definition cookies_get ::
  "('k \<Rightarrow> string \<Rightarrow> string) \<Rightarrow> (string \<Rightarrow> string) \<Rightarrow> 'k cookies_host \<Rightarrow> (string, string) js_map option \<Rightarrow> string \<Rightarrow> bool option
     \<Rightarrow> (string, string) js_map option \<times> string option res" where
  "cookies_get hmac unb64 host jar name signed =
     (let parsed = (case jar of Some j \<Rightarrow> j | None \<Rightarrow> parseCookies (ch_cookieHeader host)) in
      (Some parsed,
       case jm_get parsed name of
         None \<Rightarrow> ok None
       | Some raw \<Rightarrow>
           if signed \<noteq> Some False then
             (if signing_keys host = []
              then (if signed = Some True then throw (PlainError ''.keys required for signed cookies'') else ok (Some raw))
              else ok (unsign hmac unb64 raw (signing_keys host)))
           else ok (Some raw)))"

definition cookies_set ::
  "('k \<Rightarrow> string \<Rightarrow> string) \<Rightarrow> (string \<Rightarrow> string) \<Rightarrow> int \<Rightarrow> 'k cookies_host \<Rightarrow> header_map \<Rightarrow> string \<Rightarrow> string \<Rightarrow> cookie_options
     \<Rightarrow> header_map res" where
  "cookies_set hmac b64 now host record name value o' =
     (let keys = signing_keys host; wantsSign = (co_signed o' \<noteq> Some False \<and> keys \<noteq> []) in
      if co_signed o' = Some True \<and> \<not> wantsSign then throw (PlainError ''.keys required for signed cookies'')
      else (let effective = (if co_secure o' = None \<and> ch_requestSecure host then o'\<lparr>co_secure := Some True\<rparr> else o') in
        res_bind (serializeCookie now name (if wantsSign then sign hmac b64 value (hd keys) else value) effective) (\<lambda>serialized.
          let existing = jm_get record ''set-cookie''; own = (\<lambda>entry. starts_with (name @ ''='') entry) in
          if co_overwrite o' \<or> existing = None
          then ok (jm_set ''set-cookie'' (Many ((case existing of
                 None \<Rightarrow> [] | Some (Many es) \<Rightarrow> (if co_overwrite o' then filter (\<lambda>e. \<not> own e) es else es) | Some (One e) \<Rightarrow> [e])
               @ [serialized])) record)
          else (let es = (case existing of Some (Many es) \<Rightarrow> es | Some (One e) \<Rightarrow> [e] | None \<Rightarrow> []) in
            if list_ex own es then ok record else ok (jm_set ''set-cookie'' (Many (es @ [serialized])) record)))))"

lemma utc_string_epoch: "utc_string 0 = ''Thu, 01 Jan 1970 00:00:00 GMT''" by code_simp
lemma utc_string_2023: "utc_string 1700000000000 = ''Tue, 14 Nov 2023 22:13:20 GMT''" by code_simp
lemma utc_string_leap: "utc_string 951782399999 = ''Mon, 28 Feb 2000 23:59:59 GMT''" by code_simp

end
