(* ===== verification/CookiesCorrect.thy ===== *)
theory CookiesCorrect
  imports Cookies
begin

text \<open>
  Correctness of the cookie code of theory Cookies: a serialized cookie has exactly the attributes its options
  ask for, a cookie that was set is read back from the browser's echo, and a signed read accepts a value only
  with the keyed hash of exactly that value.
\<close>

section \<open>A cookie carries only its own attributes\<close>

definition render_attr :: "string \<times> string option \<Rightarrow> string" where
  "render_attr a = fst a @ (case snd a of None \<Rightarrow> [] | Some v \<Rightarrow> ''='' @ v)"

text \<open>The attributes the options ask for.\<close>

definition cookie_attributes :: "cookie_options \<Rightarrow> (string \<times> string option) list" where
  "cookie_attributes o' =
     (case co_maxAge o' of Some (Finite r) \<Rightarrow> [(''Max-Age'', Some (show_int (js_trunc r)))] | _ \<Rightarrow> [])
     @ (case co_expires o' of Some (DateAt t) \<Rightarrow> [(''Expires'', Some (utc_string t))] | _ \<Rightarrow> [])
     @ (case co_domain o' of Some d \<Rightarrow> [(''Domain'', Some d)] | None \<Rightarrow> [])
     @ (case co_path o' of None \<Rightarrow> [(''Path'', Some ''/'')] | Some p \<Rightarrow> if p = [] then [] else [(''Path'', Some p)])
     @ (case co_priority o' of Some p \<Rightarrow> [(''Priority'', Some (capitalize (to_lower p)))] | None \<Rightarrow> [])
     @ (case co_sameSite o' of Some (SameBool True) \<Rightarrow> [(''SameSite'', Some ''Strict'')]
        | Some (SameText t) \<Rightarrow> [(''SameSite'', Some (capitalize (to_lower t)))] | _ \<Rightarrow> [])
     @ (if co_partitioned o' then [(''Partitioned'', None)] else [])
     @ (if co_secure o' = Some True then [(''Secure'', None)] else [])
     @ (if co_httpOnly o' then [(''HttpOnly'', None)] else [])"

definition safe_char :: "char \<Rightarrow> bool" where
  "safe_char c \<longleftrightarrow> c \<noteq> CHR '';'' \<and> (of_char c :: nat) \<notin> {13, 10, 0}"

definition attr_safe :: "string \<Rightarrow> bool" where "attr_safe = list_all safe_char"

lemma attr_safe_simps [simp]:
  "attr_safe []" "attr_safe (c # s) \<longleftrightarrow> safe_char c \<and> attr_safe s" "attr_safe (s @ t) \<longleftrightarrow> attr_safe s \<and> attr_safe t"
  by (simp_all add: attr_safe_def)

lemma attr_safe_iff: "attr_safe s \<longleftrightarrow> CHR '';'' \<notin> set s \<and> \<not> hasCrlf s"
  by (induction s) (auto simp: attr_safe_def safe_char_def hasCrlf_def)

lemma safe_digit: "is_digit c \<Longrightarrow> safe_char c"
  by (auto simp: is_digit_def safe_char_def Let_def)

lemma attr_safe_digits [simp]: "attr_safe (show_digits n)"
  using show_digits_digits [of n] by (auto simp: attr_safe_def list_all_iff safe_digit)

lemma attr_safe_int [simp]: "attr_safe (show_int i)"
  by (simp add: show_int_def safe_char_def)

lemma safe_punctuation [simp]:
  "safe_char CHR '' ''" "safe_char CHR '',''" "safe_char CHR '':''" "safe_char CHR ''-''" "safe_char CHR ''0''"
  "safe_char CHR ''=''" "safe_char CHR ''G''" "safe_char CHR ''M''" "safe_char CHR ''T''"
  by code_simp+

lemma attr_safe_pad [simp]: "attr_safe s \<Longrightarrow> attr_safe (pad_to n s)"
  by (auto simp: pad_to_def attr_safe_def list_all_iff)

lemma attr_safe_two [simp]: "attr_safe (two i)"
  by (simp add: two_def)

lemma attr_safe_nth: "list_all attr_safe xs \<Longrightarrow> n < length xs \<Longrightarrow> attr_safe (xs ! n)"
  by (simp add: list_all_length)

lemma attr_safe_day: "n < 7 \<Longrightarrow> attr_safe (day_name n)"
  unfolding day_name_def by (rule attr_safe_nth) (code_simp, simp)

lemma attr_safe_month: "n < 12 \<Longrightarrow> attr_safe (month_name n)"
  unfolding month_name_def by (rule attr_safe_nth) (code_simp, simp)

lemma attr_safe_utc [simp]: "attr_safe (utc_string t)"
proof -
  have "nat ((t div 86400000 + 4) mod 7) < 7" "\<And>m. nat ((m - 1) mod 12) < 12" by (simp_all add: nat_less_iff)
  then show ?thesis
    unfolding utc_string_def Let_def case_prod_beta
    by (simp only: attr_safe_simps attr_safe_two attr_safe_pad attr_safe_digits attr_safe_day attr_safe_month safe_punctuation if_split simp_thms)
qed

lemma safe_token: "token_char c \<Longrightarrow> safe_char c"
  by (auto simp: token_char_def safe_char_def is_digit_def Let_def)

lemma safe_hex: "n < 16 \<Longrightarrow> safe_char (hex_digit n)"
  by (auto simp: hex_digit_def safe_char_def dest!: arg_cong [where f = "of_char :: char \<Rightarrow> nat"])

lemma attr_safe_encode [simp]: "attr_safe (encodeURIComponent s)"
proof (induction s)
  case (Cons c s)
  have "safe_char c" if "uri_unreserved c" using that by (auto simp: uri_unreserved_def safe_char_def Let_def)
  moreover have "attr_safe (escape_byte c)"
    using safe_hex [OF of_char_div [of c]] safe_hex [of "of_char c mod 16"] by (simp add: escape_byte_def) (simp add: safe_char_def)
  ultimately show ?case using Cons by (simp add: encode_Cons)
qed simp

lemma attr_safe_token: "isValidCookieName n \<Longrightarrow> attr_safe n"
  by (auto simp: isValidCookieName_def is_token_def attr_safe_def list_all_iff safe_token)

definition attr_text :: "(string \<times> string option) list \<Rightarrow> string" where
  "attr_text as = concat (map (\<lambda>a. ''; '' @ render_attr a) as)"

lemma attr_text_simps [simp]: "attr_text [] = []" "attr_text (a # as) = ''; '' @ render_attr a @ attr_text as"
  "attr_text (as @ bs) = attr_text as @ attr_text bs"
  by (simp_all add: attr_text_def)

lemma split_attr_text:
  "CHR '';'' \<notin> set s \<Longrightarrow> \<forall>a \<in> set as. CHR '';'' \<notin> set (render_attr a) \<Longrightarrow>
     js_split CHR '';'' (s @ attr_text as) = s # map (\<lambda>a. CHR '' '' # render_attr a) as"
proof (induction as arbitrary: s)
  case (Cons a as)
  have "js_split CHR '';'' (s @ attr_text (a # as)) = js_split CHR '';'' s @ js_split CHR '';'' ((CHR '' '' # render_attr a) @ attr_text as)"
    using js_split_append [of "CHR '';''" s] by simp
  also have "js_split CHR '';'' ((CHR '' '' # render_attr a) @ attr_text as) = (CHR '' '' # render_attr a) # map (\<lambda>a. CHR '' '' # render_attr a) as"
    by (rule Cons.IH) (use Cons.prems in auto)
  finally show ?case using Cons.prems by (simp add: js_split_no_sep)
qed (simp add: js_split_no_sep)

lemma serialize_text:
  assumes "serializeCookie now name value o' = Inr h"
  shows "h = name @ ''='' @ encodeURIComponent value @ attr_text (cookie_attributes o')
    \<and> (\<forall>a \<in> set (cookie_attributes o'). attr_safe (render_attr a)) \<and> isValidCookieName name"
proof -
  obtain a b c d e f g where p: "maxAge_attr o' = Inr a" "expires_attr now o' = Inr b" "domain_attr o' = Inr c" "path_attr o' = Inr d"
    "priority_attr o' = Inr e" "sameSite_attr o' = Inr f" "flag_attrs o' = Inr g"
    and h: "h = name @ ''='' @ encodeURIComponent value @ a @ b @ c @ d @ e @ f @ g" and n: "isValidCookieName name"
    using assms by (auto simp: serializeCookie_def res_bind_ok split: if_splits)
  let ?ok = "\<lambda>s as. s = attr_text as \<and> (\<forall>x \<in> set as. attr_safe (render_attr x))"
  have safe: "assertHeaderSafe s = Inr u \<Longrightarrow> attr_safe s" for s u
    by (auto simp: assertHeaderSafe_def attr_safe_iff split: if_splits)
  note defs = render_attr_def safe_char_def
  have 1: "?ok a (case co_maxAge o' of Some (Finite r) \<Rightarrow> [(''Max-Age'', Some (show_int (js_trunc r)))] | _ \<Rightarrow> [])"
    using p(1) by (auto simp: maxAge_attr_def defs split: option.splits js_number.splits if_splits)
  have 2: "?ok b (case co_expires o' of Some (DateAt t) \<Rightarrow> [(''Expires'', Some (utc_string t))] | _ \<Rightarrow> [])"
    using p(2) by (auto simp: expires_attr_def defs split: option.splits date_arg.splits if_splits)
  have 3: "?ok c (case co_domain o' of Some d \<Rightarrow> [(''Domain'', Some d)] | None \<Rightarrow> [])"
    using p(3) by (auto simp: domain_attr_def res_bind_ok defs split: option.splits dest: safe)
  have 4: "?ok d (case co_path o' of None \<Rightarrow> [(''Path'', Some ''/'')] | Some p \<Rightarrow> if p = [] then [] else [(''Path'', Some p)])"
    using p(4) by (auto simp: path_attr_def Let_def res_bind_ok defs split: option.splits if_splits dest: safe)
  have cap: "capitalize ''low'' = ''Low''" "capitalize ''medium'' = ''Medium''" "capitalize ''high'' = ''High''"
    "capitalize ''strict'' = ''Strict''" "capitalize ''lax'' = ''Lax''" "capitalize ''none'' = ''None''" "to_lower ''strict'' = ''strict''"
    by code_simp+
  have 5: "?ok e (case co_priority o' of Some p \<Rightarrow> [(''Priority'', Some (capitalize (to_lower p)))] | None \<Rightarrow> [])"
    using p(5) by (auto simp: priority_attr_def Let_def defs cap split: option.splits if_splits)
  have 6: "?ok f (case co_sameSite o' of Some (SameBool True) \<Rightarrow> [(''SameSite'', Some ''Strict'')]
        | Some (SameText t) \<Rightarrow> [(''SameSite'', Some (capitalize (to_lower t)))] | _ \<Rightarrow> [])"
    using p(6) by (auto simp: sameSite_attr_def Let_def defs cap
        split: option.splits same_site.splits bool.splits if_splits)
  have 7: "?ok g ((if co_partitioned o' then [(''Partitioned'', None)] else [])
     @ (if co_secure o' = Some True then [(''Secure'', None)] else []) @ (if co_httpOnly o' then [(''HttpOnly'', None)] else []))"
    using p(7) by (auto simp: flag_attrs_def defs split: if_splits)
  have "h = name @ ''='' @ encodeURIComponent value @ attr_text (cookie_attributes o')"
    unfolding h cookie_attributes_def attr_text_simps(3) append_assoc
    by (simp only: 1 [THEN conjunct1] 2 [THEN conjunct1] 3 [THEN conjunct1] 4 [THEN conjunct1] 5 [THEN conjunct1] 6 [THEN conjunct1]
        7 [THEN conjunct1] attr_text_simps(3) append_assoc)
  moreover have "\<forall>a \<in> set (cookie_attributes o'). attr_safe (render_attr a)"
    unfolding cookie_attributes_def set_append ball_Un using 1 2 3 4 5 6 7 [unfolded set_append ball_Un] by blast
  ultimately show ?thesis using n by blast
qed

text \<open>C23: nothing in a name, a value or an option adds an attribute to a cookie or a line to the header.\<close>

theorem cookie_has_only_its_attributes:
  assumes "serializeCookie now name value o' = Inr h"
  shows "js_split CHR '';'' h = (name @ ''='' @ encodeURIComponent value) # map (\<lambda>a. CHR '' '' # render_attr a) (cookie_attributes o')
    \<and> \<not> hasCrlf h"
proof -
  note t = serialize_text [OF assms]
  have "attr_safe (name @ ''='' @ encodeURIComponent value)" using t attr_safe_token by (simp add: safe_char_def)
  moreover have "\<forall>a \<in> set as. attr_safe (render_attr a) \<Longrightarrow> \<not> hasCrlf (attr_text as)" for as
    by (induction as) (auto simp: attr_safe_iff hasCrlf_def)
  moreover have "\<forall>a \<in> set (cookie_attributes o'). CHR '';'' \<notin> set (render_attr a)" using t by (simp add: attr_safe_iff)
  ultimately show ?thesis using split_attr_text [of "name @ ''='' @ encodeURIComponent value" "cookie_attributes o'"] t
    by (auto simp: attr_safe_iff hasCrlf_def)
qed

section \<open>From Set-Cookie back to the handler\<close>

text \<open>The pair a browser sends back: the header up to its first semicolon.\<close>

definition cookie_pair :: "string \<Rightarrow> string" where
  "cookie_pair h = takeWhile (\<lambda>c. c \<noteq> CHR '';'') h"

lemma trim_ws_id: "list_all (\<lambda>c. \<not> header_ws c) s \<Longrightarrow> trimHeaderWs s = s \<and> trimHeaderWs (CHR '' '' # s) = s"
proof -
  assume a: "list_all (\<lambda>c. \<not> header_ws c) s"
  have d: "list_all (\<lambda>c. \<not> header_ws c) t \<Longrightarrow> dropWhile header_ws t = t" for t by (cases t) auto
  have "header_ws CHR '' ''" by code_simp
  moreover have "dropWhile header_ws (rev s) = rev s" using a by (intro d) simp
  ultimately show ?thesis using d [OF a] by (simp add: trimHeaderWs_def)
qed

lemma encode_no_ws: "list_all (\<lambda>c. \<not> header_ws c \<and> c \<noteq> CHR 0x22) (encodeURIComponent s)"
proof (induction s)
  case (Cons c s)
  have "\<not> header_ws c \<and> c \<noteq> CHR 0x22" if "uri_unreserved c" using that by (auto simp: uri_unreserved_def header_ws_def Let_def)
  moreover have "\<not> header_ws (hex_digit n) \<and> hex_digit n \<noteq> CHR 0x22" if "n < 16" for n
    using that by (auto simp: hex_digit_def header_ws_def dest!: arg_cong [where f = "of_char :: char \<Rightarrow> nat"])
  moreover have "\<not> header_ws CHR ''%''" by code_simp
  ultimately have "list_all (\<lambda>c. \<not> header_ws c \<and> c \<noteq> CHR 0x22) (if uri_unreserved c then [c] else escape_byte c)"
    by (simp add: escape_byte_def of_char_div)
  with Cons show ?case by (simp add: encode_Cons)
qed simp

lemma token_no_ws: "token_char c \<Longrightarrow> \<not> header_ws c \<and> c \<noteq> CHR ''=''"
  by (auto simp: token_char_def header_ws_def is_digit_def Let_def)

lemma tryDecode_codec: "tryDecode = codec.dec_total"
  by (simp add: fun_eq_iff tryDecode_def codec.dec_total_def)

lemma index_of_sep: "c \<notin> set s \<Longrightarrow> index_of c (s @ c # t) = Some (length s)"
proof -
  assume "c \<notin> set s"
  then have "takeWhile (\<lambda>x. x \<noteq> c) (s @ c # t) = s" by (subst takeWhile_append2) auto
  then show ?thesis by (simp add: index_of_def)
qed

lemma parse_own_pair:
  assumes "isValidCookieName name" and "valid_utf8 value"
  shows "parse_pair (name @ ''='' @ encodeURIComponent value) = (name, value)
    \<and> parse_pair (CHR '' '' # name @ ''='' @ encodeURIComponent value) = (name, value)"
proof -
  let ?e = "encodeURIComponent value"
  have name: "list_all (\<lambda>c. \<not> header_ws c) name" "CHR ''='' \<notin> set name"
    using assms(1) token_no_ws by (auto simp: isValidCookieName_def is_token_def list_all_iff)
  have e: "list_all (\<lambda>c. \<not> header_ws c) ?e" using encode_no_ws [of "value"] by (auto simp: list_all_iff)
  have "CHR 0x22 \<notin> set ?e" using encode_no_ws [of "value"] by (auto simp: list_all_iff)
  then have "\<not> prefix [CHR 0x22] ?e" by (cases ?e) auto
  then have raw: "cookie_raw ?e = value"
    using codec.dec_total_enc [OF assms(2)] by (simp add: cookie_raw_def tryDecode_codec)
  have idx: "index_of CHR ''='' (s @ ''='' @ ?e) = Some (length s)" if "CHR ''='' \<notin> set s" for s
    using index_of_sep [OF that, of ?e] by simp
  show ?thesis
    using idx [OF name(2)] idx [of "CHR '' '' # name"] name trim_ws_id [OF name(1)] trim_ws_id [OF e] raw
    by (simp add: parse_pair_def)
qed

text \<open>The last pair of a name decides.\<close>

definition add_cookie :: "(string, string) js_map \<Rightarrow> string \<Rightarrow> (string, string) js_map" where
  "add_cookie out part = (let (name, value) = parse_pair part in
     if length name = 0 \<or> \<not> isValidCookieName name then out else jm_set name value out)"

lemma parseCookies_parts: "parseCookies (Some h) = (if h = [] then [] else foldl add_cookie [] (js_split CHR '';'' h))"
  by (simp add: parseCookies_def add_cookie_def [abs_def])

lemma add_other: "fst (parse_pair part) \<noteq> name \<Longrightarrow> jm_get (add_cookie out part) name = jm_get out name"
  by (auto simp: add_cookie_def Let_def split: prod.split)

lemma fold_other:
  "\<forall>part \<in> set parts. fst (parse_pair part) \<noteq> name \<Longrightarrow> jm_get (foldl add_cookie out parts) name = jm_get out name"
  by (induction parts rule: rev_induct) (simp_all add: add_other)

lemma join_split:
  "\<forall>p \<in> set (p0 # ps). CHR '';'' \<notin> set p \<Longrightarrow>
     js_split CHR '';'' (js_join ''; '' (p0 # ps)) = p0 # map ((#) CHR '' '') ps"
proof (induction ps arbitrary: p0)
  case (Cons q qs)
  have j: "js_join ''; '' (p0 # q # qs) = p0 @ CHR '';'' # CHR '' '' # js_join ''; '' (q # qs)" by simp
  have "js_split CHR '';'' (CHR '' '' # js_join ''; '' (q # qs)) = (CHR '' '' # q) # map ((#) CHR '' '') qs"
    using Cons.IH [of q] Cons.prems by simp
  moreover have "js_split CHR '';'' (p0 @ CHR '';'' # t) = p0 # js_split CHR '';'' t" for t
    using Cons.prems by (simp add: js_split_app)
  ultimately show ?case unfolding j by simp
qed (simp add: js_split_no_sep)

lemma parse_found:
  assumes "isValidCookieName name" and "valid_utf8 value" and pair: "p = name @ ''='' @ encodeURIComponent value"
    and "\<forall>q \<in> set (before @ p # after). CHR '';'' \<notin> set q"
    and "\<forall>q \<in> set after. fst (parse_pair (CHR '' '' # q)) \<noteq> name"
  shows "jm_get (parseCookies (Some (js_join ''; '' (before @ p # after)))) name = Some value"
proof -
  have len: "name \<noteq> []" using assms(1) by (simp add: isValidCookieName_def is_token_def)
  have hit: "jm_get (add_cookie out q) name = Some value" if "q = p \<or> q = CHR '' '' # p" for out q
    using that parse_own_pair [OF assms(1,2)] assms(1) len by (auto simp: add_cookie_def pair)
  define parts where "parts = js_split CHR '';'' (js_join ''; '' (before @ p # after))"
  obtain bs q where parts: "parts = bs @ q # map ((#) CHR '' '') after" and q: "q = p \<or> q = CHR '' '' # p"
  proof (cases before)
    case Nil
    then show ?thesis using that [of "[]" p] assms(4) join_split [of p after] by (simp add: parts_def)
  next
    case (Cons b bs)
    then show ?thesis using that [of "b # map ((#) CHR '' '') bs" "CHR '' '' # p"] assms(4) join_split [of b "bs @ p # after"]
      by (simp add: parts_def)
  qed
  have "jm_get (foldl add_cookie [] parts) name = Some value"
    using fold_other [of "map ((#) CHR '' '') after" name] assms(5) hit [OF q] by (simp add: parts)
  moreover have "js_join ''; '' (before @ p # after) \<noteq> []"
  proof
    assume "js_join ''; '' (before @ p # after) = []"
    then have "parts = [[]]" by (simp add: parts_def)
    with parts q have "p = []" by (cases bs) auto
    with pair show False by simp
  qed
  ultimately show ?thesis by (simp add: parseCookies_parts parts_def)
qed

lemma valid_utf8_append: "valid_utf8 s \<Longrightarrow> list_all uri_unreserved t \<Longrightarrow> valid_utf8 (s @ t)"
proof (induction s rule: valid_utf8.induct)
  case 1
  have "valid_utf8 t" using 1(2)
    by (induction t) (auto simp: Let_def dest: unreserved_ascii)
  then show ?case by simp
next
  case (2 c cs)
  then show ?case by (auto simp: Let_def)
qed

lemma last_index_append: "c \<notin> set t \<Longrightarrow> last_index_of c (s @ c # t) = Some (length s)"
proof -
  assume "c \<notin> set t"
  then have "takeWhile (\<lambda>x. x \<noteq> c) (rev t @ c # rev s) = rev t" by (subst takeWhile_append2) auto
  then show ?thesis by (simp add: last_index_of_def index_of_def)
qed

lemma unsign_signed:
  assumes "unb64 (b64 (hmac key value)) = hmac key value" and "list_all uri_unreserved (b64 (hmac key value))"
    and "CHR ''.'' \<notin> set (b64 (hmac key value))" and "key \<in> set keys"
  shows "unsign hmac unb64 (sign hmac b64 value key) keys = Some value"
proof -
  have "last_index_of CHR ''.'' (sign hmac b64 value key) = Some (length value)"
    using last_index_append [OF assms(3)] by (simp add: sign_def)
  moreover have "unsign_any hmac (hmac key value) value ks = Some value" if "key \<in> set ks" for ks
    using that by (induction ks) (auto simp: Let_def)
  ultimately show ?thesis using assms by (simp add: unsign_def sign_def)
qed

lemma cookie_pair_text:
  assumes "serializeCookie now name value o' = Inr h"
  shows "cookie_pair h = name @ ''='' @ encodeURIComponent value"
proof -
  note t = serialize_text [OF assms]
  let ?p = "name @ ''='' @ encodeURIComponent value"
  have "attr_safe ?p" using t attr_safe_token by (simp add: safe_char_def)
  then have no: "CHR '';'' \<notin> set ?p" by (simp add: attr_safe_iff)
  have "takeWhile (\<lambda>c. c \<noteq> CHR '';'') (?p @ attr_text as) = ?p" for as
  proof -
    have "takeWhile (\<lambda>c. c \<noteq> CHR '';'') (?p @ attr_text as) = ?p @ takeWhile (\<lambda>c. c \<noteq> CHR '';'') (attr_text as)"
      using no by (subst takeWhile_append2) auto
    then show ?thesis by (cases as) simp_all
  qed
  with t show ?thesis by (simp add: cookie_pair_def)
qed

text \<open>What the code relies on of the runtime's base64url: it decodes what it encoded, over its alphabet.\<close>

definition b64_codec :: "(string \<Rightarrow> string) \<Rightarrow> (string \<Rightarrow> string) \<Rightarrow> bool" where
  "b64_codec b64 unb64 \<longleftrightarrow> (\<forall>d. unb64 (b64 d) = d \<and> list_all uri_unreserved (b64 d) \<and> CHR ''.'' \<notin> set (b64 d))"

text \<open>The next request finds the signing key among its keys, or neither request signs.\<close>

definition keys_rotated :: "bool option \<Rightarrow> 'k list \<Rightarrow> 'k list \<Rightarrow> bool" where
  "keys_rotated signed ks ks' \<longleftrightarrow> signed = Some False \<or> (if ks = [] then ks' = [] else hd ks \<in> set ks')"

text \<open>C13: a cookie set by a handler and echoed by the browser is read back as it was set, signed or not.\<close>

theorem cookie_roundtrip:
  assumes "b64_codec b64 unb64" and "valid_utf8 value"
    and "cookies_set hmac b64 now host record name value o' = Inr record'" and "jm_get record ''set-cookie'' = None"
    and "jm_get record' ''set-cookie'' = Some (Many [h])"
    and "ch_cookieHeader host' = Some (js_join ''; '' (before @ cookie_pair h # after))"
    and "\<forall>q \<in> set (before @ after). CHR '';'' \<notin> set q" and "\<forall>q \<in> set after. fst (parse_pair (CHR '' '' # q)) \<noteq> name"
    and "keys_rotated (co_signed o') (signing_keys host) (signing_keys host')"
  shows "snd (cookies_get hmac unb64 host' None name (co_signed o')) = Inr (Some value)"
proof -
  let ?ks = "signing_keys host" and ?ks' = "signing_keys host'"
  define wants where "wants = (co_signed o' \<noteq> Some False \<and> ?ks \<noteq> [])"
  define v where "v = (if wants then sign hmac b64 value (hd ?ks) else value)"
  have nothrow: "\<not> (co_signed o' = Some True \<and> \<not> wants)"
    using assms(3) unfolding cookies_set_def Let_def wants_def by (auto split: if_splits)
  obtain eff where ser: "serializeCookie now name v eff = Inr h"
    using assms(3-5) unfolding cookies_set_def Let_def v_def wants_def
    by (auto simp: res_bind_ok split: if_splits)
  note pair = cookie_pair_text [OF ser]
  have name: "isValidCookieName name" using serialize_text [OF ser] by blast
  have no: "CHR '';'' \<notin> set (cookie_pair h)" unfolding cookie_pair_def by (auto dest: set_takeWhileD)
  have utf: "valid_utf8 v"
  proof (cases wants)
    case True
    have "uri_unreserved CHR ''.''" by code_simp
    then have "list_all uri_unreserved (''.'' @ b64 (hmac (hd ?ks) value))" using assms(1) by (simp add: b64_codec_def)
    then have "valid_utf8 (value @ ''.'' @ b64 (hmac (hd ?ks) value))" by (rule valid_utf8_append [OF assms(2)])
    with True show ?thesis by (simp add: v_def sign_def)
  qed (use assms(2) in \<open>simp add: v_def\<close>)
  have "jm_get (parseCookies (ch_cookieHeader host')) name = Some v"
    unfolding assms(6) by (rule parse_found [OF name utf pair]) (use assms(7,8) no in auto)
  moreover have "unsign hmac unb64 v ?ks' = Some value" if wants
    using that assms(1,9) unsign_signed [of unb64 b64 hmac "hd ?ks" "value" ?ks']
    by (simp add: v_def wants_def keys_rotated_def b64_codec_def)
  ultimately show ?thesis
    using assms(9) nothrow
    by (cases wants) (auto simp: cookies_get_def Let_def v_def wants_def keys_rotated_def split: if_splits)
qed

section \<open>Forged values\<close>

text \<open>A read that yields a value while keys are configured saw the digest of exactly that value.\<close>

lemma unsign_any_sound: "unsign_any hmac digest v keys = Some w \<Longrightarrow> w = v \<and> (\<exists>key \<in> set keys. digest = hmac key v)"
  by (induction keys) (auto simp: Let_def split: if_splits)

lemma unsign_sound:
  assumes "unsign hmac unb64 signed keys = Some v"
  shows "\<exists>sig key. signed = v @ ''.'' @ sig \<and> key \<in> set keys \<and> unb64 sig = hmac key v"
proof -
  obtain dot where d: "last_index_of CHR ''.'' signed = Some dot"
    "unsign_any hmac (unb64 (drop (dot + 1) signed)) (take dot signed) keys = Some v"
    using assms by (auto simp: unsign_def split: option.splits)
  from unsign_any_sound [OF d(2)] obtain key where v: "v = take dot signed" "key \<in> set keys" "unb64 (drop (dot + 1) signed) = hmac key v"
    by auto
  have "CHR ''.'' \<in> set signed" using d(1) by (auto simp: last_index_of_def index_of_def split: if_splits)
  then obtain ys zs where split: "signed = ys @ CHR ''.'' # zs" "CHR ''.'' \<notin> set zs" by (meson split_list_last)
  from last_index_append [OF split(2), of ys] split(1) d(1) have "dot = length ys" by simp
  with v split(1) show ?thesis by auto
qed

section \<open>On concrete cookies\<close>

definition plain_options :: cookie_options where
  "plain_options = \<lparr>co_maxAge = None, co_expires = None, co_path = None, co_domain = None, co_secure = None, co_httpOnly = True,
     co_sameSite = Some (SameText ''Lax''), co_signed = None, co_overwrite = False, co_partitioned = False, co_priority = None\<rparr>"

text \<open>A keyed hash and a codec to evaluate with: hexadecimal digits, one for each half of a byte.\<close>

definition toy_hmac :: "nat \<Rightarrow> string \<Rightarrow> string" where
  "toy_hmac k s = [char_of (k + length s)]"

definition hex64 :: "string \<Rightarrow> string" where
  "hex64 s = concat (map (\<lambda>c. [hex_digit (of_char c div 16), hex_digit (of_char c mod 16)]) s)"

fun unhex64 :: "string \<Rightarrow> string" where
  "unhex64 (a # b # s) = (case (hex_val a, hex_val b) of (Some x, Some y) \<Rightarrow> char_of (16 * x + y) # unhex64 s | _ \<Rightarrow> [])"
| "unhex64 _ = []"

lemma hex64_codec: "b64_codec hex64 unhex64"
proof -
  have u: "uri_unreserved (hex_digit n) \<and> hex_digit n \<noteq> CHR ''.''" if "n < 16" for n
    using that by (auto simp: uri_unreserved_def hex_digit_def Let_def dest!: arg_cong [where f = "of_char :: char \<Rightarrow> nat"])
  have "unhex64 (hex64 d) = d \<and> list_all uri_unreserved (hex64 d) \<and> CHR ''.'' \<notin> set (hex64 d)" for d
  proof (induction d)
    case (Cons c d)
    have "char_of (16 * (of_char c div 16) + of_char c mod 16 :: nat) = c" by simp
    moreover have "(of_char c :: nat) mod 16 < 16" by simp
    ultimately show ?case
      using Cons u [OF of_char_div [of c]] u [of "of_char c mod 16"] by (auto simp: hex64_def hex_val_digit of_char_div)
  qed (simp add: hex64_def)
  then show ?thesis by (simp add: b64_codec_def)
qed

lemma cookie_roundtrip_witness:
  "snd (cookies_get toy_hmac unhex64
      \<lparr>ch_cookieHeader = Some ''theme=dark; sid=a%20b.26; lang=en'', ch_requestSecure = True, ch_keys = Some [9, 35]\<rparr>
      None ''sid'' None) = Inr (Some ''a b'')"
proof -
  let ?host = "\<lparr>ch_cookieHeader = None, ch_requestSecure = True, ch_keys = Some [35 :: nat]\<rparr>"
  let ?host' = "\<lparr>ch_cookieHeader = Some ''theme=dark; sid=a%20b.26; lang=en'', ch_requestSecure = True, ch_keys = Some [9, 35 :: nat]\<rparr>"
  let ?h = "''sid=a%20b.26; Path=/; SameSite=Lax; Secure; HttpOnly''"
  have "valid_utf8 ''a b''" "cookies_set toy_hmac hex64 0 ?host [] ''sid'' ''a b'' plain_options = Inr [(''set-cookie'', Many [?h])]"
    "ch_cookieHeader ?host' = Some (js_join ''; '' ([''theme=dark''] @ cookie_pair ?h # [''lang=en'']))"
    "\<forall>q \<in> set ([''theme=dark''] @ [''lang=en'']). CHR '';'' \<notin> set q" "\<forall>q \<in> set [''lang=en'']. fst (parse_pair (CHR '' '' # q)) \<noteq> ''sid''"
    "keys_rotated (co_signed plain_options) (signing_keys ?host) (signing_keys ?host')" by code_simp+
  from cookie_roundtrip [OF hex64_codec this(1,2) _ _ this(3-6)] show ?thesis by (simp add: plain_options_def)
qed

lemma cookie_has_only_its_attributes_witness:
  "let h = ''sid=a%3Bb; Path=/; SameSite=Lax; HttpOnly'' in js_split CHR '';'' h = [''sid=a%3Bb'', '' Path=/'', '' SameSite=Lax'', '' HttpOnly'']"
proof -
  have "serializeCookie 0 ''sid'' ''a;b'' plain_options = Inr ''sid=a%3Bb; Path=/; SameSite=Lax; HttpOnly''" by code_simp
  from cookie_has_only_its_attributes [OF this] have
    "js_split CHR '';'' ''sid=a%3Bb; Path=/; SameSite=Lax; HttpOnly'' = (''sid'' @ ''='' @ encodeURIComponent ''a;b'')
       # map (\<lambda>a. CHR '' '' # render_attr a) (cookie_attributes plain_options)" ..
  also have "\<dots> = [''sid=a%3Bb'', '' Path=/'', '' SameSite=Lax'', '' HttpOnly'']" by code_simp
  finally show ?thesis by (simp only: Let_def)
qed

text \<open>With \<open>overwrite\<close> a staged Set-Cookie that is one string is kept, although it sets the same cookie.\<close>

lemma overwrite_keeps_single:
  "cookies_set toy_hmac hex64 0 \<lparr>ch_cookieHeader = None, ch_requestSecure = False, ch_keys = None\<rparr> [(''set-cookie'', One ''a=1'')]
     ''a'' ''2'' (plain_options\<lparr>co_overwrite := True, co_sameSite := None, co_httpOnly := False\<rparr>)
   = Inr [(''set-cookie'', Many [''a=1'', ''a=2; Path=/''])]"
  by code_simp

end
