(* ===== verification/IpRestriction.thy ===== *)
theory IpRestriction
  imports Strings "HOL-Library.Word"
begin

unbundle bit_operations_syntax

text \<open>
  The address gate, src/middleware/ip-restriction.ts: parsing of IPv4 and IPv6 text, compilation of
  CIDR rules, and the decision. The code's BigInt values are natural numbers here (none is negative) with
  the same shifts and bitwise operations; \<open>Refuse\<close> is the 403 answer, \<open>Continue\<close> the call of next().
\<close>

section \<open>Addresses\<close>

record compiled_rule =
  r_v4 :: bool
  network :: nat
  rmask :: nat

record address =
  a_v4 :: bool
  a_bits :: nat

text \<open>The two digit classes, \<open>/^\d{1,3}$/\<close> and \<open>/^[0-9a-fA-F]{1,4}$/\<close>.\<close>

definition short_digits :: "string \<Rightarrow> bool" where
  "short_digits s \<longleftrightarrow> 1 \<le> length s \<and> length s \<le> 3 \<and> list_all is_digit s"

definition short_hex :: "string \<Rightarrow> bool" where
  "short_hex s \<longleftrightarrow> 1 \<le> length s \<and> length s \<le> 4 \<and> list_all is_hex s"

fun octets :: "nat \<Rightarrow> string list \<Rightarrow> nat option" where
  "octets v [] = Some v"
| "octets v (part # parts) =
     (if \<not> short_digits part then None
      else if dec_value part > 255 then None
      else octets (push_bit 8 v OR dec_value part) parts)"

definition ipToInt :: "string \<Rightarrow> nat option" where
  "ipToInt ip = (let parts = js_split CHR ''.'' ip in if length parts \<noteq> 4 then None else octets 0 parts)"

fun hex_groups :: "nat \<Rightarrow> string list \<Rightarrow> nat option" where
  "hex_groups bits [] = Some bits"
| "hex_groups bits (g # gs) =
     (if \<not> short_hex g then None else hex_groups (push_bit 16 bits OR hex_value g) gs)"

text \<open>The embedded IPv4 tail, rewritten as two groups.\<close>

definition embed_v4 :: "string \<Rightarrow> string option" where
  "embed_v4 text =
     (if CHR ''.'' \<notin> set text then Some text
      else (let cut = (case last_index_of CHR '':'' text of None \<Rightarrow> 0 | Some i \<Rightarrow> i + 1) in
        case ipToInt (drop cut text) of None \<Rightarrow> None
        | Some tail \<Rightarrow> Some (take cut text @ show_hex (drop_bit 16 tail) @ '':'' @ show_hex (tail AND 0xffff))))"

definition colon_groups :: "string \<Rightarrow> string list" where
  "colon_groups s = (if s = [] then [] else js_split CHR '':'' s)"

definition ipv6ToBits :: "string \<Rightarrow> nat option" where
  "ipv6ToBits ip =
     (if CHR ''%'' \<in> set ip then None
      else case embed_v4 ip of None \<Rightarrow> None
      | Some text \<Rightarrow>
          (case js_split_str ''::'' text of
             [h] \<Rightarrow> (let head = colon_groups h in if length head \<noteq> 8 then None else hex_groups 0 head)
           | [h, t] \<Rightarrow>
               (let head = colon_groups h; tail = colon_groups t in
                if 8 < length head + length tail then None
                else hex_groups 0 (head @ replicate (8 - length head - length tail) ''0'' @ tail))
           | _ \<Rightarrow> None))"

definition is_mapped :: "nat \<Rightarrow> bool" where "is_mapped bits \<longleftrightarrow> drop_bit 32 bits = 0xffff"

definition parseAddress :: "string \<Rightarrow> address option" where
  "parseAddress ip =
     (if ip = [] then None
      else if CHR '':'' \<in> set ip
      then (let unbracketed = (if prefix ''['' ip \<and> suffix '']'' ip then js_slice 1 (length ip - 1) ip else ip) in
        case ipv6ToBits unbracketed of None \<Rightarrow> None
        | Some bits \<Rightarrow> if is_mapped bits then Some \<lparr>a_v4 = True, a_bits = bits AND 0xffffffff\<rparr>
                       else Some \<lparr>a_v4 = False, a_bits = bits\<rparr>)
      else map_option (\<lambda>bits. \<lparr>a_v4 = True, a_bits = bits\<rparr>) (ipToInt ip))"

section \<open>Rules\<close>

definition prefixMask :: "nat \<Rightarrow> nat \<Rightarrow> nat" where
  "prefixMask p bits = (if p = 0 then 0 else push_bit (bits - p) (push_bit p 1 - 1))"

definition bad_rule :: "'a res" where "bad_rule = throw (TypeError ''ipRestriction: invalid rule'')"

definition compileRule :: "string \<Rightarrow> compiled_rule res" where
  "compileRule rule =
     (if js_trim rule = [] then bad_rule
      else (let segs = js_split CHR ''/'' (js_trim rule) in
        if 2 < length segs then bad_rule
        else (let address = segs ! 0; prefixText = (if length segs = 2 then Some (segs ! 1) else None);
                  isV6 = CHR '':'' \<in> set address in
          case (if isV6 then ipv6ToBits address else ipToInt address) of
            None \<Rightarrow> bad_rule
          | Some raw \<Rightarrow>
              (let mapped = isV6 \<and> is_mapped raw; v4 = \<not> isV6 \<or> mapped;
                   bits = (if mapped then raw AND 0xffffffff else raw);
                   prefixAdjust = (if mapped then 96 else 0); width = (if v4 then 32 else 128) in
               case prefixText of
                 None \<Rightarrow> ok \<lparr>r_v4 = v4, network = bits, rmask = push_bit width 1 - 1\<rparr>
               | Some pt \<Rightarrow>
                   if \<not> short_digits pt then bad_rule
                   else if dec_value pt < prefixAdjust \<or> width < dec_value pt - prefixAdjust then bad_rule
                   else (let m = prefixMask (dec_value pt - prefixAdjust) width in
                         ok \<lparr>r_v4 = v4, network = bits AND m, rmask = m\<rparr>)))))"

fun compileRules :: "string list \<Rightarrow> compiled_rule list res" where
  "compileRules [] = ok []"
| "compileRules (r # rs) = res_bind (compileRule r) (\<lambda>c. res_bind (compileRules rs) (\<lambda>cs. ok (c # cs)))"

definition rule_matches :: "address \<Rightarrow> compiled_rule \<Rightarrow> bool" where
  "rule_matches a rule \<longleftrightarrow> r_v4 rule = a_v4 a \<and> (a_bits a AND rmask rule) = network rule"

definition matchesAny :: "compiled_rule list \<Rightarrow> address \<Rightarrow> bool" where
  "matchesAny rules a = list_ex (rule_matches a) rules"

section \<open>The gate\<close>

datatype gate = Continue | Refuse

definition ip_decision :: "compiled_rule list \<Rightarrow> compiled_rule list \<Rightarrow> string \<Rightarrow> gate" where
  "ip_decision allow deny ip =
     (case parseAddress ip of
        None \<Rightarrow> Refuse
      | Some a \<Rightarrow> if matchesAny deny a then Refuse
                  else if allow = [] \<or> matchesAny allow a then Continue
                  else Refuse)"

definition ipRestriction :: "string list \<Rightarrow> string list \<Rightarrow> (string \<Rightarrow> gate) res" where
  "ipRestriction allow deny =
     res_bind (compileRules allow) (\<lambda>al. res_bind (compileRules deny) (\<lambda>de.
       if al = [] \<and> de = [] then throw (TypeError ''ipRestriction() requires at least one allow or deny rule'')
       else ok (ip_decision al de)))"

section \<open>Shifts and masks as arithmetic\<close>

lemma push_or: "d < 2 ^ k \<Longrightarrow> push_bit k v OR d = v * 2 ^ k + d" for v d :: nat
proof -
  assume "d < 2 ^ k"
  then have d: "take_bit k d = d" by (simp add: take_bit_nat_eq_self)
  have "push_bit k v AND take_bit k d = 0" by (rule bit_eqI) (simp add: bit_simps)
  then have "push_bit k v OR take_bit k d = push_bit k v + take_bit k d"
    by (rule disjunctive_add_eq_or [symmetric])
  then show ?thesis by (simp add: d push_bit_eq_mult)
qed

lemma and_prefixMask:
  assumes "a < 2 ^ w" and "p \<le> w"
  shows "a AND prefixMask p w = push_bit (w - p) (drop_bit (w - p) a)"
proof (cases "p = 0")
  case True
  with assms show ?thesis by (simp add: prefixMask_def drop_bit_eq_div)
next
  case False
  have "take_bit w a = a" using assms(1) by (simp add: take_bit_nat_eq_self)
  then have high: "bit a n \<Longrightarrow> n < w" for n by (metis bit_take_bit_iff)
  have m: "prefixMask p w = push_bit (w - p) (mask p)"
    using False by (simp add: prefixMask_def mask_eq_exp_minus_1 push_bit_eq_mult)
  show ?thesis unfolding m
  proof (rule bit_eqI)
    fix n
    show "bit (a AND push_bit (w - p) (mask p)) n = bit (push_bit (w - p) (drop_bit (w - p) a)) n"
      using high [of n] assms(2) by (auto simp: bit_simps)
  qed
qed

lemma mask_and: "a < 2 ^ w \<Longrightarrow> a AND (push_bit w 1 - 1) = a" for a :: nat
  using take_bit_eq_mask [of w a] by (simp add: mask_eq_exp_minus_1 push_bit_eq_mult take_bit_nat_eq_self)

lemma low32: "n AND 0xffffffff = take_bit 32 n" for n :: nat
  by (simp add: take_bit_eq_mask mask_eq_exp_minus_1)

lemma low16: "n AND 0xffff = take_bit 16 n" for n :: nat
  by (simp add: take_bit_eq_mask mask_eq_exp_minus_1)

section \<open>Bounds of the parsers\<close>

lemma octets_bound: "octets v parts = Some r \<Longrightarrow> r < (v + 1) * 256 ^ length parts"
proof (induction parts arbitrary: v)
  case (Cons part parts)
  then have d: "dec_value part < 2 ^ 8" and r: "octets (push_bit 8 v OR dec_value part) parts = Some r"
    by (auto split: if_splits)
  have "r < ((push_bit 8 v OR dec_value part) + 1) * 256 ^ length parts" using Cons.IH [OF r] .
  also have "\<dots> = (v * 256 + dec_value part + 1) * 256 ^ length parts" using push_or [OF d] by simp
  also have "\<dots> \<le> ((v + 1) * 256) * 256 ^ length parts"
    by (rule mult_le_mono1) (use d in simp)
  finally show ?case by (simp add: algebra_simps)
qed simp

lemma ipToInt_bound: "ipToInt ip = Some n \<Longrightarrow> n < 2 ^ 32"
  using octets_bound [of 0 "js_split CHR ''.'' ip" n] by (simp add: ipToInt_def Let_def split: if_splits)

lemma hex_groups_bound: "hex_groups v gs = Some r \<Longrightarrow> r < (v + 1) * 65536 ^ length gs"
proof (induction gs arbitrary: v)
  case (Cons g gs)
  then have "hex_value g < 16 ^ length g" "length g \<le> 4" and r: "hex_groups (push_bit 16 v OR hex_value g) gs = Some r"
    by (auto split: if_splits simp: short_hex_def hex_value_bound)
  moreover have "(16::nat) ^ length g \<le> 16 ^ 4" using calculation(2) by (intro power_increasing) simp_all
  ultimately have d: "hex_value g < 2 ^ 16" by simp
  have "r < ((push_bit 16 v OR hex_value g) + 1) * 65536 ^ length gs" using Cons.IH [OF r] .
  also have "\<dots> = (v * 65536 + hex_value g + 1) * 65536 ^ length gs" using push_or [OF d] by simp
  also have "\<dots> \<le> ((v + 1) * 65536) * 65536 ^ length gs"
    by (rule mult_le_mono1) (use d in simp)
  finally show ?case by (simp add: algebra_simps)
qed simp

lemma ipv6_bound: "ipv6ToBits ip = Some n \<Longrightarrow> n < 2 ^ 128"
proof -
  assume *: "ipv6ToBits ip = Some n"
  then obtain gs where gs: "hex_groups 0 gs = Some n" "length gs = 8"
    by (auto simp: ipv6ToBits_def Let_def split: if_splits option.splits list.splits)
  from hex_groups_bound [OF gs(1)] gs(2) show ?thesis by simp
qed

lemma parseAddress_bound:
  "parseAddress ip = Some a \<Longrightarrow> a_bits a < 2 ^ (if a_v4 a then 32 else 128)"
  using ipToInt_bound ipv6_bound take_bit_nat_less_exp [of 32]
  by (auto simp: parseAddress_def Let_def low32 split: if_splits option.splits)

section \<open>Membership\<close>

lemma dotted_no_colon: "ipToInt ip = Some n \<Longrightarrow> CHR '':'' \<notin> set ip \<and> CHR ''%'' \<notin> set ip \<and> CHR ''.'' \<in> set ip"
proof -
  assume ip: "ipToInt ip = Some n"
  have parts: "\<forall>c \<in> set (concat (js_split CHR ''.'' ip)). is_digit c" "length (js_split CHR ''.'' ip) = 4"
  proof -
    have "octets v ps = Some r \<Longrightarrow> \<forall>c \<in> set (concat ps). is_digit c" for v ps r
      by (induction ps arbitrary: v) (auto simp: short_digits_def list_all_iff split: if_splits)
    with ip show "\<forall>c \<in> set (concat (js_split CHR ''.'' ip)). is_digit c" "length (js_split CHR ''.'' ip) = 4"
      by (auto simp: ipToInt_def Let_def split: if_splits)
  qed
  have mem: "c \<in> set ip \<Longrightarrow> c = CHR ''.'' \<or> c \<in> set (concat (js_split CHR ''.'' ip))" for c
    by (induction ip) (auto split: list.splits if_splits)
  have "CHR ''.'' \<in> set ip" using parts(2) js_split_no_sep [of "CHR ''.''" ip] by fastforce
  moreover have "CHR '':'' \<notin> set ip" using mem [of "CHR '':''"] parts(1) by (force simp: is_digit_def)
  moreover have "CHR ''%'' \<notin> set ip" using mem [of "CHR ''%''"] parts(1) by (force simp: is_digit_def)
  ultimately show ?thesis by blast
qed

lemma push_bit_cancel: "push_bit k a = push_bit k b \<longleftrightarrow> a = b" for a b :: nat
  by (simp add: push_bit_eq_mult)


lemmas ip_eval = ipToInt_def short_digits_def is_digit_def dec_value_def digit_val_def push_or push_bit_eq_mult drop_bit_eq_div
  parseAddress_def compileRule_def prefixMask_def Let_def rule_matches_def

lemma trim_example: "js_trim '' 10.1.2.3/8'' = ''10.1.2.3/8''" by code_simp


section \<open>The mapped form of an IPv4 address\<close>

lemma no_double_sep:
  assumes "\<forall>p \<in> set (js_split c s). p \<noteq> []"
  shows "index_of_str [c, c] s 0 = None"
proof -
  have "\<not> prefix [c, c] (drop k s)" for k
  proof
    assume "prefix [c, c] (drop k s)"
    then obtain b where "s = take k s @ c # c # b" by (metis append_Cons append_take_drop_id prefixE self_append_conv2)
    then have "js_split c s = js_split c (take k s) @ [] # js_split c b"
      using js_split_append [of c "take k s" "c # b"] by simp
    with assms show False by simp
  qed
  then show ?thesis by (simp add: index_of_str_def find_from_None)
qed

lemma last_colon: "CHR '':'' \<notin> set ip \<Longrightarrow> last_index_of CHR '':'' (''::ffff:'' @ ip) = Some 6"
proof -
  assume "CHR '':'' \<notin> set ip"
  then have "\<forall>x \<in> set (rev ip). x \<noteq> CHR '':''" by auto
  then have "takeWhile (\<lambda>x. x \<noteq> CHR '':'') (rev ip) = rev ip" by (simp only: takeWhile_eq_all_conv)
  then show ?thesis using takeWhile_append2 [of "rev ip" "\<lambda>x. x \<noteq> CHR '':''"] \<open>\<forall>x \<in> set (rev ip). x \<noteq> CHR '':''\<close>
    by (simp add: last_index_of_def index_of_def)
qed

lemma show_hex_short: "n < 65536 \<Longrightarrow> short_hex (show_hex n)"
  using show_hex_length [of n 4] show_hex_hex [of n]
  by (auto simp: short_hex_def list_all_iff Suc_le_eq)

lemma hex_group_of: "n < 65536 \<Longrightarrow> hex_groups v (show_hex n # gs) = hex_groups (v * 65536 + n) gs"
  by (simp add: show_hex_short push_or [of n 16])

lemma zero_group: "hex_groups 0 (''0'' # gs) = hex_groups 0 gs"
  by (simp add: short_hex_def is_hex_def hex_val_def hex_value_def)

lemma ffff_group: "hex_groups 0 (''ffff'' # gs) = hex_groups 65535 gs"
  by (simp add: short_hex_def is_hex_def hex_val_def hex_value_def)

lemma mapped_bits:
  assumes ip: "ipToInt ip = Some n"
  shows "ipv6ToBits (''::ffff:'' @ ip) = Some (65535 * 2 ^ 32 + n)"
proof -
  note chars = dotted_no_colon [OF ip]
  have n: "n < 2 ^ 32" using ipToInt_bound [OF ip] .
  define hi lo where "hi = n div 65536" and "lo = n mod 65536"
  have hl: "hi < 65536" "lo < 65536" "n = hi * 65536 + lo" using n by (simp_all add: hi_def lo_def)
  let ?rest = "''ffff:'' @ show_hex hi @ '':'' @ show_hex lo"
  have colon: "CHR '':'' \<notin> set (show_hex k)" for k by (rule show_hex_no) (simp add: is_hex_def hex_val_def)
  have groups: "js_split CHR '':'' ?rest = [''ffff'', show_hex hi, show_hex lo]"
    using js_split_app [OF colon, of hi "show_hex lo"] js_split_no_sep [OF colon, of lo] by simp
  have embed: "embed_v4 (''::ffff:'' @ ip) = Some (''::'' @ ?rest)"
    using chars last_colon [of ip] ip
    by (simp add: embed_v4_def Let_def low16 take_bit_eq_mod drop_bit_eq_div hi_def lo_def)
  have "index_of_str ''::'' ?rest 0 = None" by (rule no_double_sep) (simp only: groups, simp)
  then have "js_split_str ''::'' ?rest = [?rest]" by (subst js_split_str.simps) simp
  moreover have "index_of_str ''::'' (''::'' @ ?rest) 0 = Some 0" by (simp add: index_of_str_def)
  ultimately have halves: "js_split_str ''::'' (''::'' @ ?rest) = [[], ?rest]"
    by (subst js_split_str.simps) simp
  have five: "replicate 5 ''0'' = [''0'', ''0'', ''0'', ''0'', ''0'']" by (simp add: eval_nat_numeral)
  have "hex_groups 0 (replicate 5 ''0'' @ [''ffff'', show_hex hi, show_hex lo]) = Some ((65535 * 65536 + hi) * 65536 + lo)"
    by (simp only: five append.simps zero_group ffff_group hex_group_of [OF hl(1)] hex_group_of [OF hl(2)] hex_groups.simps(1))
  then show ?thesis using chars embed halves groups hl(3)
    by (simp add: ipv6ToBits_def Let_def colon_groups_def algebra_simps)
qed

text \<open>The gate treats a client reported in the IPv4-mapped IPv6 form of a dual-stack socket exactly
  as the same client reported in dotted form, under every rule set.\<close>

lemma mapped_client_equiv:
  assumes "ipToInt ip = Some n"
  shows "ip_decision allow deny (''::ffff:'' @ ip) = ip_decision allow deny ip"
proof -
  note chars = dotted_no_colon [OF assms]
  have n: "n < 2 ^ 32" using ipToInt_bound [OF assms] .
  have "take_bit 32 (65535 * 2 ^ 32 + n) = n" "drop_bit 32 (65535 * 2 ^ 32 + n) = 65535"
    using n mod_mult_self3 [of 65535 "2 ^ 32" n] by (simp_all add: take_bit_eq_mod drop_bit_eq_div del: mod_mult_self3)
  then have "parseAddress (''::ffff:'' @ ip) = Some \<lparr>a_v4 = True, a_bits = n\<rparr>"
    using mapped_bits [OF assms] by (simp add: parseAddress_def Let_def is_mapped_def low32)
  moreover have "ip \<noteq> []" using chars by auto
  then have "parseAddress ip = Some \<lparr>a_v4 = True, a_bits = n\<rparr>"
    using chars assms by (simp add: parseAddress_def)
  ultimately show ?thesis by (simp add: ip_decision_def)
qed

lemma mapped_client_equiv_witness:
  "ip_decision [] [\<lparr>r_v4 = True, network = 0x0A000000, rmask = 0xFF000000\<rparr>] ''::ffff:10.1.2.3'' = Refuse"
proof -
  have ip: "ipToInt ''10.1.2.3'' = Some 0x0A010203" by (simp add: ip_eval)
  from mapped_client_equiv [OF this] have "ip_decision [] deny ''::ffff:10.1.2.3'' = ip_decision [] deny ''10.1.2.3''" for deny
    by simp
  then show ?thesis using ip by (simp add: ip_decision_def ip_eval matchesAny_def)
qed

section \<open>Reading back printed addresses\<close>

definition show_ipv6 :: "nat list \<Rightarrow> string" where
  "show_ipv6 gs = js_join '':'' (map show_hex gs)"

lemma hex_groups_shown:
  "\<forall>g \<in> set gs. g < 65536 \<Longrightarrow> hex_groups v (map show_hex gs) = Some (foldl (\<lambda>a g. a * 65536 + g) v gs)"
proof (induction gs arbitrary: v)
  case (Cons g gs)
  then show ?case by (simp only: list.map hex_group_of [of g] list.set_intros foldl_Cons) simp
qed simp

text \<open>Every IPv6 address written as eight hexadecimal groups is read back as its 128-bit number.\<close>

lemma ipv6_roundtrip:
  assumes "length gs = 8" and "\<forall>g \<in> set gs. g < 65536"
  shows "ipv6ToBits (show_ipv6 gs) = Some (foldl (\<lambda>a g. a * 65536 + g) 0 gs)"
proof -
  have sep: "\<not> is_hex c \<Longrightarrow> c \<noteq> CHR '':'' \<Longrightarrow> c \<notin> set (show_ipv6 gs)" for c
  proof -
    assume c: "\<not> is_hex c" "c \<noteq> CHR '':''"
    have "c \<notin> set (js_join '':'' (map show_hex hs))" for hs
      by (induction hs rule: induct_list012) (use c show_hex_no in auto)
    then show ?thesis by (simp add: show_ipv6_def)
  qed
  have dot: "CHR ''.'' \<notin> set (show_ipv6 gs)" "CHR ''%'' \<notin> set (show_ipv6 gs)"
    by (rule sep; simp add: is_hex_def hex_val_def)+
  have groups: "js_split CHR '':'' (show_ipv6 gs) = map show_hex gs"
    unfolding show_ipv6_def by (rule js_split_join) (use assms(1) in \<open>auto intro!: show_hex_no simp: is_hex_def hex_val_def\<close>)
  have "index_of_str ''::'' (show_ipv6 gs) 0 = None" by (rule no_double_sep) (auto simp: groups)
  then have "js_split_str ''::'' (show_ipv6 gs) = [show_ipv6 gs]" by (subst js_split_str.simps) simp
  moreover have "show_ipv6 gs \<noteq> []" using groups assms(1) by auto
  ultimately show ?thesis using dot groups assms hex_groups_shown [OF assms(2), of 0]
    by (simp add: ipv6ToBits_def embed_v4_def colon_groups_def)
qed

lemma ipv6_roundtrip_witness:
  "ipv6ToBits (show_ipv6 [0x2001, 0xdb8, 0, 0, 0, 0, 0, 1]) = Some 0x20010db8000000000000000000000001"
  using ipv6_roundtrip [of "[0x2001, 0xdb8, 0, 0, 0, 0, 0, 1]"] by simp

end
