(* ===== verification/RateLimit.thy ===== *)
theory RateLimit
  imports Strings
begin

text \<open>
  The fixed-window rate limiter, src/middleware/rate-limit.ts. Times are milliseconds as integers and
  arguments of the operations that read the clock; a \<open>Map\<close> is the insertion-ordered map of Prelude.
  The store contract of the code (\<open>RateLimitStore\<close>) is the locale \<open>rate_store\<close>, the built-in
  memory store its interpretation.
\<close>

section \<open>The memory store\<close>

record rate_bucket =
  rb_count :: nat
  rb_resetAt :: int

type_synonym rate_map = "(string, rate_bucket) js_map"

text \<open>The eviction loop: it walks the keys in insertion order while there is something to drop.\<close>

fun evict_oldest :: "nat \<Rightarrow> string list \<Rightarrow> rate_map \<Rightarrow> rate_map" where
  "evict_oldest toDrop [] m = m"
| "evict_oldest toDrop (oldest # ks) m =
     (if toDrop = 0 then m else evict_oldest (toDrop - 1) ks (jm_delete oldest m))"

definition fresh_bucket :: "int \<Rightarrow> nat \<Rightarrow> rate_bucket" where
  "fresh_bucket now windowMs = \<lparr>rb_count = 1, rb_resetAt = now + int windowMs\<rparr>"

definition memory_hit :: "nat \<Rightarrow> rate_map \<Rightarrow> int \<Rightarrow> string \<Rightarrow> nat \<Rightarrow> rate_map \<times> rate_bucket" where
  "memory_hit maxKeys m now key windowMs =
     (let lapsed = (let fresh = fresh_bucket now windowMs; m1 = jm_set key fresh m in
            (if maxKeys < length m1 then evict_oldest (length m1 - maxKeys) (jm_keys m1) m1 else m1, fresh)) in
      case jm_get m key of
        None \<Rightarrow> lapsed
      | Some b \<Rightarrow> if now < rb_resetAt b
                  then (let b1 = b\<lparr>rb_count := rb_count b + 1\<rparr> in (jm_set key b1 m, b1))
                  else lapsed)"

definition memory_get :: "rate_map \<Rightarrow> string \<Rightarrow> rate_bucket option" where
  "memory_get m key = jm_get m key"

section \<open>The middleware\<close>

record rate_options =
  ro_limit :: js_value
  ro_windowMs :: js_value
  ro_retryAfterSeconds :: "int option"
  ro_headers :: bool
  ro_maxKeys :: js_value
  ro_store_ok :: bool   \<comment> \<open>a supplied store has the two methods\<close>

record rate_config =
  rc_limit :: nat
  rc_windowMs :: nat
  rc_retryAfter :: int
  rc_emitHeaders :: bool
  rc_maxKeys :: nat

definition positive_option :: "nat \<Rightarrow> string \<Rightarrow> js_value \<Rightarrow> nat res" where
  "positive_option dflt msg v =
     (case v of Absent \<Rightarrow> ok dflt
      | JInt i \<Rightarrow> if i < 1 then throw (TypeError msg) else ok (nat i)
      | _ \<Rightarrow> throw (TypeError msg))"

definition rateLimit :: "rate_options \<Rightarrow> rate_config res" where
  "rateLimit opts =
     res_bind (positive_option 100 ''rateLimit() requires a positive limit'' (ro_limit opts)) (\<lambda>limit.
     res_bind (positive_option 60000 ''rateLimit() requires a positive windowMs'' (ro_windowMs opts)) (\<lambda>windowMs.
     res_bind (positive_option 10000 ''rateLimit() requires a positive maxKeys'' (ro_maxKeys opts)) (\<lambda>maxKeys.
       if \<not> ro_store_ok opts then throw (TypeError ''rateLimit({ store }) requires the 0.8 { hit, get } interface'')
       else ok \<lparr>rc_limit = limit, rc_windowMs = windowMs,
              rc_retryAfter = (case ro_retryAfterSeconds opts of None \<Rightarrow> 1 | Some s \<Rightarrow> s),
              rc_emitHeaders = ro_headers opts, rc_maxKeys = maxKeys\<rparr>)))"

definition ceil_seconds :: "int \<Rightarrow> int" where "ceil_seconds ms = - ((- ms) div 1000)"

text \<open>The answer of the limiter: the 429 error with its headers, or next() after staging headers.\<close>

datatype rate_answer = TooMany "(string \<times> string) list" | Pass "(string \<times> string) list"

definition rate_check :: "rate_config \<Rightarrow> rate_bucket \<Rightarrow> int \<Rightarrow> rate_answer" where
  "rate_check cfg bucket now =
     (let retrySeconds = max 1 (ceil_seconds (rb_resetAt bucket - now)) in
      if rc_limit cfg < rb_count bucket
      then TooMany ((if 0 < rc_retryAfter cfg
                     then [(''retry-after'', show_int (max retrySeconds (rc_retryAfter cfg)))] else [])
                  @ (if rc_emitHeaders cfg
                     then [(''ratelimit-limit'', show_digits (rc_limit cfg)), (''ratelimit-remaining'', ''0''),
                           (''ratelimit-reset'', show_int retrySeconds)] else []))
      else Pass (if rc_emitHeaders cfg
                 then [(''RateLimit-Limit'', show_digits (rc_limit cfg)),
                       (''RateLimit-Remaining'', show_digits (rc_limit cfg - rb_count bucket)),
                       (''RateLimit-Reset'', show_int retrySeconds)] else []))"

text \<open>One request under a store: the middleware and the store each read the clock.\<close>

definition rate_request ::
  "('s \<Rightarrow> int \<Rightarrow> string \<Rightarrow> nat \<Rightarrow> 's \<times> rate_bucket) \<Rightarrow> rate_config \<Rightarrow> 's \<Rightarrow> int \<Rightarrow> int \<Rightarrow> string
     \<Rightarrow> 's \<times> rate_answer" where
  "rate_request hit cfg s now now' key =
     (let (s1, bucket) = hit s now' key (rc_windowMs cfg) in (s1, rate_check cfg bucket now))"

section \<open>The store contract\<close>

text \<open>The buckets a sequence of requests (time, key) is answered with, and whether the store keeps a key
  all along.\<close>

fun buckets_of ::
  "('s \<Rightarrow> int \<Rightarrow> string \<Rightarrow> nat \<Rightarrow> 's \<times> rate_bucket) \<Rightarrow> nat \<Rightarrow> 's \<Rightarrow> (int \<times> string) list \<Rightarrow> rate_bucket list" where
  "buckets_of hit w s [] = []"
| "buckets_of hit w s ((t, k) # es) = snd (hit s t k w) # buckets_of hit w (fst (hit s t k w)) es"

fun retained ::
  "('s \<Rightarrow> int \<Rightarrow> string \<Rightarrow> nat \<Rightarrow> 's \<times> rate_bucket) \<Rightarrow> ('s \<Rightarrow> string \<Rightarrow> rate_bucket option) \<Rightarrow> nat
     \<Rightarrow> string \<Rightarrow> 's \<Rightarrow> (int \<times> string) list \<Rightarrow> bool" where
  "retained hit lookup w k s [] = True"
| "retained hit lookup w k s ((t, j) # es) =
     (lookup (fst (hit s t j w)) k \<noteq> None \<and> retained hit lookup w k (fst (hit s t j w)) es)"

text \<open>The counts the requests of one key are answered with.\<close>

definition key_counts ::
  "('s \<Rightarrow> int \<Rightarrow> string \<Rightarrow> nat \<Rightarrow> 's \<times> rate_bucket) \<Rightarrow> nat \<Rightarrow> string \<Rightarrow> 's \<Rightarrow> (int \<times> string) list \<Rightarrow> nat list" where
  "key_counts hit w k s es =
     map (rb_count \<circ> snd) (filter (\<lambda>(e, _). snd e = k) (zip es (buckets_of hit w s es)))"

lemma key_counts_simps [simp]:
  "key_counts hit w k s [] = []"
  "key_counts hit w k s ((t, j) # es) =
     (if j = k then [rb_count (snd (hit s t j w))] else []) @ key_counts hit w k (fst (hit s t j w)) es"
  by (simp_all add: key_counts_def)

locale rate_store =
  fixes hit :: "'s \<Rightarrow> int \<Rightarrow> string \<Rightarrow> nat \<Rightarrow> 's \<times> rate_bucket"
    and lookup :: "'s \<Rightarrow> string \<Rightarrow> rate_bucket option"
    and inv :: "'s \<Rightarrow> bool"
  assumes inv_hit: "inv s \<Longrightarrow> inv (fst (hit s now k w))"
    and hit_bucket: "inv s \<Longrightarrow> snd (hit s now k w) =
      (case lookup s k of None \<Rightarrow> fresh_bucket now w
       | Some b \<Rightarrow> if now < rb_resetAt b then b\<lparr>rb_count := rb_count b + 1\<rparr> else fresh_bucket now w)"
    and hit_lookup: "inv s \<Longrightarrow> lookup (fst (hit s now k w)) k = Some (snd (hit s now k w))"
    and hit_other: "inv s \<Longrightarrow> j \<noteq> k \<Longrightarrow> lookup (fst (hit s now k w)) j \<in> {lookup s j, None}"
begin

lemma window_counts:
  assumes "inv s" and "lookup s k = Some b" and "\<forall>e \<in> set es. fst e < rb_resetAt b" and "retained hit lookup w k s es"
  shows "key_counts hit w k s es
    = [Suc (rb_count b) ..< Suc (rb_count b) + length (filter (\<lambda>e. snd e = k) es)]"
  using assms
proof (induction es arbitrary: s b)
  case (Cons e es)
  obtain t j where e: "e = (t, j)" by (cases e)
  let ?s = "fst (hit s t j w)"
  have inv: "inv ?s" using Cons.prems(1) by (rule inv_hit)
  have ret: "retained hit lookup w k ?s es" "lookup ?s k \<noteq> None" using Cons.prems(4) by (simp_all add: e)
  show ?case
  proof (cases "j = k")
    case True
    let ?b = "b\<lparr>rb_count := rb_count b + 1\<rparr>"
    have bk: "snd (hit s t k w) = ?b" using hit_bucket [OF Cons.prems(1), of t k w] Cons.prems(2,3) by (simp add: e)
    then have "lookup ?s k = Some ?b" using hit_lookup [OF Cons.prems(1), of t k w] by (simp add: True)
    from Cons.IH [OF inv this _ ret(1)] Cons.prems(3) show ?thesis
      by (simp add: e True bk upt_conv_Cons del: upt_Suc)
  next
    case False
    then have "lookup ?s k = Some b"
      using hit_other [OF Cons.prems(1), of k j t w] ret(2) Cons.prems(2) by auto
    from Cons.IH [OF inv this _ ret(1)] Cons.prems(3) False show ?thesis by (simp add: e)
  qed
qed simp

end

section \<open>The memory store keeps the contract\<close>

definition memory_inv :: "nat \<Rightarrow> rate_map \<Rightarrow> bool" where
  "memory_inv n m \<longleftrightarrow> distinct (jm_keys m) \<and> length m \<le> n \<and> 1 \<le> n"

lemma evict_oldest_get: "jm_get (evict_oldest d ks m) j = (if j \<in> set (take d ks) then None else jm_get m j)"
  by (induction d ks m rule: evict_oldest.induct) (auto simp: take_Cons' split: if_splits)

lemma evict_oldest_keys:
  "distinct (jm_keys m) \<Longrightarrow> jm_keys (evict_oldest d ks m) = filter (\<lambda>k. k \<notin> set (take d ks)) (jm_keys m)"
proof (induction d ks m rule: evict_oldest.induct)
  case (2 d oldest ks m)
  then show ?case by (auto simp: jm.keys_del jm.inv_del take_Cons' intro!: filter_cong)
qed simp

text \<open>A hit on a key without a live bucket; at most the oldest key goes, and never the key just hit.\<close>

definition lapsed_map :: "nat \<Rightarrow> rate_map \<Rightarrow> string \<Rightarrow> rate_bucket \<Rightarrow> rate_map" where
  "lapsed_map n m key fresh = (let m1 = jm_set key fresh m in
     if n < length m1 then evict_oldest (length m1 - n) (jm_keys m1) m1 else m1)"

lemma lapsed_map_cases:
  assumes "memory_inv n m"
  shows "lapsed_map n m key fresh = jm_set key fresh m \<and> length (jm_set key fresh m) \<le> n
    \<or> (m \<noteq> [] \<and> fst (hd m) \<noteq> key \<and> jm_get m key = None \<and> length m = n
        \<and> lapsed_map n m key fresh = jm_delete (fst (hd m)) (jm_set key fresh m))"
proof (cases "length (jm_set key fresh m) \<le> n")
  case True
  then show ?thesis by (simp add: lapsed_map_def)
next
  case False
  then have none: "jm_get m key = None" and len: "length m = n" "length (jm_set key fresh m) - n = 1"
    using assms jm_set_length [of key fresh m] by (auto simp: memory_inv_def split: if_splits)
  then obtain p ms where m: "m = p # ms" using assms by (cases m) (auto simp: memory_inv_def)
  have "fst p \<noteq> key" using none m by (cases p) (auto split: if_splits)
  moreover have "jm_keys (jm_set key fresh m) = fst p # tl (jm_keys (jm_set key fresh m))"
    using jm.keys_put [of key fresh m] none jm.keys_get [of key m] by (simp add: m)
  then have "lapsed_map n m key fresh = jm_delete (fst p) (jm_set key fresh m)"
    using False len(2) by (simp add: lapsed_map_def) (metis One_nat_def diff_Suc_1 evict_oldest.elims evict_oldest.simps(2) one_neq_zero)
  ultimately show ?thesis using m none len(1) by (cases p) simp
qed

lemma memory_hit_cases:
  "memory_hit n m now k w = (case jm_get m k of
      None \<Rightarrow> (lapsed_map n m k (fresh_bucket now w), fresh_bucket now w)
    | Some b \<Rightarrow> if now < rb_resetAt b then (jm_set k (b\<lparr>rb_count := rb_count b + 1\<rparr>) m, b\<lparr>rb_count := rb_count b + 1\<rparr>)
                else (lapsed_map n m k (fresh_bucket now w), fresh_bucket now w))"
  by (simp add: memory_hit_def lapsed_map_def Let_def split: option.split)

lemma jm_delete_shorter: "distinct (jm_keys m) \<Longrightarrow> jm_get m k \<noteq> None \<Longrightarrow> length (jm_delete k m) < length m"
  using jm.keys_del [of m k] jm.keys_get [of k m] length_filter_less [of k "jm_keys m" "\<lambda>x. x \<noteq> k"]
  by (metis length_map)

lemma lapsed_map_inv:
  assumes "memory_inv n m"
  shows "memory_inv n (lapsed_map n m k b)"
proof -
  have wf: "distinct (jm_keys (jm_set k b m))" using assms by (simp add: memory_inv_def jm.inv_put)
  have old: "m \<noteq> [] \<Longrightarrow> jm_get m (fst (hd m)) \<noteq> None" by (cases m) auto
  from lapsed_map_cases [OF assms, of k b] show ?thesis
  proof (elim disjE conjE)
    assume *: "m \<noteq> []" "fst (hd m) \<noteq> k" "jm_get m k = None" "length m = n"
      "lapsed_map n m k b = jm_delete (fst (hd m)) (jm_set k b m)"
    have "length (jm_delete (fst (hd m)) (jm_set k b m)) < length (jm_set k b m)"
      by (rule jm_delete_shorter [OF wf]) (use * old in simp)
    with * wf assms show ?thesis by (simp add: memory_inv_def jm_set_length jm.inv_del)
  qed (use assms wf in \<open>simp add: memory_inv_def\<close>)
qed

lemma lapsed_map_get_same: "memory_inv n m \<Longrightarrow> jm_get (lapsed_map n m k b) k = Some b"
  using lapsed_map_cases [of n m k b] by auto

lemma lapsed_map_get_other: "memory_inv n m \<Longrightarrow> j \<noteq> k \<Longrightarrow> jm_get (lapsed_map n m k b) j \<in> {jm_get m j, None}"
  using lapsed_map_cases [of n m k b] by (auto split: if_splits)

lemma live_inv: "memory_inv n m \<Longrightarrow> jm_get m k \<noteq> None \<Longrightarrow> memory_inv n (jm_set k b m)"
  by (auto simp: memory_inv_def jm.inv_put jm_set_length)

interpretation memory: rate_store "memory_hit n" memory_get "memory_inv n" for n
proof (unfold_locales, goal_cases)
  case (1 s now k w)
  then show ?case by (simp add: memory_hit_cases lapsed_map_inv live_inv split: option.split)
next
  case (2 s now k w)
  then show ?case by (simp add: memory_hit_cases memory_get_def split: option.split)
next
  case (3 s now k w)
  then show ?case by (simp add: memory_hit_cases memory_get_def lapsed_map_get_same split: option.split)
next
  case (4 s j k now w)
  then show ?case using lapsed_map_get_other [OF 4]
    by (auto simp: memory_hit_cases memory_get_def split: option.split)
qed

section \<open>The limit over one window\<close>

text \<open>A sequence of requests (clock of the middleware, clock of the store, key) and its answers.\<close>

fun rate_serve ::
  "('s \<Rightarrow> int \<Rightarrow> string \<Rightarrow> nat \<Rightarrow> 's \<times> rate_bucket) \<Rightarrow> rate_config \<Rightarrow> 's \<Rightarrow> (int \<times> int \<times> string) list
     \<Rightarrow> rate_answer list" where
  "rate_serve hit cfg s [] = []"
| "rate_serve hit cfg s ((now, t, k) # es) =
     snd (rate_request hit cfg s now t k) # rate_serve hit cfg (fst (rate_request hit cfg s now t k)) es"

definition is_pass :: "rate_answer \<Rightarrow> bool" where
  "is_pass a = (case a of Pass _ \<Rightarrow> True | TooMany _ \<Rightarrow> False)"

definition admitted :: "string \<Rightarrow> (int \<times> int \<times> string) list \<Rightarrow> rate_answer list \<Rightarrow> nat" where
  "admitted k es answers = length (filter (\<lambda>((_, _, j), a). j = k \<and> is_pass a) (zip es answers))"

definition requests_of :: "string \<Rightarrow> (int \<times> int \<times> string) list \<Rightarrow> nat" where
  "requests_of k es = length (filter (\<lambda>(_, _, j). j = k) es)"

lemma is_pass_check: "is_pass (rate_check cfg b now) \<longleftrightarrow> rb_count b \<le> rc_limit cfg"
  by (auto simp: is_pass_def rate_check_def Let_def)

lemma admitted_counts:
  "admitted k es (rate_serve hit cfg s es)
     = length (filter (\<lambda>c. c \<le> rc_limit cfg) (key_counts hit (rc_windowMs cfg) k s (map snd es)))"
proof (induction es arbitrary: s)
  case (Cons e es)
  obtain now t j where e: "e = (now, t, j)" by (cases e)
  have "admitted k (e # es) (rate_serve hit cfg s (e # es))
    = (if j = k \<and> is_pass (snd (rate_request hit cfg s now t j)) then 1 else 0)
      + admitted k es (rate_serve hit cfg (fst (rate_request hit cfg s now t j)) es)"
    by (cases "j = k") (simp_all add: e admitted_def)
  then show ?case unfolding Cons.IH
    by (cases "j = k") (simp_all add: e rate_request_def is_pass_check split: prod.split)
qed (simp add: admitted_def)

lemma memory_hit_keys: "set (jm_keys (fst (memory_hit n m t k w))) \<subseteq> insert k (set (jm_keys m))"
proof -
  have sub: "set (jm_keys (evict_oldest d ks m')) \<subseteq> set (jm_keys m')" for d ks m'
    using evict_oldest_get [of d ks m'] jm.keys_get by (metis (no_types, lifting) subsetI)
  have put: "set (jm_keys (jm_set k b m)) = insert k (set (jm_keys m))" for b
    by (auto simp only: jm.keys_put split: if_split) simp_all
  have "set (jm_keys (lapsed_map n m k b)) \<subseteq> insert k (set (jm_keys m))" for b
    using sub [of "length (jm_set k b m) - n" "jm_keys (jm_set k b m)" "jm_set k b m"]
    unfolding lapsed_map_def Let_def put by (simp only: put split: if_split) simp
  then show ?thesis using put by (simp add: memory_hit_cases split: option.split)
qed

lemma card_keys: "memory_inv n m \<Longrightarrow> card (set (jm_keys m)) = length m"
  using distinct_card [of "jm_keys m"] by (simp add: memory_inv_def)

lemma memory_keeps:
  assumes "memory_inv n m" and "memory_get m k \<noteq> None" and "card (insert j (set (jm_keys m))) \<le> n"
  shows "memory_get (fst (memory_hit n m t j w)) k \<noteq> None"
proof (cases "jm_get m j = None")
  case True
  then have "j \<notin> set (jm_keys m)" using jm.keys_get by fast
  then have "length (jm_set j b m) \<le> n" for b
    using assms(3) card_keys [OF assms(1)] True by (simp add: jm_set_length card_insert_if)
  then have "lapsed_map n m j b = jm_set j b m" for b by (simp add: lapsed_map_def Let_def not_less [symmetric])
  then show ?thesis using True assms(2) by (simp add: memory_hit_cases memory_get_def)
next
  case False
  then have "length (jm_set j b m) \<le> n" for b
    using assms(1) by (auto simp: jm_set_length memory_inv_def)
  then have "lapsed_map n m j b = jm_set j b m" for b by (simp add: lapsed_map_def Let_def not_less [symmetric])
  then show ?thesis using False assms(2) by (auto simp: memory_hit_cases memory_get_def split: option.split)
qed

lemma memory_retained:
  assumes "memory_inv n m" and "memory_get m k \<noteq> None" and "card (set (jm_keys m) \<union> snd ` set es) \<le> n"
  shows "retained (memory_hit n) memory_get w k m es"
  using assms
proof (induction es arbitrary: m)
  case (Cons e es)
  obtain t j where e: "e = (t, j)" by (cases e)
  let ?m = "fst (memory_hit n m t j w)"
  have "card (insert j (set (jm_keys m))) \<le> card (set (jm_keys m) \<union> snd ` set (e # es))"
    by (rule card_mono) (auto simp: e)
  then have keep: "memory_get ?m k \<noteq> None" using Cons.prems memory_keeps [of n m k j t w] by simp
  have "card (set (jm_keys ?m) \<union> snd ` set es) \<le> card (set (jm_keys m) \<union> snd ` set (e # es))"
    by (rule card_mono) (use memory_hit_keys [of n m t j w] in \<open>auto simp: e\<close>)
  then have "card (set (jm_keys ?m) \<union> snd ` set es) \<le> n" using Cons.prems(3) by simp
  with Cons.IH [OF memory.inv_hit [OF Cons.prems(1)] keep] keep show ?case by (simp add: e)
qed simp

lemma filter_upto: "length (filter (\<lambda>c. c \<le> l) [1 ..< 1 + N]) = min l N"
  by (induction N) auto


definition demo_requests :: "(int \<times> int \<times> string) list" where
  "demo_requests = [(0, 0, ''a''), (1, 1, ''b''), (2, 2, ''a''), (3, 3, ''a'')]"

definition demo_config :: rate_config where
  "demo_config = \<lparr>rc_limit = 2, rc_windowMs = 1000, rc_retryAfter = 1, rc_emitHeaders = False, rc_maxKeys = 2\<rparr>"


text \<open>Whatever keys a client floods the limiter with, the memory store never holds more than
  \<open>maxKeys\<close> entries.\<close>

lemma memory_store_bounded:
  assumes "1 \<le> n"
  shows "length (foldl (\<lambda>m (t, k, w). fst (memory_hit n m t k w)) [] hits) \<le> n"
proof -
  have "memory_inv n (foldl (\<lambda>m (t, k, w). fst (memory_hit n m t k w)) [] hits)"
  proof (induction hits rule: rev_induct)
    case Nil
    then show ?case using assms by (simp add: memory_inv_def)
  next
    case (snoc h hits)
    then show ?case by (cases h) (simp add: memory.inv_hit)
  qed
  then show ?thesis by (simp add: memory_inv_def)
qed

lemma memory_store_bounded_witness:
  "length (foldl (\<lambda>m (t, k, w). fst (memory_hit 1 m t k w)) [] [(0, ''a'', 10), (1, ''b'', 10), (2, ''c'', 10)]) \<le> 1"
  by (rule memory_store_bounded) simp

end
