(* ===== verification/Query.thy ===== *)
theory Query
  imports Strings
begin

text \<open>
  The targeted query-string reader, src/utils/query.ts: the forgiving decoder, the boundary-matched scan for
  one key, the wire forms of a key with their bounded memo, and the two look-ups. The scan loops until it has
  a hit at a boundary or none at all; for an empty key it would never end, so it is a partial function whose
  value None is "does not return".
\<close>

section \<open>Decoding a value\<close>

definition decodeRun :: "string \<Rightarrow> string" where
  "decodeRun run = (case decodeURIComponent run of None \<Rightarrow> run | Some d \<Rightarrow> d)"

definition flush_run :: "string \<Rightarrow> string" where
  "flush_run run = (if 0 < length run then decodeRun run else [])"

text \<open>The recovery loop: \<open>run\<close> collects consecutive well-formed escapes.\<close>

fun recover :: "string \<Rightarrow> string \<Rightarrow> string" where
  "recover run [] = flush_run run"
| "recover run [c] = flush_run run @ [c]"
| "recover run [c, a] = flush_run run @ [c, a]"
| "recover run (c # a # b # rest) =
     (if c = CHR ''%'' \<and> is_hex a \<and> is_hex b then recover (run @ [c, a, b]) rest
      else flush_run run @ c # recover [] (a # b # rest))"

definition plus_to_space :: "string \<Rightarrow> string" where
  "plus_to_space s = map (\<lambda>c. if c = CHR ''+'' then CHR '' '' else c) s"

definition space_to_plus :: "string \<Rightarrow> string" where
  "space_to_plus s = map (\<lambda>c. if c = CHR '' '' then CHR ''+'' else c) s"

definition query_decode :: "string \<Rightarrow> string" where
  "query_decode input = (let s = (if CHR ''+'' \<in> set input then plus_to_space input else input) in
     if CHR ''%'' \<notin> set s then s
     else (case decodeURIComponent s of Some d \<Rightarrow> d | None \<Rightarrow> recover [] s))"

section \<open>The scan for a key\<close>

text \<open>\<open>charCodeAt\<close> at the end of the key; beyond the input it is -1, here None.\<close>

definition char_at :: "string \<Rightarrow> nat \<Rightarrow> char option" where
  "char_at s i = (if i < length s then Some (s ! i) else None)"

definition boundary_before :: "string \<Rightarrow> nat \<Rightarrow> bool" where
  "boundary_before input hit \<longleftrightarrow> hit = 0 \<or> char_at input (hit - 1) = Some CHR ''&''"

definition boundary_after :: "char option \<Rightarrow> bool" where
  "boundary_after c \<longleftrightarrow> c = Some CHR ''='' \<or> c = Some CHR ''&'' \<or> c = None"

definition entry_span :: "string \<Rightarrow> nat \<Rightarrow> nat \<times> nat" where
  "entry_span input after =
     (if char_at input after = Some CHR ''='' then after + 1 else after,
      case index_of_str ''&'' input after of None \<Rightarrow> length input | Some e \<Rightarrow> e)"

partial_function (option) findQueryEntry :: "string \<Rightarrow> string \<Rightarrow> nat \<Rightarrow> (nat \<times> nat) option option" where
  "findQueryEntry input name at =
     (case index_of_str name input at of
        None \<Rightarrow> Some None
      | Some hit \<Rightarrow>
          (let after = hit + length name in
           if boundary_before input hit \<and> boundary_after (char_at input after) \<and> 0 < length name
           then Some (Some (entry_span input after))
           else findQueryEntry input name (hit + 1)))"

section \<open>Wire forms and their memo\<close>

type_synonym forms_cache = "(string, string list) js_map"

definition WIRE_FORMS_MAX :: nat where "WIRE_FORMS_MAX = 256"

definition compute_forms :: "string \<Rightarrow> string list" where
  "compute_forms name =
     (let encoded = encodeURIComponent name;
          plus = (if CHR '' '' \<in> set name then Some (space_to_plus name) else None) in
      if encoded = name then (case plus of None \<Rightarrow> [name] | Some p \<Rightarrow> [name, p])
      else (case plus of None \<Rightarrow> [name, encoded] | Some p \<Rightarrow> [name, encoded, p]))"

definition wireForms :: "string \<Rightarrow> forms_cache \<Rightarrow> string list \<times> forms_cache" where
  "wireForms name memo = (case jm_get memo name of
     Some forms \<Rightarrow> (forms, memo)
   | None \<Rightarrow> (let forms = compute_forms name in
       (forms, if length memo < WIRE_FORMS_MAX then jm_set name forms memo else memo)))"

section \<open>The look-ups\<close>

fun find_in_forms :: "string \<Rightarrow> string list \<Rightarrow> string option option" where
  "find_in_forms input [] = Some None"
| "find_in_forms input (form # forms) =
     Option.bind (findQueryEntry input form 0) (\<lambda>entry. case entry of
         None \<Rightarrow> find_in_forms input forms
       | Some (start, stop) \<Rightarrow> Some (Some (query_decode (js_slice start stop input))))"

definition findQueryValue :: "string \<Rightarrow> string \<Rightarrow> forms_cache \<Rightarrow> (string option \<times> forms_cache) option" where
  "findQueryValue input name memo =
     (if length input = 0 \<or> length name = 0 then Some (None, memo)
      else (let (forms, memo') = wireForms name memo in
        map_option (\<lambda>v. (v, memo')) (find_in_forms input forms)))"

partial_function (option) collect_form :: "string \<Rightarrow> string \<Rightarrow> nat \<Rightarrow> string list option" where
  "collect_form input form at =
     Option.bind (findQueryEntry input form at) (\<lambda>entry. case entry of
         None \<Rightarrow> Some []
       | Some (start, stop) \<Rightarrow>
           Option.bind (collect_form input form stop) (\<lambda>rest.
             Some (query_decode (js_slice start stop input) # rest)))"

fun collect_forms :: "string \<Rightarrow> string list \<Rightarrow> string list option" where
  "collect_forms input [] = Some []"
| "collect_forms input (form # forms) =
     Option.bind (collect_form input form 0) (\<lambda>vs. map_option ((@) vs) (collect_forms input forms))"

definition findAllQueryValues :: "string \<Rightarrow> string \<Rightarrow> forms_cache \<Rightarrow> (string list \<times> forms_cache) option" where
  "findAllQueryValues input name memo =
     (if length input = 0 \<or> length name = 0 then Some ([], memo)
      else (let (forms, memo') = wireForms name memo in
        map_option (\<lambda>vs. (vs, memo')) (collect_forms input forms)))"

section \<open>What the scan finds\<close>

text \<open>A position holds an entry when the key stands there between boundaries.\<close>

definition entry_at :: "string \<Rightarrow> string \<Rightarrow> nat \<Rightarrow> bool" where
  "entry_at input form h \<longleftrightarrow> prefix form (drop h input) \<and> boundary_before input h
     \<and> boundary_after (char_at input (h + length form))"

lemma index_of_str_Some:
  assumes "index_of_str p s at = Some h" and "p \<noteq> []"
  shows "at \<le> h \<and> h + length p \<le> length s \<and> prefix p (drop h s) \<and> (\<forall>k. at \<le> k \<and> k < h \<longrightarrow> \<not> prefix p (drop k s))"
proof -
  have gen: "find_from p t i = Some h \<Longrightarrow> i \<le> h \<and> prefix p (drop (h - i) t) \<and> (\<forall>k < h - i. \<not> prefix p (drop k t))" for t i
  proof (induction p t i rule: find_from.induct)
    case (2 p x xs i)
    show ?case
    proof (cases "prefix p (x # xs)")
      case False
      with 2 have IH: "Suc i \<le> h" "prefix p (drop (h - Suc i) xs)" "\<forall>k < h - Suc i. \<not> prefix p (drop k xs)" by auto
      then have e: "h - i = Suc (h - Suc i)" by simp
      have "\<not> prefix p (drop k (x # xs))" if "k < h - i" for k
        using that False IH e by (cases k) auto
      with IH e show ?thesis by simp
    qed (use 2 in auto)
  qed (auto split: if_splits)
  have f: "find_from p (drop at s) (min at (length s)) = Some h" using assms(1) by (simp add: index_of_str_def)
  note g = gen [OF f]
  have at: "at < length s"
  proof (rule ccontr)
    assume "\<not> at < length s"
    with f assms(2) show False by simp
  qed
  then have m: "min at (length s) = at" by simp
  have d: "drop (k - at) (drop at s) = drop k s" if "at \<le> k" for k using that by simp
  have h: "at \<le> h" "prefix p (drop h s)" using g m d by auto
  have "\<not> prefix p (drop k s)" if "at \<le> k" "k < h" for k
    using g m that d [of k] by (metis diff_less_mono)
  moreover have "length p \<le> length (drop h s)" using h(2) by (rule prefix_length_le)
  then have "h + length p \<le> length s" using assms(2) by (cases "h \<le> length s") auto
  ultimately show ?thesis using h by blast
qed

lemma index_of_str_None: "index_of_str p s at = None \<Longrightarrow> at \<le> k \<Longrightarrow> p \<noteq> [] \<Longrightarrow> \<not> prefix p (drop k s)"
proof -
  assume a: "index_of_str p s at = None" "at \<le> k" "p \<noteq> []"
  have n: "\<forall>j \<le> length (drop at s). \<not> prefix p (drop j (drop at s))"
    using a(1) by (simp add: index_of_str_def find_from_None)
  show ?thesis
  proof (cases "k \<le> length s")
    case True
    with n a(2) show ?thesis by (auto dest: spec [of _ "k - at"])
  qed (use a(3) in simp)
qed

lemma find_upt_skip:
  assumes "at \<le> h" and "h < n" and "\<forall>k. at \<le> k \<and> k < h \<longrightarrow> \<not> P k"
  shows "find P [at..<n] = (if P h then Some h else find P [Suc h..<n])"
proof -
  have "find P [at..<h] = None" using assms(3) by (auto simp: find_None_iff)
  moreover have "[at..<n] = [at..<h] @ h # [Suc h..<n]"
    using assms(1,2) using upt_add_eq_append [of at h "n - h"] by (simp add: upt_conv_Cons)
  moreover have "find P (xs @ ys) = (case find P xs of None \<Rightarrow> find P ys | Some x \<Rightarrow> Some x)" for xs ys
    by (induction xs) auto
  ultimately show ?thesis by simp
qed

text \<open>The scan returns for every non-empty key, with the first entry from the start position on.\<close>

lemma findQueryEntry_finds:
  assumes "form \<noteq> []"
  shows "findQueryEntry input form at =
    Some (map_option (\<lambda>h. entry_span input (h + length form)) (find (entry_at input form) [at..<length input]))"
proof (induction "length input - at" arbitrary: at rule: less_induct)
  case less
  show ?case
  proof (cases "index_of_str form input at")
    case None
    then have "\<forall>k \<in> set [at..<length input]. \<not> entry_at input form k"
      using index_of_str_None [OF None _ assms] by (auto simp: entry_at_def)
    then have "find (entry_at input form) [at..<length input] = None" by (auto simp: find_None_iff)
    with None show ?thesis by (subst findQueryEntry.simps) simp
  next
    case (Some h)
    note hit = index_of_str_Some [OF Some assms]
    then have h: "at \<le> h" "h < length input" using assms by (auto simp: Suc_le_eq)
    have skip: "\<forall>k. at \<le> k \<and> k < h \<longrightarrow> \<not> entry_at input form k" using hit by (simp add: entry_at_def)
    have e: "entry_at input form h \<longleftrightarrow> boundary_before input h \<and> boundary_after (char_at input (h + length form))"
      using hit by (simp add: entry_at_def)
    have IH: "findQueryEntry input form (Suc h) =
      Some (map_option (\<lambda>h. entry_span input (h + length form)) (find (entry_at input form) [Suc h..<length input]))"
      by (rule less) (use h in linarith)
    show ?thesis
      using Some assms e IH find_upt_skip [OF h skip] by (subst findQueryEntry.simps) (simp add: Let_def)
  qed
qed

section \<open>The scan reads the pairs of the query\<close>

text \<open>Reference: the pairs are the parts between the ampersands; a pair has the key when it is the key alone
  or the key, an equals sign and the value.\<close>

definition query_pair :: "string \<Rightarrow> string \<Rightarrow> string option" where
  "query_pair form p = (if p = form then Some [] else if prefix (form @ ''='') p then Some (drop (length form + 1) p) else None)"

definition key_form :: "string \<Rightarrow> bool" where
  "key_form form \<longleftrightarrow> form \<noteq> [] \<and> CHR ''&'' \<notin> set form"

text \<open>One part \<open>p\<close> of the input, after \<open>pre\<close> and before \<open>rest\<close>.\<close>

definition query_part :: "string \<Rightarrow> string \<Rightarrow> string \<Rightarrow> string \<Rightarrow> bool" where
  "query_part input pre p rest \<longleftrightarrow> input = pre @ p @ rest \<and> (pre = [] \<or> last pre = CHR ''&'')
     \<and> CHR ''&'' \<notin> set p \<and> (rest = [] \<or> hd rest = CHR ''&'')"

lemma query_partD:
  assumes "query_part input pre p rest"
  shows "input = pre @ p @ rest" and "pre = [] \<or> last pre = CHR ''&''" and "CHR ''&'' \<notin> set p"
    and "rest = [] \<or> hd rest = CHR ''&''"
  using assms by (simp_all add: query_part_def)

lemma part_prefix:
  assumes "query_part input pre p rest" and form: "key_form form"
  shows "prefix form (p @ rest) \<longleftrightarrow> prefix form p"
proof
  note rest = query_partD(4) [OF assms(1)]
  assume a: "prefix form (p @ rest)"
  show "prefix form p"
  proof (rule ccontr)
    assume "\<not> prefix form p"
    with a obtain zs where z: "form = p @ zs" "zs \<noteq> []" "prefix zs rest"
      by (metis append_Nil2 prefix_append prefix_order.dual_order.refl)
    then have "hd zs = hd rest" "rest \<noteq> []" by (cases zs; cases rest; simp)+
    with rest have "hd zs = CHR ''&''" by simp
    then have "CHR ''&'' \<in> set form" using z(1,2) by (cases zs) auto
    with form show False by (simp add: key_form_def)
  qed
qed (rule prefix_prefix)

lemma part_start:
  assumes part: "query_part input pre p rest" and form: "key_form form"
  shows "entry_at input form (length pre) \<longleftrightarrow> query_pair form p \<noteq> None"
proof -
  note input = query_partD(1) [OF part] and pre = query_partD(2) [OF part] and p = query_partD(3) [OF part]
    and rest = query_partD(4) [OF part]
  note prefix_form = part_prefix [OF part form]
  have "length pre - Suc 0 < length input" if "pre \<noteq> []" using that by (cases pre) (simp_all add: input)
  then have b: "boundary_before input (length pre)"
    using pre by (cases "pre = []") (auto simp: boundary_before_def char_at_def input nth_append last_conv_nth)
  have "entry_at input form (length pre) \<longleftrightarrow> prefix form p \<and> boundary_after (char_at input (length pre + length form))"
    using b prefix_form by (simp add: entry_at_def input)
  also have "\<dots> \<longleftrightarrow> query_pair form p \<noteq> None"
  proof (cases "prefix form p")
    case True
    then obtain q where q: "p = form @ q" by (auto simp: prefix_def)
    have c: "char_at input (length pre + length form) = (case q @ rest of [] \<Rightarrow> None | x # _ \<Rightarrow> Some x)"
      by (cases q; cases rest) (auto simp: char_at_def input q nth_append)
    show ?thesis
    proof (cases q)
      case Nil
      with c rest q show ?thesis by (cases rest) (auto simp: boundary_after_def query_pair_def)
    next
      case (Cons x t)
      then have "x \<noteq> CHR ''&''" using p q by auto
      with Cons c q show ?thesis by (auto simp: boundary_after_def query_pair_def)
    qed
  qed (auto simp: query_pair_def dest: append_prefixD)
  finally show ?thesis .
qed

lemma part_inside:
  assumes part: "query_part input pre p rest" and k: "length pre < k" "k \<le> length pre + length p"
  shows "\<not> entry_at input form k"
proof
  assume e: "entry_at input form k"
  note input = query_partD(1) [OF part] and p = query_partD(3) [OF part]
  have "char_at input (k - 1) = Some (p ! (k - 1 - length pre))"
    using k by (auto simp: char_at_def input nth_append)
  moreover have "p ! (k - 1 - length pre) \<in> set p" using k by (intro nth_mem) linarith
  ultimately have "char_at input (k - 1) \<noteq> Some CHR ''&''" using p by (metis option.inject)
  then have "\<not> boundary_before input k" using k by (simp add: boundary_before_def)
  with e show False by (simp add: entry_at_def)
qed

lemma part_span:
  assumes part: "query_part input pre p rest" and v: "query_pair form p = Some v" and s: "entry_span input (length pre + length form) = (a, b)"
  shows "b = length pre + length p \<and> js_slice a b input = v"
proof -
  note input = query_partD(1) [OF part] and p = query_partD(3) [OF part] and rest = query_partD(4) [OF part]
  let ?after = "length pre + length form" and ?e = "length pre + length p"
  have le: "?after \<le> ?e" "prefix form p" using v by (auto simp: query_pair_def split: if_splits dest: prefix_length_le append_prefixD)
  have none: "\<not> prefix ''&'' (drop k input)" if "?after \<le> k" "k < ?e" for k
  proof -
    have "drop k input = p ! (k - length pre) # drop (Suc k) input"
      using that by (subst Cons_nth_drop_Suc [symmetric]) (auto simp: input nth_append)
    moreover have "p ! (k - length pre) \<in> set p" using that by (intro nth_mem) linarith
    ultimately show ?thesis using p by auto
  qed
  have b: "b = (case index_of_str ''&'' input ?after of None \<Rightarrow> length input | Some e \<Rightarrow> e)"
    and a: "a = (if char_at input ?after = Some CHR ''='' then ?after + 1 else ?after)"
    using s by (simp_all add: entry_span_def)
  have "b = ?e"
  proof (cases "index_of_str ''&'' input ?after")
    case None
    have "rest = []"
    proof (rule ccontr)
      assume "rest \<noteq> []"
      then have "prefix ''&'' (drop ?e input)" using rest by (cases rest) (auto simp: input)
      with index_of_str_None [OF None le(1)] show False by simp
    qed
    with None b show ?thesis by (simp add: input)
  next
    case (Some e)
    note h = index_of_str_Some [OF Some]
    then have "\<not> e < ?e" using none by auto
    moreover have "\<not> ?e < e"
    proof
      assume lt: "?e < e"
      then have "rest \<noteq> []" using h by (auto simp: input)
      then have "prefix ''&'' (drop ?e input)" using rest by (cases rest) (auto simp: input)
      with h lt le(1) show False by auto
    qed
    ultimately show ?thesis using Some b by simp
  qed
  moreover have "js_slice a ?e input = v"
  proof (cases "p = form")
    case True
    then have "char_at input ?after \<noteq> Some CHR ''=''"
      using rest by (cases rest) (auto simp: char_at_def input nth_append)
    with True v a show ?thesis by (simp add: js_slice_def query_pair_def)
  next
    case False
    with v obtain t where t: "p = form @ CHR ''='' # t" "v = t" by (auto simp: query_pair_def prefix_def split: if_splits)
    then have "char_at input ?after = Some CHR ''=''" by (auto simp: char_at_def input nth_append)
    with t a show ?thesis by (simp add: js_slice_def input)
  qed
  ultimately show ?thesis by simp
qed

text \<open>Walking the parts: \<open>tail\<close> is what is left of the input after \<open>pre\<close>.\<close>

lemma split_parts:
  obtains "js_split c s = [s]" "c \<notin> set s"
  | p t where "s = p @ c # t" "c \<notin> set p" "js_split c s = p # js_split c t"
proof (cases "c \<in> set s")
  case True
  then obtain p t where "s = p @ c # t" "c \<notin> set p" using split_list_first by fastforce
  with that(2) js_split_app show ?thesis by metis
qed (use that(1) js_split_no_sep in blast)

lemma scan_part:
  assumes part: "query_part input pre p rest" and form: "key_form form"
  shows "find (entry_at input form) [length pre..<length input] =
    (if query_pair form p \<noteq> None then Some (length pre)
     else find (entry_at input form) [Suc (length pre + length p)..<length input])"
proof -
  have skip: "find (entry_at input form) [k..<n] = find (entry_at input form) [Suc e..<n]"
    if k: "k \<le> e" "e < n" "\<forall>j. k \<le> j \<and> j \<le> e \<longrightarrow> \<not> entry_at input form j" for k e n
    using find_upt_skip [OF k(1,2)] k(1,3) by simp
  have none: "find (entry_at input form) [k..<n] = None" if "\<forall>j. k \<le> j \<and> j < n \<longrightarrow> \<not> entry_at input form j" for k n
    using that by (auto simp: find_None_iff)
  note inside = part_inside [OF part] and start = part_start [OF part form] and input = query_partD(1) [OF part]
  show ?thesis
  proof (cases "query_pair form p = None")
    case True
    then have out: "\<forall>j. length pre \<le> j \<and> j \<le> length pre + length p \<longrightarrow> \<not> entry_at input form j"
      using inside start by (metis le_neq_implies_less)
    show ?thesis
    proof (cases "length pre + length p < length input")
      case True
      with skip [OF _ this out] \<open>query_pair form p = None\<close> show ?thesis by simp
    next
      case False
      with none [of "length pre" "length input"] out \<open>query_pair form p = None\<close> show ?thesis by (simp add: input)
    qed
  next
    case False
    then have "p \<noteq> []" using form by (auto simp: query_pair_def key_form_def split: if_splits)
    then have "length pre < length input" by (simp add: input)
    with False start show ?thesis by (simp add: upt_conv_Cons)
  qed
qed

definition slice_of :: "string \<Rightarrow> (nat \<times> nat) option \<Rightarrow> string option" where
  "slice_of input e = map_option (\<lambda>(a, b). js_slice a b input) e"

lemma scan_first:
  assumes "input = pre @ tail" and "pre = [] \<or> last pre = CHR ''&''" and "key_form form"
  shows "slice_of input (map_option (\<lambda>h. entry_span input (h + length form)) (find (entry_at input form) [length pre..<length input]))
    = first_some (query_pair form) (js_split CHR ''&'' tail)"
  using assms
proof (induction "length tail" arbitrary: pre tail rule: less_induct)
  case less
  show ?case
  proof (rule split_parts [of "CHR ''&''" tail])
    assume t: "js_split CHR ''&'' tail = [tail]" "CHR ''&'' \<notin> set tail"
    have part: "query_part input pre tail []" using less.prems t by (simp add: query_part_def)
    show ?thesis
    proof (cases "query_pair form tail")
      case None
      with scan_part [OF part less.prems(3)] t less.prems(1) show ?thesis by (simp add: slice_of_def)
    next
      case (Some v)
      with scan_part [OF part less.prems(3)] t part_span [OF part Some] show ?thesis
        by (simp add: slice_of_def split: prod.split)
    qed
  next
    fix p t assume t: "tail = p @ CHR ''&'' # t" "CHR ''&'' \<notin> set p" "js_split CHR ''&'' tail = p # js_split CHR ''&'' t"
    have part: "query_part input pre p (CHR ''&'' # t)" using less.prems t by (simp add: query_part_def)
    let ?pre = "pre @ p @ ''&''"
    have "input = ?pre @ t" "last ?pre = CHR ''&''" "length t < length tail" using less.prems t by simp_all
    with less.hyps [of t ?pre] less.prems(3)
    have IH: "slice_of input (map_option (\<lambda>h. entry_span input (h + length form)) (find (entry_at input form) [length ?pre..<length input]))
      = first_some (query_pair form) (js_split CHR ''&'' t)" by blast
    show ?thesis
    proof (cases "query_pair form p")
      case None
      with scan_part [OF part less.prems(3)] t(3) IH show ?thesis by simp
    next
      case (Some v)
      with scan_part [OF part less.prems(3)] t(3) part_span [OF part Some] show ?thesis
        by (simp add: slice_of_def split: prod.split)
    qed
  qed
qed

lemma find_entry_first:
  "key_form form \<Longrightarrow> \<exists>e. findQueryEntry input form 0 = Some e
     \<and> slice_of input e = first_some (query_pair form) (js_split CHR ''&'' input)"
  using findQueryEntry_finds [of form input 0] scan_first [of input "[]" input form] by (simp add: key_form_def)

lemma find_in_forms_spec:
  "\<forall>form \<in> set forms. key_form form \<Longrightarrow>
     find_in_forms input forms = Some (map_option query_decode (first_some (\<lambda>form. first_some (query_pair form) (js_split CHR ''&'' input)) forms))"
proof (induction forms)
  case (Cons form forms)
  obtain e where e: "findQueryEntry input form 0 = Some e"
    "slice_of input e = first_some (query_pair form) (js_split CHR ''&'' input)"
    using find_entry_first [of form input] Cons.prems by auto
  with Cons e(2) [symmetric] show ?case by (cases e) (auto simp: slice_of_def)
qed simp

section \<open>Every value of a key\<close>

lemma collect_form_spec:
  assumes "input = pre @ tail" and "pre = [] \<or> last pre = CHR ''&''" and "key_form form"
  shows "collect_form input form (length pre)
    = Some (map query_decode (List.map_filter (query_pair form) (js_split CHR ''&'' tail)))"
  using assms
proof (induction "length tail" arbitrary: pre tail rule: less_induct)
  case less
  have ne: "form \<noteq> []" using less.prems(3) by (simp add: key_form_def)
  note scan = findQueryEntry_finds [OF ne]
  show ?case
  proof (rule split_parts [of "CHR ''&''" tail])
    assume t: "js_split CHR ''&'' tail = [tail]" "CHR ''&'' \<notin> set tail"
    have part: "query_part input pre tail []" using less.prems t by (simp add: query_part_def)
    show ?thesis
    proof (cases "query_pair form tail")
      case None
      with scan_part [OF part less.prems(3)] t less.prems(1) show ?thesis
        by (subst collect_form.simps) (simp add: scan map_filter_simps)
    next
      case (Some v)
      obtain a b where sp: "entry_span input (length pre + length form) = (a, b)" by fastforce
      have b: "b = length input" "js_slice a b input = v" using part_span [OF part Some sp] less.prems(1) by auto
      have "collect_form input form b = Some []" by (subst collect_form.simps) (simp add: scan b)
      with scan_part [OF part less.prems(3)] t Some sp b(2) show ?thesis
        by (subst collect_form.simps) (simp add: scan map_filter_simps)
    qed
  next
    fix p t assume t: "tail = p @ CHR ''&'' # t" "CHR ''&'' \<notin> set p" "js_split CHR ''&'' tail = p # js_split CHR ''&'' t"
    have part: "query_part input pre p (CHR ''&'' # t)" using less.prems t by (simp add: query_part_def)
    let ?pre = "pre @ p @ ''&''"
    have "input = ?pre @ t" "last ?pre = CHR ''&''" "length t < length tail" using less.prems t by simp_all
    with less.hyps [of t ?pre] less.prems(3)
    have IH: "collect_form input form (length ?pre)
      = Some (map query_decode (List.map_filter (query_pair form) (js_split CHR ''&'' t)))" by blast
    have next_part: "collect_form input form k = collect_form input form (length ?pre)"
      if "find (entry_at input form) [k..<length input] = find (entry_at input form) [Suc (length pre + length p)..<length input]" for k
      by (subst (1 2) collect_form.simps) (simp add: scan that)
    show ?thesis
    proof (cases "query_pair form p")
      case None
      with scan_part [OF part less.prems(3)] t(3) IH next_part [of "length pre"] show ?thesis
        by (simp add: map_filter_simps)
    next
      case (Some v)
      obtain a b where sp: "entry_span input (length pre + length form) = (a, b)" by fastforce
      have b: "b = length pre + length p" "js_slice a b input = v" using part_span [OF part Some sp] by auto
      have "p \<noteq> []" using Some ne by (auto simp: query_pair_def split: if_splits)
      then have "\<not> entry_at input form b" using part_inside [OF part, of b] b(1) by simp
      moreover have "b < length input" using less.prems(1) t(1) b(1) by simp
      ultimately have "find (entry_at input form) [b..<length input] = find (entry_at input form) [Suc b..<length input]"
        by (simp add: upt_conv_Cons)
      then have "collect_form input form b
        = Some (map query_decode (List.map_filter (query_pair form) (js_split CHR ''&'' t)))"
        using next_part [of b] IH b(1) by simp
      with scan_part [OF part less.prems(3)] t(3) Some sp b(2) show ?thesis
        by (subst collect_form.simps) (simp add: scan map_filter_simps)
    qed
  qed
qed

lemma collect_forms_spec:
  "\<forall>form \<in> set forms. key_form form \<Longrightarrow> collect_forms input forms
     = Some (map query_decode (concat (map (\<lambda>form. List.map_filter (query_pair form) (js_split CHR ''&'' input)) forms)))"
proof (induction forms)
  case (Cons form forms)
  then show ?case using collect_form_spec [of input "[]" input form] by simp
qed simp

section \<open>The memo\<close>

text \<open>Every remembered list is the computed one, and the memo never grows past its bound.\<close>

definition forms_cache_ok :: "forms_cache \<Rightarrow> bool" where
  "forms_cache_ok memo \<longleftrightarrow> (\<forall>name forms. jm_get memo name = Some forms \<longrightarrow> forms = compute_forms name)
     \<and> length memo \<le> WIRE_FORMS_MAX"

lemma jm_set_size_le: "length (jm_set k v m) \<le> Suc (length m)"
  by (induction m) (auto simp: js_simps)

lemma wireForms_ok:
  assumes "forms_cache_ok memo"
  shows "fst (wireForms name memo) = compute_forms name \<and> forms_cache_ok (snd (wireForms name memo))"
proof (cases "jm_get memo name")
  case None
  have "length (jm_set name v memo) \<le> WIRE_FORMS_MAX" if "length memo < WIRE_FORMS_MAX" for v
    using that jm_set_size_le [of name v memo] by linarith
  with None assms show ?thesis by (auto simp: wireForms_def forms_cache_ok_def Let_def)
qed (use assms in \<open>simp add: wireForms_def forms_cache_ok_def\<close>)

lemma encode_no: "\<not> uri_unreserved x \<Longrightarrow> x \<noteq> CHR ''%'' \<Longrightarrow> hex_val x = None \<Longrightarrow> x \<notin> set (encodeURIComponent s)"
proof (induction s)
  case (Cons c s)
  have "x \<noteq> hex_digit n" if "n < 16" for n using hex_val_digit [OF that] Cons.prems(3) by auto
  then have "x \<notin> set (escape_byte c)" using Cons.prems(2) by (simp add: escape_byte_def of_char_div)
  with Cons show ?case by (auto simp: encode_Cons)
qed simp

lemma compute_forms_keys:
  assumes "name \<noteq> []" and "CHR ''&'' \<notin> set name"
  shows "\<forall>form \<in> set (compute_forms name). key_form form"
proof -
  have "CHR ''&'' \<notin> set (encodeURIComponent name)"
    by (rule encode_no) (simp_all add: uri_unreserved_def hex_val_def Let_def)
  moreover have "CHR ''&'' \<notin> set (space_to_plus name)" using assms(2) by (auto simp: space_to_plus_def)
  moreover have "encodeURIComponent name \<noteq> []" "space_to_plus name \<noteq> []" using assms(1) codec.enc_empty by (auto simp: space_to_plus_def)
  ultimately show ?thesis using assms by (auto simp: compute_forms_def key_form_def Let_def split: option.splits)
qed

lemma lookup_pairs:
  assumes "forms_cache_ok memo" and "CHR ''&'' \<notin> set name" and "name \<noteq> []" and "input \<noteq> []"
  shows "\<exists>memo'. forms_cache_ok memo'
    \<and> findQueryValue input name memo = Some (map_option query_decode
        (first_some (\<lambda>form. first_some (query_pair form) (js_split CHR ''&'' input)) (compute_forms name)), memo')
    \<and> findAllQueryValues input name memo = Some (map query_decode
        (concat (map (\<lambda>form. List.map_filter (query_pair form) (js_split CHR ''&'' input)) (compute_forms name))), memo')"
proof -
  obtain forms memo' where w: "wireForms name memo = (forms, memo')" by fastforce
  with wireForms_ok [OF assms(1), of name] have f: "forms = compute_forms name" "forms_cache_ok memo'" by simp_all
  note keys = compute_forms_keys [OF assms(3,2)]
  show ?thesis
    using f assms(3,4) w find_in_forms_spec [OF keys] collect_forms_spec [OF keys]
    by (intro exI [of _ memo']) (simp add: findQueryValue_def findAllQueryValues_def)
qed


section \<open>Reading back an encoded query\<close>

definition encode_pair :: "string \<times> string \<Rightarrow> string" where
  "encode_pair kv = encodeURIComponent (fst kv) @ ''='' @ encodeURIComponent (snd kv)"

definition query_string :: "(string \<times> string) list \<Rightarrow> string" where
  "query_string kvs = js_join ''&'' (map encode_pair kvs)"

lemma decode_encoded: "valid_utf8 v \<Longrightarrow> query_decode (encodeURIComponent v) = v"
proof -
  assume v: "valid_utf8 v"
  have plus: "CHR ''+'' \<notin> set (encodeURIComponent v)"
    by (rule encode_no) (simp_all add: uri_unreserved_def hex_val_def Let_def)
  have "decodeURIComponent (encodeURIComponent v) = Some v" by (rule decode_encode [OF v])
  moreover have "encodeURIComponent v = v" if "CHR ''%'' \<notin> set (encodeURIComponent v)"
    using calculation that decode_plain by fastforce
  ultimately show ?thesis using plus by (auto simp: query_decode_def Let_def)
qed

lemma encode_plain: "CHR ''%'' \<notin> set (encodeURIComponent k) \<Longrightarrow> encodeURIComponent k = k"
  by (induction k) (auto simp: encode_Cons escape_byte_def split: if_splits)

lemma query_pair_encoded:
  assumes "CHR ''='' \<notin> set form"
  shows "query_pair form (encode_pair (k, v)) = (if form = encodeURIComponent k then Some (encodeURIComponent v) else None)"
proof -
  have k: "CHR ''='' \<notin> set (encodeURIComponent k)"
    by (rule encode_no) (simp_all add: uri_unreserved_def hex_val_def Let_def)
  have "form \<noteq> encode_pair (k, v)" using assms by (auto simp: encode_pair_def)
  moreover have "prefix (form @ ''='') (encode_pair (k, v)) \<longleftrightarrow> form = encodeURIComponent k"
  proof
    assume "prefix (form @ ''='') (encode_pair (k, v))"
    then obtain r where "form @ CHR ''='' # r = encodeURIComponent k @ CHR ''='' # encodeURIComponent v"
      by (auto simp: prefix_def encode_pair_def)
    then have "takeWhile (\<lambda>x. x \<noteq> CHR ''='') (form @ CHR ''='' # r) = takeWhile (\<lambda>x. x \<noteq> CHR ''='') (encodeURIComponent k @ CHR ''='' # encodeURIComponent v)"
      by simp
    moreover have "takeWhile (\<lambda>x. x \<noteq> CHR ''='') (w @ CHR ''='' # z) = w" if "CHR ''='' \<notin> set w" for w z
      using that by (induction w) auto
    ultimately show "form = encodeURIComponent k" using assms k by simp
  qed (simp add: encode_pair_def)
  ultimately show ?thesis by (auto simp: query_pair_def encode_pair_def)
qed

lemma pairs_encoded:
  assumes "CHR ''='' \<notin> set form"
  shows "List.map_filter (query_pair form) (map encode_pair kvs)
    = map (\<lambda>kv. encodeURIComponent (snd kv)) (filter (\<lambda>kv. form = encodeURIComponent (fst kv)) kvs)"
proof (induction kvs)
  case (Cons kv kvs)
  have e: "query_pair form (encode_pair kv) = (if form = encodeURIComponent (fst kv) then Some (encodeURIComponent (snd kv)) else None)"
    using query_pair_encoded [OF assms, of "fst kv" "snd kv"] by simp
  show ?case
  proof (cases "form = encodeURIComponent (fst kv)")
    case True
    then have t: "(form = encodeURIComponent (fst kv)) = True" by simp
    with e have q: "query_pair form (encode_pair kv) = Some (encodeURIComponent (snd kv))" by simp
    show ?thesis by (simp only: list.map filter.simps map_filter_simps q t Cons option.case if_True)
  next
    case False
    with e Cons show ?thesis by (simp add: map_filter_simps)
  qed
qed (simp add: map_filter_simps)

lemma first_some_map_filter: "first_some f xs = hd_opt (List.map_filter f xs)"
  by (induction xs) (auto simp: map_filter_simps split: option.split)

lemma first_some_cong: "\<forall>x \<in> set xs. f x = g x \<Longrightarrow> first_some f xs = first_some g xs"
  by (induction xs) (auto split: option.split)

lemma split_query: "kvs \<noteq> [] \<Longrightarrow> js_split CHR ''&'' (query_string kvs) = map encode_pair kvs"
proof -
  assume kvs: "kvs \<noteq> []"
  have "CHR ''&'' \<notin> set (encodeURIComponent s)" for s
    by (rule encode_no) (simp_all add: uri_unreserved_def hex_val_def Let_def)
  then have "\<forall>p \<in> set (map encode_pair kvs). CHR ''&'' \<notin> set p" by (simp add: encode_pair_def)
  with kvs show ?thesis unfolding query_string_def by (intro js_split_join) simp_all
qed

text \<open>The forms of a plain key against encoded keys: only its own encoding hits.\<close>

lemma forms_hit:
  assumes name: "CHR ''%'' \<notin> set name" "CHR ''+'' \<notin> set name" "valid_utf8 name" and k: "valid_utf8 k"
  shows "name = encodeURIComponent k \<longleftrightarrow> encodeURIComponent name = name \<and> k = name"
    and "encodeURIComponent name = encodeURIComponent k \<longleftrightarrow> k = name"
    and "CHR '' '' \<in> set name \<Longrightarrow> space_to_plus name \<noteq> encodeURIComponent k"
proof -
  show "name = encodeURIComponent k \<longleftrightarrow> encodeURIComponent name = name \<and> k = name" using name(1) encode_plain by metis
  show "encodeURIComponent name = encodeURIComponent k \<longleftrightarrow> k = name" using codec.enc_inj name(3) k by metis
  assume "CHR '' '' \<in> set name"
  then have "CHR ''+'' \<in> set (space_to_plus name)" by (force simp: space_to_plus_def)
  moreover have "CHR ''+'' \<notin> set (encodeURIComponent k)"
    by (rule encode_no) (simp_all add: uri_unreserved_def hex_val_def Let_def)
  ultimately show "space_to_plus name \<noteq> encodeURIComponent k" by metis
qed

lemma space_encoded: "CHR '' '' \<in> set name \<Longrightarrow> encodeURIComponent name \<noteq> name"
proof
  assume "CHR '' '' \<in> set name" "encodeURIComponent name = name"
  moreover have "CHR '' '' \<notin> set (encodeURIComponent name)"
    by (rule encode_no) (simp_all add: uri_unreserved_def hex_val_def Let_def)
  ultimately show False by simp
qed

definition pair_select :: "string \<Rightarrow> (string \<times> string) list \<Rightarrow> (string \<times> string) list" where
  "pair_select form kvs = filter (\<lambda>kv. form = encodeURIComponent (fst kv)) kvs"

lemma select_forms:
  assumes name: "CHR ''%'' \<notin> set name" "CHR ''+'' \<notin> set name" "valid_utf8 name"
    and kvs: "\<forall>(k, v) \<in> set kvs. valid_utf8 k"
  shows "concat (map (\<lambda>form. pair_select form kvs) (compute_forms name)) = filter (\<lambda>(k, v). k = name) kvs"
proof -
  note hit = forms_hit [OF name]
  have utf: "valid_utf8 (fst kv)" if "kv \<in> set kvs" for kv using kvs that by (cases kv) auto
  have enc: "pair_select (encodeURIComponent name) kvs = filter (\<lambda>(k, v). k = name) kvs"
    unfolding pair_select_def using utf hit(2) by (intro filter_cong refl) (simp add: case_prod_unfold)
  have raw: "pair_select name kvs = []" if "encodeURIComponent name \<noteq> name"
  proof -
    have "name \<noteq> encodeURIComponent (fst kv)" if "kv \<in> set kvs" for kv
      using hit(1) [OF utf [OF that]] \<open>encodeURIComponent name \<noteq> name\<close> by blast
    then show ?thesis by (simp add: pair_select_def filter_empty_conv)
  qed
  have plus: "pair_select (space_to_plus name) kvs = []" if "CHR '' '' \<in> set name"
  proof -
    have "space_to_plus name \<noteq> encodeURIComponent (fst kv)" if "kv \<in> set kvs" for kv
      using hit(3) [OF utf [OF that]] \<open>CHR '' '' \<in> set name\<close> by blast
    then show ?thesis by (simp add: pair_select_def filter_empty_conv)
  qed
  show ?thesis
  proof (cases "encodeURIComponent name = name")
    case True
    then have "CHR '' '' \<notin> set name" using space_encoded by blast
    then have "compute_forms name = [name]" using True by (simp add: compute_forms_def)
    with enc True show ?thesis by simp
  next
    case False
    then show ?thesis using enc raw [OF False] plus
      by (cases "CHR '' '' \<in> set name") (simp_all add: compute_forms_def)
  qed
qed

lemma first_some_concat:
  "first_some (\<lambda>form. hd_opt (f form)) forms = hd_opt (concat (map f forms))"
  by (induction forms) (auto simp: hd_opt_append split: option.splits)

lemma pair_values:
  assumes "CHR ''='' \<notin> set form"
  shows "first_some (query_pair form) (map encode_pair kvs) = hd_opt (map (\<lambda>kv. encodeURIComponent (snd kv)) (pair_select form kvs))"
    and "List.map_filter (query_pair form) (map encode_pair kvs) = map (\<lambda>kv. encodeURIComponent (snd kv)) (pair_select form kvs)"
  unfolding first_some_map_filter pairs_encoded [OF assms] pair_select_def by simp_all


lemma empty_cache_ok: "forms_cache_ok []"
  by (simp add: forms_cache_ok_def WIRE_FORMS_MAX_def)



section \<open>Boundary cases\<close>

text \<open>A malformed escape stays as it is and does not disable its neighbours.\<close>

lemma recovery_is_local:
  "query_decode ''%ZZ%20%E4%B8%AD+%4'' = ''%ZZ '' @ [CHR 0xE4, CHR 0xB8, CHR 0xAD] @ '' %4''"
  by code_simp

text \<open>An already encoded name is found in its raw form, though the key of the pair is another one.\<close>

lemma raw_form_confusion:
  "\<exists>memo. findQueryValue (query_string [(''a b'', ''1'')]) ''a%20b'' [] = Some (Some ''1'', memo)"
proof -
  have q: "query_string [(''a b'', ''1'')] = ''a%20b=1''" by code_simp
  have f: "compute_forms ''a%20b'' = [''a%20b'', ''a%2520b'']" by code_simp
  have "query_decode ''1'' = ''1''" by (simp add: query_decode_def)
  then show ?thesis
    using lookup_pairs [of "[]" "''a%20b''" "''a%20b=1''"] unfolding f q by (auto simp: empty_cache_ok query_pair_def)
qed

end
