(* ===== verification/RequestView.thy ===== *)
theory RequestView
  imports Url Query IpRestriction
begin

text \<open>
  The request side of the context, src/core/context/request.ts over src/core/request-source.ts: memoized views
  of the URL, the query, the host, the protocol and the client address. A getter returns its value and the
  context with the memo it filled. The transport's facts (method, target, headers, peer) are the record
  \<open>req_source\<close>; what the runtime resolves as the peer address is part of it.
\<close>

section \<open>Sources, settings and memos\<close>

text \<open>The forms of the runtime's remote address: a text, a resolver, or the server's \<open>requestIP\<close>.\<close>

datatype remote_info = RemoteText string | RemoteCall "string option" | ServerPeer "string option"

record req_source =
  src_method :: string
  src_url :: string
  src_absolute :: string                           \<comment> \<open>\<open>sourceAbsoluteUrl\<close>\<close>
  src_header :: "string \<Rightarrow> string option"
  src_remote :: remote_info

record request_settings =
  proxy :: bool
  proxyIpHeader :: string
  maxIpsCount :: "int option"

record request_view =
  rv_source :: req_source
  rv_settings :: request_settings
  urlValue :: "string option"
  pathValue :: "string option"
  querystringValue :: "string option"
  hostValue :: "string option"
  ipValue :: "string option"

definition fresh_view :: "request_settings \<Rightarrow> req_source \<Rightarrow> request_view" where
  "fresh_view st src = \<lparr>rv_source = src, rv_settings = st, urlValue = None, pathValue = None, querystringValue = None,
     hostValue = None, ipValue = None\<rparr>"

section \<open>URL and query\<close>

definition get_url :: "request_view \<Rightarrow> string \<times> request_view" where
  "get_url v = (case urlValue v of Some u \<Rightarrow> (u, v)
     | None \<Rightarrow> (let rawUrl = src_url (rv_source v); u = getPath rawUrl @ getSearch rawUrl in (u, v\<lparr>urlValue := Some u\<rparr>)))"

definition get_path :: "request_view \<Rightarrow> string \<times> request_view" where
  "get_path v = (case pathValue v of Some p \<Rightarrow> (p, v)
     | None \<Rightarrow> (let (u, v') = get_url v; p = getPath u in (p, v'\<lparr>pathValue := Some p\<rparr>)))"

definition slice_query :: "string \<Rightarrow> string" where
  "slice_query url = (case index_of CHR ''?'' url of
     None \<Rightarrow> []
   | Some query \<Rightarrow> (case index_of CHR ''#'' url of
        None \<Rightarrow> js_slice (query + 1) (length url) url
      | Some hash \<Rightarrow> if hash < query then [] else js_slice (query + 1) hash url))"

definition get_querystring :: "request_view \<Rightarrow> string \<times> request_view" where
  "get_querystring v = (case querystringValue v of Some q \<Rightarrow> (q, v)
     | None \<Rightarrow> (let url = (case urlValue v of Some u \<Rightarrow> u | None \<Rightarrow> src_url (rv_source v)); q = slice_query url
               in (q, v\<lparr>querystringValue := Some q\<rparr>)))"

definition get_search :: "request_view \<Rightarrow> string \<times> request_view" where
  "get_search v = (let (qs, v') = get_querystring v in (if length qs = 0 then [] else CHR ''?'' # qs, v'))"

definition get_query :: "string \<Rightarrow> forms_cache \<Rightarrow> request_view \<Rightarrow> ((string option \<times> forms_cache) option) \<times> request_view" where
  "get_query name memo v = (let (qs, v') = get_querystring v in (findQueryValue qs name memo, v'))"

definition get_queries :: "string \<Rightarrow> forms_cache \<Rightarrow> request_view \<Rightarrow> ((string list \<times> forms_cache) option) \<times> request_view" where
  "get_queries name memo v = (let (qs, v') = get_querystring v in (findAllQueryValues qs name memo, v'))"

section \<open>Headers, host and protocol\<close>

definition get_header :: "req_source \<Rightarrow> string \<Rightarrow> string" where
  "get_header src field = (let name = to_lower field in
     if name = ''referer'' \<or> name = ''referrer'' then
       (case src_header src ''referrer'' of Some v \<Rightarrow> v
        | None \<Rightarrow> (case src_header src ''referer'' of Some v \<Rightarrow> v | None \<Rightarrow> []))
     else (case src_header src name of Some v \<Rightarrow> v | None \<Rightarrow> []))"

definition stripUserinfo :: "string \<Rightarrow> string" where
  "stripUserinfo s = (case last_index_of CHR ''@'' s of None \<Rightarrow> s | Some at \<Rightarrow> drop (at + 1) s)"

definition url_authority_part :: "string \<Rightarrow> string" where
  "url_authority_part url = (case index_of_str ''://'' url 0 of
     None \<Rightarrow> [] | Some scheme \<Rightarrow> takeWhile (\<lambda>c. c \<notin> {CHR ''/'', CHR ''?'', CHR ''#''}) (drop (scheme + 3) url))"

definition authorityOf :: "string \<Rightarrow> string" where
  "authorityOf url = stripUserinfo (url_authority_part url)"

text \<open>\<open>value.split(",")[0]?.trim() ?? ""\<close>\<close>

definition first_entry :: "string \<Rightarrow> string" where
  "first_entry s = js_trim (hd (js_split CHR '','' s))"

definition computeHost :: "request_settings \<Rightarrow> req_source \<Rightarrow> string" where
  "computeHost st src =
     (let forwarded = (if proxy st then stripUserinfo (first_entry (get_header src ''x-forwarded-host'')) else []) in
      if 0 < length forwarded then forwarded
      else (let host = stripUserinfo (get_header src ''host'') in
        if 0 < length host then host else authorityOf (src_absolute src)))"

definition get_host :: "request_view \<Rightarrow> string \<times> request_view" where
  "get_host v = (case hostValue v of Some h \<Rightarrow> (h, v)
     | None \<Rightarrow> (let h = computeHost (rv_settings v) (rv_source v) in (h, v\<lparr>hostValue := Some h\<rparr>)))"

definition get_protocol :: "request_view \<Rightarrow> string" where
  "get_protocol v =
     (let forwarded = (if proxy (rv_settings v) then first_entry (get_header (rv_source v) ''x-forwarded-proto'') else []) in
      if 0 < length forwarded then forwarded
      else if starts_with ''https://'' (src_absolute (rv_source v)) then ''https'' else ''http'')"

definition get_secure :: "request_view \<Rightarrow> bool" where "get_secure v \<longleftrightarrow> get_protocol v = ''https''"

definition get_origin :: "request_view \<Rightarrow> string \<times> request_view" where
  "get_origin v = (let (h, v') = get_host v in (get_protocol v @ ''://'' @ h, v'))"

definition get_href :: "request_view \<Rightarrow> string \<times> request_view" where
  "get_href v = (let (url, v1) = get_url v; (host, v2) = get_host v1 in
     (if length host = 0 then url else get_protocol v @ ''://'' @ host @ url, v2))"

definition get_idempotent :: "request_view \<Rightarrow> bool" where
  "get_idempotent v \<longleftrightarrow> src_method (rv_source v) \<in> {''GET'', ''HEAD'', ''PUT'', ''DELETE'', ''OPTIONS'', ''TRACE''}"

section \<open>The client address\<close>

text \<open>The two shapes \<open>stripPort\<close> touches: a dotted quad and a bracketed address, each with a port.\<close>

definition port_digits :: "string \<Rightarrow> bool" where "port_digits s \<longleftrightarrow> s \<noteq> [] \<and> list_all is_digit s"

definition ipv4_with_port :: "string \<Rightarrow> bool" where
  "ipv4_with_port s = (case js_split CHR '':'' s of
     [ip, port] \<Rightarrow> port_digits port \<and> length (js_split CHR ''.'' ip) = 4 \<and> list_all short_digits (js_split CHR ''.'' ip)
   | _ \<Rightarrow> False)"

definition bracketed_with_port :: "string \<Rightarrow> bool" where
  "bracketed_with_port s = (case index_of CHR '']'' s of
     None \<Rightarrow> False
   | Some e \<Rightarrow> starts_with ''['' s \<and> js_slice 1 e s \<noteq> [] \<and> list_all (\<lambda>c. is_hex c \<or> c = CHR '':'') (js_slice 1 e s)
       \<and> starts_with '':'' (drop (e + 1) s) \<and> port_digits (drop (e + 2) s))"

definition stripPort :: "string \<Rightarrow> string" where
  "stripPort entry =
     (if ipv4_with_port entry then (case last_index_of CHR '':'' entry of None \<Rightarrow> entry | Some i \<Rightarrow> take i entry)
      else if bracketed_with_port entry then (case index_of CHR '']'' entry of None \<Rightarrow> entry | Some e \<Rightarrow> take (e + 1) entry)
      else entry)"

definition forwarded_chain :: "string \<Rightarrow> string list" where
  "forwarded_chain raw = filter (\<lambda>e. 0 < length e) (map (\<lambda>e. stripPort (js_trim e)) (js_split CHR '','' raw))"

text \<open>\<open>chain.slice(-max)\<close>\<close>

definition last_n :: "nat \<Rightarrow> 'a list \<Rightarrow> 'a list" where "last_n n xs = drop (length xs - n) xs"

definition forwarded_ip :: "request_settings \<Rightarrow> string \<Rightarrow> string option" where
  "forwarded_ip st raw =
     (let chain = forwarded_chain raw in
      hd_opt (case maxIpsCount st of Some m \<Rightarrow> if 0 < m then last_n (nat m) chain else chain | None \<Rightarrow> chain))"

definition forwarded_first :: "request_settings \<Rightarrow> req_source \<Rightarrow> string option" where
  "forwarded_first st src =
     (let raw = (if proxy st then get_header src (proxyIpHeader st) else []) in if 0 < length raw then forwarded_ip st raw else None)"

definition resolve_remote :: "remote_info \<Rightarrow> string" where
  "resolve_remote r = (case r of RemoteText t \<Rightarrow> t | RemoteCall a \<Rightarrow> (case a of Some t \<Rightarrow> t | None \<Rightarrow> [])
     | ServerPeer a \<Rightarrow> (case a of Some t \<Rightarrow> t | None \<Rightarrow> []))"

definition get_ip :: "request_view \<Rightarrow> string \<times> request_view" where
  "get_ip v =
     (case forwarded_first (rv_settings v) (rv_source v) of
        Some first \<Rightarrow> (first, v)
      | None \<Rightarrow> (case ipValue v of Some i \<Rightarrow> (i, v)
          | None \<Rightarrow> (let i = resolve_remote (src_remote (rv_source v)) in (i, v\<lparr>ipValue := Some i\<rparr>))))"

section \<open>Reading a proxied address\<close>

lemma last_n_append: "length ys = n \<Longrightarrow> last_n n (xs @ ys) = ys"
  by (simp add: last_n_def)

text \<open>An entry a proxy appends: no comma, and an address is left after trimming and dropping the port.\<close>

definition chain_entry :: "string \<Rightarrow> bool" where
  "chain_entry e \<longleftrightarrow> CHR '','' \<notin> set e \<and> stripPort (js_trim e) \<noteq> []"

lemma chain_of_entries:
  assumes "es \<noteq> []" and "\<forall>e \<in> set es. chain_entry e"
  shows "forwarded_chain (js_join '','' es) = map (\<lambda>e. stripPort (js_trim e)) es"
proof -
  have "js_split CHR '','' (js_join '','' es) = es" using assms by (intro js_split_join) (auto simp: chain_entry_def)
  then show ?thesis using assms(2) by (simp add: forwarded_chain_def filter_id_conv chain_entry_def)
qed

lemma chain_append: "forwarded_chain (client @ CHR '','' # t) = forwarded_chain client @ forwarded_chain t"
  by (simp add: forwarded_chain_def js_split_append)

text \<open>C27: behind a known number of proxies the client cannot choose its address: when the last entries of the
  forwarding header are the ones the trusted proxies appended, the address read is the first of these, whatever
  the client itself sent before them.\<close>

theorem proxied_ip_not_spoofable:
  assumes "proxy (rv_settings v)" and "maxIpsCount (rv_settings v) = Some (int (length es))"
    and "es \<noteq> []" and "\<forall>e \<in> set es. chain_entry e"
    and "get_header (rv_source v) (proxyIpHeader (rv_settings v)) \<in> {js_join '','' es, client @ '','' @ js_join '','' es}"
  shows "fst (get_ip v) = stripPort (js_trim (hd es))"
proof -
  let ?raw = "get_header (rv_source v) (proxyIpHeader (rv_settings v))"
  let ?es = "map (\<lambda>e. stripPort (js_trim e)) es"
  have chain: "\<exists>pre. forwarded_chain ?raw = pre @ ?es"
    using assms(5) chain_of_entries [OF assms(3,4)] chain_append [of client "js_join '','' es"]
    by (metis append_Cons append_Nil insertE singletonD)
  have "?raw \<noteq> []"
  proof
    assume "?raw = []"
    then have "forwarded_chain ?raw = []" by (subst \<open>?raw = []\<close>) (simp add: forwarded_chain_def stripPort_def js_trim_def
      ipv4_with_port_def bracketed_with_port_def trim_start.simps trim_end.simps js_ws_def index_of_def)
    with chain assms(3) show False by simp
  qed
  moreover have "forwarded_ip (rv_settings v) ?raw = Some (stripPort (js_trim (hd es)))"
  proof -
    from chain obtain pre where pre: "forwarded_chain ?raw = pre @ ?es" by blast
    have "last_n (length es) (pre @ ?es) = ?es" by (rule last_n_append) simp
    moreover have "hd_opt ?es = Some (stripPort (js_trim (hd es)))" using assms(3) by (cases es) simp_all
    ultimately show ?thesis using pre assms(2,3) by (simp add: forwarded_ip_def)
  qed
  ultimately show ?thesis using assms(1) by (simp add: get_ip_def forwarded_first_def)
qed

definition demo_source :: "string \<Rightarrow> req_source" where
  "demo_source xff = \<lparr>src_method = ''GET'', src_url = ''/a?b=1#c'', src_absolute = ''http://h/a?b=1#c'',
     src_header = (\<lambda>n. if n = ''x-forwarded-for'' then Some xff else None), src_remote = RemoteText ''::1''\<rparr>"

definition demo_settings :: request_settings where
  "demo_settings = \<lparr>proxy = True, proxyIpHeader = ''X-Forwarded-For'', maxIpsCount = Some 1\<rparr>"

lemma proxied_ip_not_spoofable_witness:
  "fst (get_ip (fresh_view demo_settings (demo_source ''6.6.6.6, 7.7.7.7,8.8.8.8:123''))) = ''8.8.8.8''"
proof -
  let ?v = "fresh_view demo_settings (demo_source ''6.6.6.6, 7.7.7.7,8.8.8.8:123'')"
  have strip: "stripPort (js_trim ''8.8.8.8:123'') = ''8.8.8.8''" by code_simp
  then have entry: "chain_entry ''8.8.8.8:123''" by (simp add: chain_entry_def)
  have name: "to_lower ''X-Forwarded-For'' = ''x-forwarded-for''" by code_simp
  have hdr: "get_header (rv_source ?v) (proxyIpHeader (rv_settings ?v)) = ''6.6.6.6, 7.7.7.7,8.8.8.8:123''"
    unfolding get_header_def fresh_view_def demo_settings_def demo_source_def
    by (simp add: name del: to_lower_simps)
  have "fst (get_ip ?v) = stripPort (js_trim (hd [''8.8.8.8:123'']))"
    by (rule proxied_ip_not_spoofable [where client = "''6.6.6.6, 7.7.7.7''"])
      (use entry hdr in \<open>simp_all add: fresh_view_def demo_settings_def\<close>)
  with strip show ?thesis by simp
qed

section \<open>Reading a view\<close>

text \<open>Targets as the transports give them: a path, or a URL with a scheme, no delimiter before the path.\<close>

definition plain_target :: "string \<Rightarrow> bool" where
  "plain_target url \<longleftrightarrow> starts_with ''/'' (getPath url) \<and> (\<forall>c \<in> set (take (getPathStart url) url). \<not> path_stop c)"

lemma slice_query_search: "slice_query url = drop 1 (getSearch url)"
  by (auto simp: slice_query_def getSearch_def js_slice_def Let_def drop_take split: option.split simp del: index_of_None)

lemma path_no_stop: "\<forall>c \<in> set (getPath url). \<not> path_stop c"
proof -
  have "\<forall>c \<in> set (takeWhile (\<lambda>c. \<not> path_stop c) t). \<not> path_stop c" for t by (auto dest: set_takeWhileD)
  moreover have "\<not> path_stop CHR ''/''" by (simp add: path_stop_def)
  ultimately show ?thesis by (simp add: getPath_def Let_def slice_scan)
qed

lemma search_shape: "getSearch url = [] \<or> (\<exists>t. getSearch url = CHR ''?'' # t \<and> CHR ''#'' \<notin> set t)"
proof (cases "index_of CHR ''?'' url")
  case (Some q)
  then have mem: "CHR ''?'' \<in> set url" and q: "q = length (takeWhile (\<lambda>x. x \<noteq> CHR ''?'') url)"
    by (auto simp: index_of_def split: if_splits)
  have "dropWhile (\<lambda>x. x \<noteq> CHR ''?'') url \<noteq> []" using mem by simp
  then obtain r where r: "drop q url = CHR ''?'' # r"
    using hd_dropWhile [of "\<lambda>x. x \<noteq> CHR ''?''" url] unfolding q by (cases "dropWhile (\<lambda>x. x \<noteq> CHR ''?'') url") (auto simp: dropWhile_eq_drop)
  show ?thesis
  proof (cases "index_of CHR ''#'' url")
    case None
    then have "CHR ''#'' \<notin> set (drop q url)" using in_set_dropD by (metis index_of_None)
    moreover have "length url - q = Suc (length r)" using arg_cong [OF r, of length] by simp
    ultimately show ?thesis using None Some r by (simp add: getSearch_def js_slice_def Let_def del: index_of_None)
  next
    case h: (Some h)
    then have "h = length (takeWhile (\<lambda>x. x \<noteq> CHR ''#'') url)" by (auto simp: index_of_def split: if_splits)
    then have "take h url = takeWhile (\<lambda>x. x \<noteq> CHR ''#'') url" using takeWhile_eq_take by metis
    then have no: "CHR ''#'' \<notin> set (take h url)" by (auto dest: set_takeWhileD)
    have "set (take (h - q) (drop q url)) \<subseteq> set (take h url)"
      by (metis drop_take set_drop_subset)
    with no have sub: "CHR ''#'' \<notin> set (take (h - q) (drop q url))" by blast
    have g: "getSearch url = (if h < q then [] else take (h - q) (drop q url))"
      using h Some by (simp add: getSearch_def js_slice_def)
    show ?thesis
    proof (cases "h \<le> q")
      case True
      with g show ?thesis by simp
    next
      case False
      then obtain k where "h - q = Suc k" using Suc_diff_Suc by (metis not_le)
      with g sub r False show ?thesis by simp
    qed
  qed
qed (simp add: getSearch_def Let_def del: index_of_None)

lemma view_again:
  assumes "starts_with ''/'' (getPath u)"
  shows "getPath (getPath u @ getSearch u) = getPath u" and "getSearch (getPath u @ getSearch u) = getSearch u"
proof -
  let ?p = "getPath u" and ?s = "getSearch u"
  have p: "\<forall>c \<in> set ?p. \<not> path_stop c" by (rule path_no_stop)
  have start: "getPathStart (?p @ ?s) = 0" using assms by (simp add: getPathStart_def)
  have ne: "?p \<noteq> []" using assms by auto
  have tw: "takeWhile (\<lambda>c. \<not> path_stop c) (?p @ ?s) = ?p"
    using p search_shape [of u] by (elim disjE exE conjE) (simp_all add: path_stop_def)
  show "getPath (?p @ ?s) = ?p" 
    unfolding getPath_def [of "?p @ ?s"] Let_def start slice_scan drop0 tw using ne by simp
  have no: "CHR ''?'' \<notin> set ?p" "CHR ''#'' \<notin> set ?p" using p by (auto simp: path_stop_def)
  have idx: "index_of c (?p @ ?s) = map_option (\<lambda>k. length ?p + k) (index_of c ?s)" if "c \<in> {CHR ''?'', CHR ''#''}" for c
    using that no by (auto intro: index_of_append)
  from search_shape [of u] show "getSearch (?p @ ?s) = ?s"
  proof (elim disjE exE conjE)
    assume s: "?s = []"
    have "index_of CHR ''?'' ?p = None" using no by (simp only: index_of_None simp_thms)
    with s show ?thesis by (simp add: getSearch_def [of "?p"] del: index_of_None)
  next
    fix t assume s: "?s = CHR ''?'' # t" "CHR ''#'' \<notin> set t"
    then have "index_of CHR ''#'' ?s = None" "index_of CHR ''?'' ?s = Some 0" by (simp_all add: index_of_def)
    then have "index_of CHR ''#'' (?p @ ?s) = None" "index_of CHR ''?'' (?p @ ?s) = Some (length ?p)"
      using idx [of "CHR ''#''"] idx [of "CHR ''?''"] by (simp_all del: index_of_None)
    then show ?thesis unfolding getSearch_def [of "?p @ ?s"] by (simp add: js_slice_def Let_def del: index_of_None)
  qed
qed

datatype view_read = ReadUrl | ReadPath | ReadQuerystring | ReadSearch | ReadHost | ReadOrigin | ReadHref | ReadIp

fun read_view :: "view_read \<Rightarrow> request_view \<Rightarrow> string \<times> request_view" where
  "read_view ReadUrl v = get_url v"
| "read_view ReadPath v = get_path v"
| "read_view ReadQuerystring v = get_querystring v"
| "read_view ReadSearch v = get_search v"
| "read_view ReadHost v = get_host v"
| "read_view ReadOrigin v = get_origin v"
| "read_view ReadHref v = get_href v"
| "read_view ReadIp v = get_ip v"

fun read_views :: "view_read list \<Rightarrow> request_view \<Rightarrow> string list \<times> request_view" where
  "read_views [] v = ([], v)"
| "read_views (r # rs) v = (let (x, v1) = read_view r v; (xs, v2) = read_views rs v1 in (x # xs, v2))"

text \<open>What each view is, as a function of the request alone.\<close>

fun view_value :: "request_settings \<Rightarrow> req_source \<Rightarrow> view_read \<Rightarrow> string" where
  "view_value st src ReadUrl = getPath (src_url src) @ getSearch (src_url src)"
| "view_value st src ReadPath = getPath (src_url src)"
| "view_value st src ReadQuerystring = drop 1 (getSearch (src_url src))"
| "view_value st src ReadSearch = (if length (getSearch (src_url src)) \<le> 1 then [] else getSearch (src_url src))"
| "view_value st src ReadHost = computeHost st src"
| "view_value st src ReadOrigin = get_protocol (fresh_view st src) @ ''://'' @ computeHost st src"
| "view_value st src ReadHref =
     (if computeHost st src = [] then getPath (src_url src) @ getSearch (src_url src)
      else get_protocol (fresh_view st src) @ ''://'' @ computeHost st src @ getPath (src_url src) @ getSearch (src_url src))"
| "view_value st src ReadIp = fst (get_ip (fresh_view st src))"

definition view_ok :: "request_settings \<Rightarrow> req_source \<Rightarrow> request_view \<Rightarrow> bool" where
  "view_ok st src v \<longleftrightarrow> rv_source v = src \<and> rv_settings v = st
     \<and> urlValue v \<in> {None, Some (view_value st src ReadUrl)} \<and> pathValue v \<in> {None, Some (view_value st src ReadPath)}
     \<and> querystringValue v \<in> {None, Some (view_value st src ReadQuerystring)}
     \<and> hostValue v \<in> {None, Some (view_value st src ReadHost)}
     \<and> ipValue v \<in> {None, Some (resolve_remote (src_remote src))}"

lemma get_url_ok: "view_ok st src v \<Longrightarrow> fst (get_url v) = view_value st src ReadUrl \<and> view_ok st src (snd (get_url v))"
  by (cases "urlValue v") (simp_all add: get_url_def view_ok_def Let_def)

lemma get_path_ok:
  assumes "plain_target (src_url src)" and "view_ok st src v"
  shows "fst (get_path v) = view_value st src ReadPath \<and> view_ok st src (snd (get_path v))"
proof -
  obtain u v' where g: "get_url v = (u, v')" by fastforce
  with get_url_ok [OF assms(2)] have u: "u = getPath (src_url src) @ getSearch (src_url src)" "view_ok st src v'" by auto
  have "getPath u = getPath (src_url src)" using view_again(1) assms(1) u(1) by (simp add: plain_target_def)
  then show ?thesis using assms(2) u(2) g by (cases "pathValue v") (simp_all add: get_path_def view_ok_def Let_def)
qed

lemma get_querystring_ok:
  assumes "plain_target (src_url src)" and "view_ok st src v"
  shows "fst (get_querystring v) = view_value st src ReadQuerystring \<and> view_ok st src (snd (get_querystring v))"
proof -
  have "slice_query (case urlValue v of Some u \<Rightarrow> u | None \<Rightarrow> src_url (rv_source v)) = drop 1 (getSearch (src_url src))"
    using assms view_again(2) by (cases "urlValue v") (simp_all add: slice_query_search view_ok_def plain_target_def)
  then show ?thesis using assms(2) by (cases "querystringValue v") (simp_all add: get_querystring_def view_ok_def Let_def)
qed

lemma get_host_ok: "view_ok st src v \<Longrightarrow> fst (get_host v) = view_value st src ReadHost \<and> view_ok st src (snd (get_host v))"
  by (cases "hostValue v") (simp_all add: get_host_def view_ok_def Let_def)

lemma get_ip_ok:
  assumes "view_ok st src v"
  shows "fst (get_ip v) = view_value st src ReadIp \<and> view_ok st src (snd (get_ip v))"
  using assms by (cases "forwarded_first st src"; cases "ipValue v") (simp_all add: get_ip_def view_ok_def fresh_view_def Let_def)

lemma protocol_ok: "view_ok st src v \<Longrightarrow> get_protocol v = get_protocol (fresh_view st src)"
  by (simp add: get_protocol_def view_ok_def fresh_view_def)

lemma read_view_ok:
  assumes target: "plain_target (src_url src)" and v: "view_ok st src v"
  shows "fst (read_view r v) = view_value st src r \<and> view_ok st src (snd (read_view r v))"
proof (cases r)
  case ReadSearch
  have "length (getSearch (src_url src)) = 0 \<or> hd (getSearch (src_url src)) = CHR ''?''" using search_shape [of "src_url src"] by auto
  with get_querystring_ok [OF assms] ReadSearch show ?thesis
    by (cases "getSearch (src_url src)") (auto simp: get_search_def split: prod.split)
next
  case ReadOrigin
  with get_host_ok [OF v] protocol_ok [OF v] show ?thesis by (auto simp: get_origin_def split: prod.split)
next
  case ReadHref
  obtain u v1 where u: "get_url v = (u, v1)" by fastforce
  obtain h v2 where h: "get_host v1 = (h, v2)" by fastforce
  have "view_ok st src v1" "u = view_value st src ReadUrl" using get_url_ok [OF v] u by simp_all
  then show ?thesis using get_host_ok [of st src v1] h u protocol_ok [OF v] ReadHref by (simp add: get_href_def)
qed (use get_url_ok get_path_ok get_querystring_ok get_host_ok get_ip_ok assms in simp_all)

lemma fresh_ok: "view_ok st src (fresh_view st src)"
  by (simp add: view_ok_def fresh_view_def)

text \<open>The view dispatch primes: path and url from the one-pass split.\<close>

definition primed_view :: "request_settings \<Rightarrow> req_source \<Rightarrow> request_view" where
  "primed_view st src = (let (path, url) = primeRequestUrl (src_url src) in
     (fresh_view st src)\<lparr>pathValue := Some path, urlValue := Some url\<rparr>)"

text \<open>The memos never show: any sequence of reads of the request, from a fresh context or from one the
  dispatcher has primed, in any order and repeated, returns for each read the value that the request
  itself determines.\<close>

lemma reads_are_stable:
  assumes "plain_target (src_url src)" and "v \<in> {fresh_view st src, primed_view st src}"
  shows "fst (read_views rs v) = map (view_value st src) rs"
proof -
  have "primeRequestUrl (src_url src) = (getPath (src_url src), getPath (src_url src) @ getSearch (src_url src))"
    using assms(1) by (intro prime_views) (simp add: plain_target_def)
  then have "view_ok st src (primed_view st src)" by (simp add: primed_view_def view_ok_def fresh_view_def)
  with assms(2) fresh_ok have "view_ok st src v" by blast
  then show ?thesis
  proof (induction rs arbitrary: v)
    case (Cons r rs)
    obtain x v1 where x: "read_view r v = (x, v1)" by fastforce
    with read_view_ok [OF assms(1) Cons.prems, of r] have "x = view_value st src r" "view_ok st src v1" by simp_all
    moreover obtain xs v2 where "read_views rs v1 = (xs, v2)" by fastforce
    ultimately show ?case using Cons.IH [of v1] x by simp
  qed simp
qed

lemma reads_are_stable_witness:
  "fst (read_views [ReadQuerystring, ReadUrl, ReadQuerystring, ReadPath] (primed_view demo_settings (demo_source []))) = [''b=1'', ''/a?b=1'', ''b=1'', ''/a'']"
proof -
  have u: "src_url (demo_source []) = ''/a?b=1#c''" by (simp add: demo_source_def)
  have t: "plain_target ''/a?b=1#c''" "getPath ''/a?b=1#c'' = ''/a''" "getSearch ''/a?b=1#c'' = ''?b=1''" by code_simp+
  have "map (view_value demo_settings (demo_source [])) [ReadQuerystring, ReadUrl, ReadQuerystring, ReadPath] = [''b=1'', ''/a?b=1'', ''b=1'', ''/a'']"
    by (simp add: u t)
  moreover have "fst (read_views [ReadQuerystring, ReadUrl, ReadQuerystring, ReadPath] (primed_view demo_settings (demo_source [])))
      = map (view_value demo_settings (demo_source [])) [ReadQuerystring, ReadUrl, ReadQuerystring, ReadPath]"
    by (rule reads_are_stable) (simp_all only: u t insertI1 insertI2)
  ultimately show ?thesis by (simp only:)
qed

end
