(* ===== verification/TrustedHosts.thy ===== *)
theory TrustedHosts
  imports RequestView
begin

text \<open>
  The host whitelist, src/core/trusted-hosts.ts. The runtime's URL parser is the parameter \<open>url_hostname\<close>: the
  host name of \<open>new URL(text)\<close>, None when the constructor throws.
\<close>

definition has_space :: "string \<Rightarrow> bool" where
  "has_space s \<longleftrightarrow> list_ex (\<lambda>w. index_of_str w s 0 \<noteq> None) js_ws"

text \<open>The characters \<open>/[\s/@\\%?#]/\<close> refuses.\<close>

definition host_refused_text :: "string \<Rightarrow> bool" where
  "host_refused_text s \<longleftrightarrow> has_space s \<or> list_ex (\<lambda>c. c \<in> {CHR ''/'', CHR ''@'', CHR 0x5C, CHR ''%'', CHR ''?'', CHR ''#''}) s"

definition stripHostPort :: "(string \<Rightarrow> string option) \<Rightarrow> string \<Rightarrow> string option" where
  "stripHostPort url_hostname host =
     (if length host = 0 \<or> ends_with '':'' host \<or> host_refused_text host then None
      else case url_hostname (''http://'' @ host) of
        None \<Rightarrow> None
      | Some name \<Rightarrow>
          (if length name = 0 then None
           else if starts_with ''['' host
             then Some (take (case index_of CHR '']'' host of None \<Rightarrow> 0 | Some e \<Rightarrow> e + 1) host)
           else (case index_of CHR '':'' host of None \<Rightarrow> Some host | Some e \<Rightarrow> Some (take e host))))"

definition urlAuthority :: "string \<Rightarrow> string" where
  "urlAuthority url = url_authority_part url"

definition matchesEntry :: "string \<Rightarrow> string \<Rightarrow> bool" where
  "matchesEntry entry authority =
     (if starts_with ''*.'' entry then
        ends_with (drop 1 entry) authority \<and> length authority > length entry - 1
        \<and> CHR ''.'' \<notin> set (take (length authority - (length entry - 1)) authority)
      else entry = authority)"

text \<open>The compiled predicate; None admits everything.\<close>

definition trusted_request :: "(string \<Rightarrow> string option) \<Rightarrow> string list \<Rightarrow> req_source \<Rightarrow> bool" where
  "trusted_request url_hostname entries src =
     (case stripHostPort url_hostname (to_lower (case src_header src ''host'' of Some h \<Rightarrow> h | None \<Rightarrow> urlAuthority (src_url src))) of
        None \<Rightarrow> False
      | Some authority \<Rightarrow>
          (case src_header src ''x-forwarded-host'' of
             None \<Rightarrow> list_ex (\<lambda>entry. matchesEntry entry authority) entries
           | Some forwarded \<Rightarrow>
               if forwarded = [] then list_ex (\<lambda>entry. matchesEntry entry authority) entries
               else (case stripHostPort url_hostname (to_lower (first_entry forwarded)) of
                   None \<Rightarrow> False
                 | Some first \<Rightarrow> list_ex (\<lambda>entry. matchesEntry entry first) entries
                     \<and> list_ex (\<lambda>entry. matchesEntry entry authority) entries)))"

definition compileTrustedHosts :: "(string \<Rightarrow> string option) \<Rightarrow> string list option \<Rightarrow> (req_source \<Rightarrow> bool) option" where
  "compileTrustedHosts url_hostname trustedHosts =
     (case trustedHosts of None \<Rightarrow> None
      | Some hosts \<Rightarrow> if length hosts = 0 then None else Some (trusted_request url_hostname (map to_lower hosts)))"

section \<open>What an entry admits\<close>

lemma matchesEntry_wildcard:
  "matchesEntry (''*.'' @ sfx) authority \<longleftrightarrow> (\<exists>label. label \<noteq> [] \<and> CHR ''.'' \<notin> set label \<and> authority = label @ ''.'' @ sfx)"
proof
  assume m: "matchesEntry (''*.'' @ sfx) authority"
  then obtain label where l: "authority = label @ CHR ''.'' # sfx" by (auto simp: matchesEntry_def suffix_def)
  with m have "label \<noteq> []" "CHR ''.'' \<notin> set label" by (auto simp: matchesEntry_def)
  with l show "\<exists>label. label \<noteq> [] \<and> CHR ''.'' \<notin> set label \<and> authority = label @ ''.'' @ sfx" by auto
next
  assume "\<exists>label. label \<noteq> [] \<and> CHR ''.'' \<notin> set label \<and> authority = label @ ''.'' @ sfx"
  then show "matchesEntry (''*.'' @ sfx) authority" by (auto simp: matchesEntry_def suffix_def)
qed

lemma matchesEntry_exact: "\<not> starts_with ''*.'' entry \<Longrightarrow> matchesEntry entry authority \<longleftrightarrow> entry = authority"
  by (simp add: matchesEntry_def)

section \<open>The host the application reads is a trusted one\<close>

lemma last_index_None: "last_index_of c s = None \<longleftrightarrow> c \<notin> set s"
  by (simp add: last_index_of_def)

lemma lower_at: "CHR ''@'' \<in> set s \<Longrightarrow> CHR ''@'' \<in> set (to_lower s)"
  by (force simp: to_lower_def char_lower_def)

text \<open>Text the whitelist accepts has no user part to strip.\<close>

lemma stripped_host: "stripHostPort uh (to_lower h) = Some a \<Longrightarrow> stripUserinfo h = h \<and> h \<noteq> []"
proof -
  assume s: "stripHostPort uh (to_lower h) = Some a"
  then have "\<not> host_refused_text (to_lower h)" "h \<noteq> []" by (auto simp: stripHostPort_def split: if_splits)
  then have "CHR ''@'' \<notin> set h" using lower_at by (auto simp: host_refused_text_def list_ex_iff)
  then have "last_index_of CHR ''@'' h = None" by (simp only: last_index_None simp_thms)
  with \<open>h \<noteq> []\<close> show ?thesis by (simp add: stripUserinfo_def)
qed

lemma userinfo_Nil [simp]: "stripUserinfo [] = []"
  by (simp add: stripUserinfo_def split: option.split)

lemma header_reads:
  "get_header src ''host'' = (case src_header src ''host'' of Some v \<Rightarrow> v | None \<Rightarrow> [])"
  "get_header src ''x-forwarded-host'' = (case src_header src ''x-forwarded-host'' of Some v \<Rightarrow> v | None \<Rightarrow> [])"
proof -
  have "to_lower ''host'' = ''host''" "to_lower ''x-forwarded-host'' = ''x-forwarded-host''" by code_simp+
  then show "get_header src ''host'' = (case src_header src ''host'' of Some v \<Rightarrow> v | None \<Rightarrow> [])"
    "get_header src ''x-forwarded-host'' = (case src_header src ''x-forwarded-host'' of Some v \<Rightarrow> v | None \<Rightarrow> [])"
    by (simp_all add: get_header_def del: to_lower_simps)
qed

lemma first_entry_Nil: "first_entry [] = []"
  by (simp add: first_entry_def js_trim_def trim_start.simps trim_end.simps js_ws_def)

text \<open>C16: the host an application reads (and builds its origin, absolute URLs and redirects from) is one the
  whitelist admits, whether it trusts the proxy's headers or not: no Host or X-Forwarded-Host a client sends
  gets past the check with a different name than the one checked.\<close>

theorem admitted_host_is_trusted:
  assumes "compileTrustedHosts url_hostname (Some hosts) = Some admits" and "admits src"
    and "src_header src ''host'' = None \<longrightarrow> src_url src = src_absolute src"
  shows "\<exists>name. stripHostPort url_hostname (to_lower (computeHost st src)) = Some name
    \<and> (\<exists>h \<in> set hosts. matchesEntry (to_lower h) name)"
proof -
  let ?entries = "map to_lower hosts"
  let ?ok = "\<lambda>h. \<exists>name. stripHostPort url_hostname (to_lower h) = Some name \<and> list_ex (\<lambda>entry. matchesEntry entry name) ?entries"
  let ?direct = "case src_header src ''host'' of Some h \<Rightarrow> h | None \<Rightarrow> urlAuthority (src_url src)"
  have t: "trusted_request url_hostname ?entries src"
    using assms(1,2) by (auto simp: compileTrustedHosts_def split: if_splits)
  have direct: "?ok ?direct" using t by (auto simp: trusted_request_def split: option.splits if_splits)
  have fwd: "?ok (first_entry f)" if "src_header src ''x-forwarded-host'' = Some f" "f \<noteq> []" for f
    using t that by (auto simp: trusted_request_def split: option.splits if_splits)
  have base: "stripUserinfo (get_header src ''host'') = (case src_header src ''host'' of Some h \<Rightarrow> h | None \<Rightarrow> [])"
    using direct stripped_host by (cases "src_header src ''host''") (auto simp: header_reads(1))
  have plain: "?ok (if 0 < length (stripUserinfo (get_header src ''host'')) then stripUserinfo (get_header src ''host'') else authorityOf (src_absolute src))"
  proof (cases "src_header src ''host''")
    case None
    then have "urlAuthority (src_url src) = url_authority_part (src_absolute src)" using assms(3) by (simp add: urlAuthority_def)
    with direct None base stripped_host show ?thesis by (auto simp: authorityOf_def)
  next
    case (Some h)
    with direct base stripped_host show ?thesis by auto
  qed
  have "?ok (computeHost st src)"
  proof (cases "proxy st \<and> (\<exists>f. src_header src ''x-forwarded-host'' = Some f \<and> f \<noteq> [])")
    case True
    then obtain f where f: "src_header src ''x-forwarded-host'' = Some f" "f \<noteq> []" by blast
    with fwd stripped_host have "stripUserinfo (first_entry f) = first_entry f" "first_entry f \<noteq> []" by blast+
    with True f fwd [OF f] show ?thesis by (simp add: computeHost_def header_reads(2))
  next
    case False
    then have "(if proxy st then stripUserinfo (first_entry (get_header src ''x-forwarded-host'')) else []) = []"
      by (cases "src_header src ''x-forwarded-host''") (auto simp: header_reads(2) first_entry_Nil)
    with plain show ?thesis unfolding computeHost_def Let_def by simp
  qed
  then show ?thesis by (auto simp: list_ex_iff)
qed

lemma admitted_host_is_trusted_witness:
  "\<exists>name. stripHostPort Some (to_lower (computeHost demo_settings ((demo_source [])\<lparr>src_header := map_of
      [(''host'', ''Shop.example.com:8443''), (''x-forwarded-host'', ''A.example.com, evil.test'')]\<rparr>))) = Some name
    \<and> (\<exists>h \<in> set [''*.Example.com'']. matchesEntry (to_lower h) name)"
proof -
  let ?src = "(demo_source [])\<lparr>src_header := map_of [(''host'', ''Shop.example.com:8443''), (''x-forwarded-host'', ''A.example.com, evil.test'')]\<rparr>"
  have c: "compileTrustedHosts Some (Some [''*.Example.com'']) = Some (trusted_request Some (map to_lower [''*.Example.com'']))"
    by (simp add: compileTrustedHosts_def)
  have s: "src_header ?src ''host'' = Some ''Shop.example.com:8443''" "src_header ?src ''x-forwarded-host'' = Some ''A.example.com, evil.test''"
    by simp_all
  have h: "stripHostPort Some (to_lower ''Shop.example.com:8443'') = Some ''shop.example.com''"
    "stripHostPort Some (to_lower (first_entry ''A.example.com, evil.test'')) = Some ''a.example.com''"
    "matchesEntry (to_lower ''*.Example.com'') ''shop.example.com''" "matchesEntry (to_lower ''*.Example.com'') ''a.example.com''"
    by code_simp+
  have t: "trusted_request Some (map to_lower [''*.Example.com'']) ?src"
    unfolding trusted_request_def s option.case h using h(3,4) by (simp del: to_lower_simps)
  show ?thesis by (rule admitted_host_is_trusted [OF c t]) (simp add: s)
qed

end
