(* ===== verification/PathSafety.thy ===== *)
theory PathSafety
  imports Strings
begin

text \<open>
  The path-safety primitives behind the static file server, src/utils/path-safety.ts: raw segmentation,
  root containment and the symbolic-link audit. The file system is the parameter \<open>lstat\<close> of the audit: what
  the call says of a path at that time, None when it throws. The asynchronous audit and its synchronous twin
  do the same walk and share one definition.
\<close>

section \<open>Segments of a request path\<close>

definition BACKSLASH :: char where "BACKSLASH = CHR 0x5C"

text \<open>The loop over the raw parts; None is the refusal.\<close>

fun resolve_parts :: "bool \<Rightarrow> string list \<Rightarrow> string list option" where
  "resolve_parts windowsSeparators [] = Some []"
| "resolve_parts windowsSeparators (part # parts) =
     (if length part = 0 then None
      else (let decoded = decodeSegment part in
        if CHR ''/'' \<in> set decoded \<or> (windowsSeparators \<and> BACKSLASH \<in> set decoded) then None
        else if decoded = ''.'' \<or> decoded = ''..'' then None
        else map_option (Cons decoded) (resolve_parts windowsSeparators parts)))"

definition raw_parts :: "string \<Rightarrow> string list" where
  "raw_parts rawPath =
     (let parts = tl (js_split CHR ''/'' rawPath) in
      if length parts = 1 \<and> hd parts = [] then []
      else if 0 < length parts \<and> last parts = [] then butlast parts else parts)"

definition resolveRelativeSegments :: "string \<Rightarrow> bool \<Rightarrow> string list option" where
  "resolveRelativeSegments rawPath windowsSeparators = resolve_parts windowsSeparators (raw_parts rawPath)"

definition isWithinRoot :: "string \<Rightarrow> string \<Rightarrow> string \<Rightarrow> bool" where
  "isWithinRoot absolute root sep \<longleftrightarrow> absolute = root \<or> starts_with (root @ sep) absolute"

section \<open>The symbolic-link audit\<close>

text \<open>\<open>split(/[\\/]/)\<close> on a host with backslash separators, \<open>split("/")\<close> elsewhere.\<close>

definition audit_parts :: "string \<Rightarrow> string \<Rightarrow> string list" where
  "audit_parts sep s = (if sep = [BACKSLASH] then js_split CHR ''/'' (map (\<lambda>c. if c = BACKSLASH then CHR ''/'' else c) s)
     else js_split CHR ''/'' s)"

fun audit_walk :: "(string \<Rightarrow> bool option) \<Rightarrow> string \<Rightarrow> string \<Rightarrow> string list \<Rightarrow> string option" where
  "audit_walk lstat sep walked [] = None"
| "audit_walk lstat sep walked (part # parts) =
     (let walked = walked @ sep @ part in
      if lstat walked = Some True then Some walked else audit_walk lstat sep walked parts)"

definition findSymlink :: "(string \<Rightarrow> bool option) \<Rightarrow> string \<Rightarrow> string \<Rightarrow> string \<Rightarrow> string option" where
  "findSymlink lstat sep root filePath = audit_walk lstat sep root (audit_parts sep (drop (length root + 1) filePath))"

section \<open>Resolved segments are plain names\<close>

text \<open>A name a directory can hold and that addresses nothing but itself.\<close>

definition safe_name :: "bool \<Rightarrow> string \<Rightarrow> bool" where
  "safe_name win s \<longleftrightarrow> s \<noteq> [] \<and> CHR ''/'' \<notin> set s \<and> (win \<longrightarrow> BACKSLASH \<notin> set s) \<and> s \<noteq> ''.'' \<and> s \<noteq> ''..''"

lemma resolve_parts_iff:
  "resolve_parts win parts = Some segs \<longleftrightarrow> segs = map decodeSegment parts \<and> list_all (safe_name win) segs"
proof (induction parts arbitrary: segs)
  case (Cons part parts)
  have e: "resolve_parts win (part # parts) =
    (if safe_name win (decodeSegment part) then map_option (Cons (decodeSegment part)) (resolve_parts win parts) else None)"
    by (cases "part = []") (simp_all add: safe_name_def Let_def)
  show ?case
  proof (cases "safe_name win (decodeSegment part)")
    case True
    have "resolve_parts win (part # parts) = Some segs \<longleftrightarrow> (\<exists>z. resolve_parts win parts = Some z \<and> segs = decodeSegment part # z)"
      unfolding e using True by (simp add: map_option_eq_Some) blast
    also have "\<dots> \<longleftrightarrow> segs = decodeSegment part # map decodeSegment parts \<and> list_all (safe_name win) (map decodeSegment parts)"
      unfolding Cons.IH by blast
    also have "\<dots> \<longleftrightarrow> segs = map decodeSegment (part # parts) \<and> list_all (safe_name win) segs"
      using True by (metis list.simps(9) list.pred_inject(2))
    finally show ?thesis .
  next
    case False
    then have "\<not> list_all (safe_name win) (map decodeSegment (part # parts))" by simp
    with False show ?thesis unfolding e by (metis option.distinct(1))
  qed
qed auto

text \<open>The path below the root that a list of names stands for.\<close>

definition file_path :: "string \<Rightarrow> string list \<Rightarrow> string" where
  "file_path root segs = root @ concat (map (\<lambda>s. CHR ''/'' # s) segs)"

lemma file_path_Nil [simp]: "file_path root [] = root"
  by (simp add: file_path_def)

lemma file_path_join: "segs \<noteq> [] \<Longrightarrow> file_path root segs = root @ ''/'' @ js_join ''/'' segs"
proof (induction segs)
  case (Cons s segs)
  then show ?case by (cases "segs = []") (simp_all add: file_path_def js_join_Cons)
qed simp

lemma file_path_within: "isWithinRoot (file_path root segs) root ''/''"
  by (cases "segs = []") (simp_all add: isWithinRoot_def file_path_join)

text \<open>The kernel's reading of a path: the names between the separators, a dot staying and two dots going up.\<close>

fun walk :: "string list \<Rightarrow> string list \<Rightarrow> string list" where
  "walk dir [] = dir"
| "walk dir (n # ns) = (if n = [] \<or> n = ''.'' then walk dir ns else if n = ''..'' then walk (butlast dir) ns else walk (dir @ [n]) ns)"

lemma walk_safe: "list_all (safe_name win) ns \<Longrightarrow> walk dir ns = dir @ ns"
  by (induction ns arbitrary: dir) (auto simp: safe_name_def)



text \<open>Encoded separators and dot segments are refused, also in their encoded form.\<close>

lemma traversal_refused:
  "resolveRelativeSegments ''/a/%2e%2E/b'' False = None"
  "resolveRelativeSegments ''/..%2Fetc'' False = None" "resolveRelativeSegments ''/a//b'' False = None"
  "resolveRelativeSegments ''/..%5Cetc'' True = None"
  by code_simp+

text \<open>Nothing safe is refused: the encoded form of safe names is resolved to them.\<close>

lemma resolve_encoded:
  assumes "list_all (safe_name win) segs" and "list_all valid_utf8 segs" and "segs \<noteq> []"
  shows "resolveRelativeSegments (file_path [] (map encodeURIComponent segs)) win = Some segs"
proof -
  let ?e = "map encodeURIComponent segs"
  have "\<forall>p \<in> set ?e. CHR ''/'' \<notin> set p" by (simp add: encode_no_slash)
  with js_split_join [of ?e] assms(3) have sp: "js_split CHR ''/'' (file_path [] ?e) = [] # ?e"
    by (simp add: file_path_join)
  have ne: "\<forall>p \<in> set ?e. p \<noteq> []" using assms(1) codec.enc_empty by (auto simp: list_all_iff safe_name_def)
  have "?e \<noteq> []" using assms(3) by simp
  then have "last ?e \<in> set ?e" "hd ?e \<in> set ?e" by (rule last_in_set, rule list.set_sel(1))
  with ne have "raw_parts (file_path [] ?e) = ?e" by (auto simp: raw_parts_def sp Let_def)
  moreover have "map decodeSegment ?e = segs" using assms(2) by (simp add: list_all_iff map_idI decodeSegment_encode)
  ultimately show ?thesis using assms(1) by (simp add: resolveRelativeSegments_def resolve_parts_iff)
qed

section \<open>The audit sees every component\<close>

lemma audit_walk_iff:
  "audit_walk lstat ''/'' walked parts = None \<longleftrightarrow>
     (\<forall>k < length parts. lstat (file_path walked (take (Suc k) parts)) \<noteq> Some True)"
proof (induction parts arbitrary: walked)
  case (Cons part parts)
  have e: "file_path (walked @ CHR ''/'' # part) ps = file_path walked (part # ps)" for ps by (simp add: file_path_def)
  have "(\<forall>k < length (part # parts). lstat (file_path walked (take (Suc k) (part # parts))) \<noteq> Some True) \<longleftrightarrow>
    lstat (file_path walked [part]) \<noteq> Some True
      \<and> (\<forall>k < length parts. lstat (file_path walked (part # take (Suc k) parts)) \<noteq> Some True)"
    by (simp only: All_less_Suc2 list.size(4) add_Suc_right add_0_right take_Suc_Cons take0)
  also have "\<dots> \<longleftrightarrow> audit_walk lstat ''/'' walked (part # parts) = None"
    using Cons.IH [of "walked @ CHR ''/'' # part"] by (simp add: e Let_def) (simp add: file_path_def)
  finally show ?case by simp
qed simp

text \<open>The audit of a resolved file passes exactly when no component below the root, the file included, is a
  symbolic link; the root itself is not looked at.\<close>

lemma symlink_audit_complete:
  assumes "list_all (safe_name win) segs" and "segs \<noteq> []"
  shows "findSymlink lstat ''/'' root (file_path root segs) = None \<longleftrightarrow>
    (\<forall>k < length segs. lstat (file_path root (take (Suc k) segs)) \<noteq> Some True)"
proof -
  have "\<forall>n \<in> set segs. CHR ''/'' \<notin> set n" using assms(1) by (auto simp: list_all_iff safe_name_def)
  with js_split_join assms(2) have "audit_parts ''/'' (drop (length root + 1) (file_path root segs)) = segs"
    by (simp add: audit_parts_def file_path_join BACKSLASH_def)
  then show ?thesis by (simp add: findSymlink_def audit_walk_iff)
qed

lemma symlink_audit_complete_witness:
  "findSymlink (\<lambda>p. if p = ''/w/a'' then Some True else Some False) ''/'' ''/w'' (file_path ''/w'' [''a'', ''b'']) \<noteq> None
    \<and> findSymlink (\<lambda>p. if p = ''/w'' then Some True else None) ''/'' ''/w'' (file_path ''/w'' [''a'', ''b'']) = None"
proof -
  have s: "list_all (safe_name False) [''a'', ''b'']" by (simp add: safe_name_def)
  have f: "file_path ''/w'' (take (Suc 0) [''a'', ''b'']) = ''/w/a''" "file_path ''/w'' (take (Suc (Suc 0)) [''a'', ''b'']) = ''/w/a/b''"
    by (simp_all add: file_path_def)
  show ?thesis unfolding symlink_audit_complete [OF s list.simps(3)] by (simp add: All_less_Suc2 f del: take_Suc_Cons) (simp add: file_path_def)
qed

end
