(* ===== verification/Conditional.thy ===== *)
theory Conditional
  imports Strings
begin

text \<open>
  Conditional requests, src/http/conditional.ts: the weak entity tag of a file, the If-None-Match list and the
  freshness judgment. \<open>Date.parse\<close> is the parameter \<open>date_parse\<close>: milliseconds, or None for an unreadable date
  (NaN, with which every comparison is false). Sizes and modification times are natural numbers.
\<close>

definition DQUOTE :: char where "DQUOTE = CHR 0x22"

definition weakEtag :: "nat \<Rightarrow> nat \<Rightarrow> string" where
  "weakEtag sz mtimeMs = ''W/'' @ [DQUOTE] @ show_hex sz @ ''-'' @ show_hex mtimeMs @ [DQUOTE]"

definition bare_tag :: "string \<Rightarrow> string" where
  "bare_tag tag = (if starts_with ''W/'' tag then drop 2 tag else tag)"

fun tags_match :: "string \<Rightarrow> string list \<Rightarrow> bool" where
  "tags_match bare [] = False"
| "tags_match bare (candidate # rest) =
     (let v = js_trim candidate in
      if v = ''*'' then True else if bare_tag v = bare then True else tags_match bare rest)"

definition etagMatches :: "string \<Rightarrow> string \<Rightarrow> bool" where
  "etagMatches etag header = tags_match (bare_tag etag) (js_split CHR '','' header)"

record freshness_input =
  fi_etag :: string
  fi_mtimeMs :: nat
  fi_ifNoneMatch :: string
  fi_ifModifiedSince :: string

definition isNotModified :: "(string \<Rightarrow> int option) \<Rightarrow> freshness_input \<Rightarrow> bool" where
  "isNotModified date_parse inp =
     (if 0 < length (fi_ifNoneMatch inp) then etagMatches (fi_etag inp) (fi_ifNoneMatch inp)
      else if 0 < length (fi_ifModifiedSince inp)
      then (case date_parse (fi_ifModifiedSince inp) of None \<Rightarrow> False | Some t \<Rightarrow> t \<ge> int (fi_mtimeMs inp) - 999)
      else False)"

section \<open>Entity tags identify the file\<close>

lemma show_hex_inj: "show_hex m = show_hex n \<Longrightarrow> m = n"
  by (metis hex_value_show)

lemma show_hex_free: "CHR ''-'' \<notin> set (show_hex n)" "DQUOTE \<notin> set (show_hex n)" "CHR '','' \<notin> set (show_hex n)"
  by (rule show_hex_no, simp add: is_hex_def hex_val_def DQUOTE_def)+

lemma bare_weak: "bare_tag (weakEtag s m) = [DQUOTE] @ show_hex s @ ''-'' @ show_hex m @ [DQUOTE]"
  by (simp add: bare_tag_def weakEtag_def)

lemma weakEtag_inj: "bare_tag (weakEtag s m) = bare_tag (weakEtag s' m') \<longleftrightarrow> s = s' \<and> m = m'"
proof
  assume "bare_tag (weakEtag s m) = bare_tag (weakEtag s' m')"
  then have "show_hex s @ CHR ''-'' # (show_hex m @ [DQUOTE]) = show_hex s' @ CHR ''-'' # (show_hex m' @ [DQUOTE])"
    unfolding bare_weak by simp
  from append_sep_inj [OF show_hex_free(1) show_hex_free(1) this] show "s = s' \<and> m = m'"
    by (auto dest: show_hex_inj)
qed simp

lemma trim_weak: "js_trim (weakEtag s m) = weakEtag s m"
  by (rule trim_visible) (simp_all add: weakEtag_def visible_def DQUOTE_def)

section \<open>The If-None-Match list\<close>

lemma split_list_header:
  "tags \<noteq> [] \<Longrightarrow> \<forall>t \<in> set tags. CHR '','' \<notin> set t \<Longrightarrow>
    js_split CHR '','' (js_join '', '' tags) = hd tags # map (Cons CHR '' '') (tl tags)"
proof (induction tags)
  case (Cons t tags)
  show ?case
  proof (cases tags)
    case Nil
    with Cons.prems show ?thesis by (simp add: js_split_no_sep)
  next
    case (Cons u us)
    have "js_join '', '' (t # tags) = t @ CHR '','' # (CHR '' '' # js_join '', '' tags)" using Cons by simp
    moreover have "js_split CHR '','' (CHR '' '' # js_join '', '' tags) = (CHR '' '' # hd tags) # map (Cons CHR '' '') (tl tags)"
      using Cons.IH Cons.prems \<open>tags = u # us\<close> by simp
    ultimately show ?thesis using js_split_app [of "CHR '',''" t] Cons.prems(2) \<open>tags = u # us\<close> by simp
  qed
qed simp

lemma tags_match_iff: "tags_match bare cs \<longleftrightarrow> (\<exists>c \<in> set cs. js_trim c = ''*'' \<or> bare_tag (js_trim c) = bare)"
  by (induction cs) (auto simp: Let_def)



text \<open>Without a tag list the date decides, with a tolerance of 999 milliseconds; an unreadable date is stale.\<close>

lemma modified_since_decides:
  "fi_ifNoneMatch inp = [] \<Longrightarrow> isNotModified date_parse inp \<longleftrightarrow>
     fi_ifModifiedSince inp \<noteq> [] \<and> (\<exists>t. date_parse (fi_ifModifiedSince inp) = Some t \<and> int (fi_mtimeMs inp) \<le> t + 999)"
  by (auto simp: isNotModified_def split: option.split)

text \<open>The list is split at every comma, also inside a quoted tag: such a tag never matches itself.\<close>

lemma comma_tag_never_matches:
  "\<not> etagMatches [DQUOTE, CHR ''a'', CHR '','', CHR ''b'', DQUOTE] [DQUOTE, CHR ''a'', CHR '','', CHR ''b'', DQUOTE]"
  by code_simp

end
