(* ===== verification/Negotiation.thy ===== *)
theory Negotiation
  imports Strings Complex_Main "HOL-Library.Product_Lexorder"
begin

text \<open>
  Content negotiation: the MIME tables and content-type parameters (src/utils/mime.ts), the Accept headers with
  their weights and the choice among provided values (src/negotiation/accepts.ts), and \<open>ctx.is\<close>
  (src/negotiation/typeis.ts). Weights are rationals: the rounding of a decimal numeral to a double is the
  parameter \<open>fl\<close>, and \<open>Number.parseFloat\<close> is the reading of the numeral before that rounding. A table of the
  code is read with its \<open>typeof\<close> guard, so a name it lacks is None whatever the prototype holds.
\<close>

section \<open>The MIME tables\<close>

definition TYPE_SHORTHANDS :: "(string \<times> string) list" where
  "TYPE_SHORTHANDS = [
    (''html'', ''text/html''), (''htm'', ''text/html''), (''xml'', ''application/xml''), (''json'', ''application/json''),
    (''text'', ''text/plain''), (''txt'', ''text/plain''), (''csv'', ''text/csv''), (''css'', ''text/css''),
    (''js'', ''text/javascript''), (''png'', ''image/png''), (''jpg'', ''image/jpeg''), (''jpeg'', ''image/jpeg''),
    (''gif'', ''image/gif''), (''svg'', ''image/svg+xml''), (''webp'', ''image/webp''), (''ico'', ''image/x-icon''),
    (''pdf'', ''application/pdf''), (''zip'', ''application/zip''), (''wasm'', ''application/wasm''),
    (''urlencoded'', ''application/x-www-form-urlencoded''), (''multipart'', ''multipart/*''), (''image'', ''image/*''),
    (''audio'', ''audio/*''), (''video'', ''video/*'')]"

definition EXT_TO_MIME :: "(string \<times> string) list" where
  "EXT_TO_MIME = [
    (''html'', ''text/html''), (''htm'', ''text/html''), (''css'', ''text/css''), (''js'', ''text/javascript''),
    (''mjs'', ''text/javascript''), (''json'', ''application/json''), (''txt'', ''text/plain''), (''csv'', ''text/csv''),
    (''xml'', ''application/xml''), (''png'', ''image/png''), (''jpg'', ''image/jpeg''), (''jpeg'', ''image/jpeg''),
    (''gif'', ''image/gif''), (''svg'', ''image/svg+xml''), (''webp'', ''image/webp''), (''ico'', ''image/x-icon''),
    (''pdf'', ''application/pdf''), (''zip'', ''application/zip''), (''gz'', ''application/gzip''), (''mp3'', ''audio/mpeg''),
    (''mp4'', ''video/mp4''), (''wasm'', ''application/wasm'')]"

definition expandShorthand :: "string \<Rightarrow> string" where
  "expandShorthand type' = (case map_of TYPE_SHORTHANDS type' of Some t \<Rightarrow> t | None \<Rightarrow> type')"

definition normalizeType :: "string \<Rightarrow> string" where
  "normalizeType t = to_lower (js_trim (hd (js_split CHR '';'' t)))"

definition mimeFromExtension :: "string \<Rightarrow> string option" where
  "mimeFromExtension filename =
     (case last_index_of CHR ''.'' filename of None \<Rightarrow> None
      | Some dot \<Rightarrow> map_of EXT_TO_MIME (to_lower (drop (dot + 1) filename)))"

text \<open>The parts of a content type between semicolons outside quotes: current part, in quotes, after a backslash.\<close>

fun type_parts :: "string \<Rightarrow> string \<Rightarrow> bool \<Rightarrow> bool \<Rightarrow> string list" where
  "type_parts [] current inQuotes escaped = [current]"
| "type_parts (ch # cs) current inQuotes escaped =
     (if escaped then type_parts cs (current @ [ch]) inQuotes False
      else if ch = CHR 0x5C then type_parts cs (current @ [ch]) inQuotes True
      else (let q = (if ch = CHR 0x22 then \<not> inQuotes else inQuotes) in
        if ch = CHR '';'' \<and> \<not> q then current # type_parts cs [] q False
        else type_parts cs (current @ [ch]) q False))"

definition unquoted :: "string \<Rightarrow> string" where
  "unquoted v = (if 2 \<le> length v \<and> ((starts_with [CHR 0x22] v \<and> ends_with [CHR 0x22] v) \<or> (starts_with [CHR 0x27] v \<and> ends_with [CHR 0x27] v))
     then butlast (tl v) else v)"

definition type_parameter :: "string \<Rightarrow> (string \<times> string) option" where
  "type_parameter part =
     (case index_of CHR ''='' part of None \<Rightarrow> None
      | Some eq \<Rightarrow> (let name = to_lower (js_trim (take eq part)) in
          if length name = 0 then None else Some (name, unquoted (js_trim (drop (eq + 1) part)))))"

definition contentTypeParameters :: "string \<Rightarrow> (string \<times> string) list" where
  "contentTypeParameters t = List.map_filter type_parameter (drop 1 (type_parts t [] False False))"

section \<open>Numbers\<close>

text \<open>\<open>Number.parseFloat\<close>: the longest decimal literal after white space. \<open>fl\<close> is the rounding to a double.\<close>

datatype js_float = NaN | Infinite bool | Num rat

definition exponent_of :: "string \<Rightarrow> int" where
  "exponent_of s =
     (if s \<noteq> [] \<and> (hd s = CHR ''e'' \<or> hd s = CHR ''E'')
      then (let r = tl s; neg = starts_with ''-'' r; u = (if neg \<or> starts_with ''+'' r then tl r else r); ds = takeWhile is_digit u in
            if neg then - int (dec_value ds) else int (dec_value ds))
      else 0)"

definition scale10 :: "nat \<Rightarrow> int \<Rightarrow> rat" where
  "scale10 m e = (if 0 \<le> e then of_nat m * 10 ^ nat e else of_nat m / 10 ^ nat (- e))"

definition parseFloat :: "(rat \<Rightarrow> rat) \<Rightarrow> string \<Rightarrow> js_float" where
  "parseFloat fl s =
     (let t = trim_start s; neg = starts_with ''-'' t; u = (if neg \<or> starts_with ''+'' t then tl t else t) in
      if starts_with ''Infinity'' u then Infinite neg
      else (let ip = takeWhile is_digit u; r = drop (length ip) u;
                fp = (if starts_with ''.'' r then takeWhile is_digit (tl r) else []);
                r2 = (if starts_with ''.'' r then drop (Suc (length fp)) r else r) in
            if ip = [] \<and> fp = [] then NaN
            else (let v = scale10 (dec_value (ip @ fp)) (exponent_of r2 - int (length fp)) in
                  Num (fl (if neg then - v else v)))))"

text \<open>\<open>Math.min(Math.max(x, 0), 1)\<close>.\<close>

definition clamp_q :: "js_float \<Rightarrow> rat option" where
  "clamp_q x = (case x of NaN \<Rightarrow> None | Infinite neg \<Rightarrow> Some (if neg then 0 else 1) | Num r \<Rightarrow> Some (min (max r 0) 1))"

section \<open>Preference headers\<close>

record preference =
  pf_value :: string
  pf_q :: rat
  pf_order :: nat
  pf_params :: "string list option"

fun split_quoted :: "string \<Rightarrow> string \<Rightarrow> bool \<Rightarrow> string list" where
  "split_quoted [] current quoted = [current]"
| "split_quoted (ch # cs) current quoted =
     (let q = (if ch = CHR 0x22 then \<not> quoted else quoted) in
      if ch = CHR '','' \<and> \<not> q then current # split_quoted cs [] q else split_quoted cs (current @ [ch]) q)"

definition splitHeader :: "string \<Rightarrow> string list" where
  "splitHeader header = (if CHR '','' \<notin> set header then [header] else split_quoted header [] False)"

text \<open>The parameters of one range: None when its weight is no number.\<close>

fun range_params :: "(rat \<Rightarrow> rat) \<Rightarrow> string list \<Rightarrow> rat \<Rightarrow> bool \<Rightarrow> string list option \<Rightarrow> (rat \<times> string list option) option" where
  "range_params fl [] q weighted params = Some (q, params)"
| "range_params fl (seg # segs) q weighted params =
     (let param = js_trim seg in
      case index_of CHR ''='' param of
        None \<Rightarrow> range_params fl segs q weighted params
      | Some eq \<Rightarrow>
          (let name = to_lower (js_trim (take eq param)) in
           if \<not> weighted \<and> name = ''q''
           then (case clamp_q (parseFloat fl (drop (eq + 1) param)) of None \<Rightarrow> None
                 | Some q1 \<Rightarrow> range_params fl segs q1 True params)
           else if weighted \<or> length name = 0 then range_params fl segs q weighted params
           else range_params fl segs q weighted
             (Some ((case params of None \<Rightarrow> [] | Some ps \<Rightarrow> ps) @ [name @ ''='' @ js_trim (drop (eq + 1) param)]))))"

definition add_preference :: "(rat \<Rightarrow> rat) \<Rightarrow> preference list \<Rightarrow> string \<Rightarrow> preference list" where
  "add_preference fl out part =
     (let segs = js_split CHR '';'' part; v = to_lower (js_trim (hd segs)) in
      if length v = 0 then out
      else (case range_params fl (tl segs) 1 False None of None \<Rightarrow> out
            | Some (q, ps) \<Rightarrow> out @ [\<lparr>pf_value = v, pf_q = q, pf_order = length out, pf_params = ps\<rparr>]))"

definition parsePreferenceEntries :: "(rat \<Rightarrow> rat) \<Rightarrow> string option \<Rightarrow> preference list" where
  "parsePreferenceEntries fl header =
     (case header of None \<Rightarrow> [] | Some h \<Rightarrow> if length h = 0 then [] else foldl (add_preference fl) [] (splitHeader h))"

definition parsePreferences :: "(rat \<Rightarrow> rat) \<Rightarrow> string option \<Rightarrow> preference list" where
  "parsePreferences fl header =
     sort_key (\<lambda>p. (- pf_q p, pf_order p)) (filter (\<lambda>p. 0 < pf_q p) (parsePreferenceEntries fl header))"

section \<open>Scores\<close>

definition server_params :: "string \<Rightarrow> (string, string) js_map" where
  "server_params server =
     (if CHR '';'' \<notin> set server then []
      else foldl (\<lambda>m (name, v). jm_set name (to_lower v) m) [] (contentTypeParameters server))"

definition serverMediaOf :: "string \<Rightarrow> string \<times> (string, string) js_map" where
  "serverMediaOf server = (to_lower (js_trim (takeWhile (\<lambda>c. c \<noteq> CHR '';'') server)), server_params server)"

definition part_of :: "string \<Rightarrow> nat \<Rightarrow> string option" where
  "part_of t i = (let ps = js_split CHR ''/'' t in if i < length ps then Some (ps ! i) else None)"

definition param_agrees :: "(string, string) js_map \<Rightarrow> string \<Rightarrow> bool" where
  "param_agrees serverParams entry =
     (case index_of CHR ''='' entry of
        None \<Rightarrow> jm_get serverParams (butlast entry) = Some (to_lower entry)
      | Some eq \<Rightarrow> jm_get serverParams (take eq entry) = Some (to_lower (drop (eq + 1) entry)))"

definition mediaScore :: "preference \<Rightarrow> string \<Rightarrow> nat" where
  "mediaScore pref server =
     (let (t, serverParams) = serverMediaOf server; client = pf_value pref;
          score = (if client = ''*'' \<or> client = ''*/*'' then 1
            else if ends_with ''/*'' client then (if Some (take (length client - 2) client) = part_of t 0 then 2 else 0)
            else if starts_with ''*/'' client then (if Some (drop 2 client) = part_of t 1 then 2 else 0)
            else if client = t then 3 else (0 :: nat)) in
      if score = 0 then 0
      else (case pf_params pref of None \<Rightarrow> score
            | Some ps \<Rightarrow> if list_all (param_agrees serverParams) ps then (if score = 3 then score + 1 else score) else 0))"

definition tokenScore :: "preference \<Rightarrow> string \<Rightarrow> nat" where
  "tokenScore pref server = (if pf_value pref = ''*'' then 1 else if pf_value pref = server then 3 else 0)"

section \<open>Picking\<close>

text \<open>The range that defines the quality of one provided value, with its score.\<close>

definition better_match :: "(preference \<Rightarrow> string \<Rightarrow> nat) \<Rightarrow> string \<Rightarrow> preference option \<times> nat \<Rightarrow> preference \<Rightarrow> preference option \<times> nat" where
  "better_match score target best pref =
     (let s = score pref target in
      if snd best < s \<or> (s = snd best \<and> 0 < s \<and> (case fst best of None \<Rightarrow> - 1 | Some m \<Rightarrow> pf_q m) < pf_q pref)
      then (Some pref, s) else best)"

definition best_match :: "(preference \<Rightarrow> string \<Rightarrow> nat) \<Rightarrow> preference list \<Rightarrow> string \<Rightarrow> preference option \<times> nat" where
  "best_match score prefs target = foldl (better_match score target) (None, 0) prefs"

text \<open>The best provided value so far: its index, quality, score and the position of its range.\<close>

record pick_state =
  pk_index :: "nat option"
  pk_q :: rat
  pk_score :: nat
  pk_order :: "nat option"      \<comment> \<open>None is \<open>Number.POSITIVE_INFINITY\<close>\<close>

definition pick_step ::
  "(preference \<Rightarrow> string \<Rightarrow> nat) \<Rightarrow> (string \<Rightarrow> string) \<Rightarrow> preference list \<Rightarrow> pick_state \<Rightarrow> nat \<times> string \<Rightarrow> pick_state" where
  "pick_step score norml prefs st iv =
     (let target = norml (snd iv) in
      if length target = 0 then st
      else (case best_match score prefs target of
              (None, _) \<Rightarrow> st
            | (Some m, s) \<Rightarrow>
                if pf_q m \<le> 0 then st
                else if pk_q st < pf_q m \<or> (pf_q m = pk_q st \<and> pk_score st < s)
                  \<or> (pf_q m = pk_q st \<and> s = pk_score st \<and> (case pk_order st of None \<Rightarrow> True | Some k \<Rightarrow> pf_order m < k))
                then \<lparr>pk_index = Some (fst iv), pk_q = pf_q m, pk_score = s, pk_order = Some (pf_order m)\<rparr>
                else st))"

definition pickPreference ::
  "(rat \<Rightarrow> rat) \<Rightarrow> string option \<Rightarrow> string list \<Rightarrow> (string \<Rightarrow> string) \<Rightarrow> (preference \<Rightarrow> string \<Rightarrow> nat) \<Rightarrow> string option" where
  "pickPreference fl header provided norml score =
     (if header = None \<or> header = Some [] then hd_opt provided
      else (case pk_index (foldl (pick_step score norml (parsePreferenceEntries fl header))
                \<lparr>pk_index = None, pk_q = 0, pk_score = 0, pk_order = None\<rparr> (zip [0..<length provided] provided)) of
              None \<Rightarrow> None | Some i \<Rightarrow> Some (provided ! i)))"

section \<open>The negotiations\<close>

definition acceptableValues :: "(rat \<Rightarrow> rat) \<Rightarrow> string option \<Rightarrow> string list" where
  "acceptableValues fl header = map pf_value (parsePreferences fl header)"

definition EXPAND_CACHE :: "(string \<times> string) list" where
  "EXPAND_CACHE = [(''html'', ''text/html''), (''json'', ''application/json''), (''xml'', ''application/xml''), (''text'', ''text/plain'')]"

definition expand_type :: "string \<Rightarrow> string" where
  "expand_type v = (let lower = to_lower v in case map_of EXPAND_CACHE lower of Some t \<Rightarrow> t | None \<Rightarrow> expandShorthand lower)"

definition acceptsType :: "(rat \<Rightarrow> rat) \<Rightarrow> string option \<Rightarrow> string list \<Rightarrow> string option" where
  "acceptsType fl header provided = pickPreference fl header provided expand_type mediaScore"

definition isIdentityRefused :: "(rat \<Rightarrow> rat) \<Rightarrow> string \<Rightarrow> bool" where
  "isIdentityRefused fl header =
     list_ex (\<lambda>entry. (pf_value entry = ''identity'' \<or> pf_value entry = ''*'') \<and> pf_q entry = 0) (parsePreferenceEntries fl (Some header))"

definition acceptsEncoding :: "(rat \<Rightarrow> rat) \<Rightarrow> string option \<Rightarrow> string list \<Rightarrow> string option" where
  "acceptsEncoding fl header provided =
     (case header of
        None \<Rightarrow> if ''identity'' \<in> set provided then Some ''identity'' else None
      | Some h \<Rightarrow>
          if length h = 0 then (if ''identity'' \<in> set provided then Some ''identity'' else None)
          else (case pickPreference fl header provided to_lower tokenScore of
                  Some picked \<Rightarrow> Some picked
                | None \<Rightarrow> if ''identity'' \<in> set provided then (if isIdentityRefused fl h then None else Some ''identity'') else None))"

section \<open>The gzip gate\<close>

definition GZIP_MEMO_MAX :: nat where "GZIP_MEMO_MAX = 64"

definition isTokenChar :: "nat \<Rightarrow> bool" where
  "isTokenChar code \<longleftrightarrow> (97 \<le> code \<and> code \<le> 122) \<or> (65 \<le> code \<and> code \<le> 90) \<or> (48 \<le> code \<and> code \<le> 57)
     \<or> (33 \<le> code \<and> code \<le> 46) \<or> code = 94 \<or> code = 95 \<or> code = 96 \<or> code = 124 \<or> code = 126"

definition lowerCode :: "nat \<Rightarrow> nat" where
  "lowerCode code = (if 65 \<le> code \<and> code \<le> 90 then code + 32 else code)"

text \<open>The scan: the bounds of the token, or None when the lane cannot decide.\<close>

fun lone_scan :: "nat list \<Rightarrow> nat \<Rightarrow> (nat \<times> nat) option \<Rightarrow> (nat \<times> nat) option option" where
  "lone_scan [] i bounds = Some bounds"
| "lone_scan (code # codes) i bounds =
     (if code = 44 \<or> code = 59 \<or> code = 34 then None
      else if code = 32 \<or> code = 9 then lone_scan codes (Suc i) bounds
      else if \<not> isTokenChar code then None
      else lone_scan codes (Suc i) (Some (case bounds of None \<Rightarrow> i | Some (start, _) \<Rightarrow> start, Suc i)))"

definition loneTokenVerdict :: "string \<Rightarrow> bool option" where
  "loneTokenVerdict header =
     (let codes = map of_char header :: nat list in
      case lone_scan codes 0 None of
        None \<Rightarrow> None
      | Some None \<Rightarrow> Some False
      | Some (Some (start, end')) \<Rightarrow>
          (let len = end' - start in
           if len = 1 then Some (codes ! start = 42)
           else if len \<noteq> 4 then Some False
           else Some (lowerCode (codes ! start) = 103 \<and> lowerCode (codes ! (start + 1)) = 122
             \<and> lowerCode (codes ! (start + 2)) = 105 \<and> lowerCode (codes ! (start + 3)) = 112)))"

fun gzip_scan :: "preference list \<Rightarrow> rat option \<Rightarrow> rat option \<Rightarrow> rat option \<times> rat option" where
  "gzip_scan [] explicit wildcard = (explicit, wildcard)"
| "gzip_scan (p # ps) explicit wildcard =
     (if pf_value p = ''gzip'' \<and> explicit = None then gzip_scan ps (Some (pf_q p)) wildcard
      else if pf_value p = ''*'' \<and> wildcard = None then gzip_scan ps explicit (Some (pf_q p))
      else gzip_scan ps explicit wildcard)"

definition parseGzipVerdict :: "(rat \<Rightarrow> rat) \<Rightarrow> string \<Rightarrow> bool" where
  "parseGzipVerdict fl header =
     (case gzip_scan (parsePreferenceEntries fl (Some header)) None None of
        (Some q, _) \<Rightarrow> 0 < q | (None, Some q) \<Rightarrow> 0 < q | (None, None) \<Rightarrow> False)"

definition acceptsGzip :: "(rat \<Rightarrow> rat) \<Rightarrow> string \<Rightarrow> (string, bool) js_map \<Rightarrow> bool \<times> (string, bool) js_map" where
  "acceptsGzip fl header memo =
     (case loneTokenVerdict header of
        Some v \<Rightarrow> (v, memo)
      | None \<Rightarrow>
          (case jm_get memo header of
             Some v \<Rightarrow> (v, memo)
           | None \<Rightarrow> (let v = parseGzipVerdict fl header in
               (v, if length memo < GZIP_MEMO_MAX then jm_set header v memo else memo))))"

section \<open>Type matching\<close>

definition isJsonSuffix :: "string \<Rightarrow> bool" where
  "isJsonSuffix incoming \<longleftrightarrow> starts_with ''application/'' incoming \<and> ends_with ''+json'' incoming"

definition isXmlSuffix :: "string \<Rightarrow> bool" where
  "isXmlSuffix incoming \<longleftrightarrow> (starts_with ''application/'' incoming \<or> starts_with ''text/'' incoming) \<and> ends_with ''+xml'' incoming"

definition type_matches :: "string \<Rightarrow> string \<Rightarrow> string option" where
  "type_matches incoming raw =
     (let shorthand = to_lower (js_trim raw) in
      if starts_with ''.'' shorthand
      then (if ends_with (CHR ''/'' # tl shorthand) incoming \<or> ends_with (CHR ''+'' # tl shorthand) incoming then Some shorthand else None)
      else if starts_with ''+'' shorthand
      then (if ends_with shorthand (case part_of incoming 1 of None \<Rightarrow> [] | Some p \<Rightarrow> p) then Some incoming else None)
      else (let early = expandShorthand shorthand in
        if early = ''any'' \<or> early = ''*'' \<or> early = ''*/*'' then Some incoming
        else if starts_with ''*/'' shorthand
        then (if part_of incoming 1 = Some (drop 2 shorthand) then Some shorthand else None)
        else if ends_with ''/*'' early
        then (if starts_with (butlast early) incoming then Some shorthand else None)
        else if early = incoming then Some shorthand
        else if (shorthand = ''json'' \<or> early = ''application/json'') \<and> isJsonSuffix incoming then Some shorthand
        else if (shorthand = ''xml'' \<or> early = ''application/xml'') \<and> (incoming = ''text/xml'' \<or> isXmlSuffix incoming) then Some shorthand
        else None))"

text \<open>The answer: null, false (no type matches) or the matched type.\<close>

datatype type_answer = TypeNull | TypeFalse | TypeIs string

definition typeIs :: "string option \<Rightarrow> string list \<Rightarrow> type_answer" where
  "typeIs contentType types =
     (case contentType of
        None \<Rightarrow> TypeNull
      | Some ct \<Rightarrow>
          (let incoming = normalizeType ct in
           if length ct = 0 \<or> length incoming = 0 then TypeNull
           else if types = [] then TypeIs incoming
           else (case first_some (type_matches incoming) types of None \<Rightarrow> TypeFalse | Some t \<Rightarrow> TypeIs t)))"

end
