(* ===== verification/NegotiationCorrect.thy ===== *)
theory NegotiationCorrect
  imports Negotiation
begin

text \<open>
  What negotiation promises: the picked value is optimal for the weights of the most specific ranges, and the fast
  lanes of the gzip gate agree with the parser.
\<close>

section \<open>The quality of a value\<close>

text \<open>The reference: the score of the most specific range, and the best weight among the ranges of that score.\<close>

definition top_score :: "(preference \<Rightarrow> string \<Rightarrow> nat) \<Rightarrow> preference list \<Rightarrow> string \<Rightarrow> nat" where
  "top_score score prefs t = foldr (\<lambda>p n. max (score p t) n) prefs 0"

definition quality :: "(preference \<Rightarrow> string \<Rightarrow> nat) \<Rightarrow> preference list \<Rightarrow> string \<Rightarrow> rat" where
  "quality score prefs t =
     (let n = top_score score prefs t in
      if n = 0 then 0 else foldr (\<lambda>p q. if score p t = n then max (pf_q p) q else q) prefs 0)"

text \<open>What the scan of the ranges has found: the top score, and a range of that score with the best weight.\<close>

definition defines_quality :: "(preference \<Rightarrow> string \<Rightarrow> nat) \<Rightarrow> string \<Rightarrow> preference list \<Rightarrow> preference option \<times> nat \<Rightarrow> bool" where
  "defines_quality score t prefs best \<longleftrightarrow>
     snd best = top_score score prefs t \<and>
     (case fst best of None \<Rightarrow> snd best = 0
      | Some m \<Rightarrow> m \<in> set prefs \<and> score m t = snd best \<and> 0 < snd best \<and> (\<forall>p \<in> set prefs. score p t = snd best \<longrightarrow> pf_q p \<le> pf_q m))"

lemma top_score_snoc: "top_score score (prefs @ [p]) t = max (top_score score prefs t) (score p t)"
  by (induction prefs) (simp_all add: top_score_def)

lemma top_score_ge: "p \<in> set prefs \<Longrightarrow> score p t \<le> top_score score prefs t"
  by (induction prefs) (auto simp: top_score_def le_max_iff_disj)

lemma better_match_defines:
  assumes "defines_quality score t prefs best"
  shows "defines_quality score t (prefs @ [p]) (better_match score t best p)"
proof (cases "top_score score prefs t < score p t")
  case True
  then have "score p' t \<noteq> score p t" if "p' \<in> set prefs" for p'
    using top_score_ge [OF that, of score t] by simp
  then show ?thesis
    using True assms by (auto simp: defines_quality_def better_match_def Let_def top_score_snoc)
next
  case False
  then have top: "top_score score (prefs @ [p]) t = top_score score prefs t" by (simp add: top_score_snoc)
  show ?thesis
  proof (cases "fst best")
    case None
    then show ?thesis using False assms by (auto simp: defines_quality_def better_match_def Let_def top)
  next
    case (Some m)
    then show ?thesis using False assms
      by (auto simp: defines_quality_def better_match_def Let_def top intro: order_trans less_imp_le)
  qed
qed

lemma best_match_defines: "defines_quality score t prefs (best_match score prefs t)"
proof (induction prefs rule: rev_induct)
  case Nil
  show ?case by (simp add: best_match_def defines_quality_def top_score_def)
next
  case (snoc p prefs)
  then show ?case using better_match_defines [OF snoc] by (simp add: best_match_def)
qed

lemma quality_fold:
  assumes "\<And>p. p \<in> set ps \<Longrightarrow> score p t = n \<Longrightarrow> pf_q p \<le> b" and "0 \<le> b" and "m \<in> set ps" and "score m t = n" and "pf_q m = b"
  shows "foldr (\<lambda>p q. if score p t = n then max (pf_q p) q else q) ps 0 = b"
proof -
  have le: "foldr (\<lambda>p q. if score p t = n then max (pf_q p) q else q) xs 0 \<le> b" if "set xs \<subseteq> set ps" for xs
    using that assms(1,2) by (induction xs) auto
  have ge: "pf_q m \<le> foldr (\<lambda>p q. if score p t = n then max (pf_q p) q else q) xs 0" if "m \<in> set xs" for xs
    using that assms(4) by (induction xs) (auto simp: le_max_iff_disj)
  show ?thesis using le [OF order_refl] ge [OF assms(3)] assms(5) by simp
qed

text \<open>The weights of a parsed header lie between 0 and 1.\<close>

lemma clamp_q_bounds: "clamp_q x = Some q \<Longrightarrow> 0 \<le> q \<and> q \<le> 1"
  by (auto simp: clamp_q_def split: js_float.splits if_splits)

lemma range_params_bounds:
  "range_params fl segs q w ps = Some (q', ps') \<Longrightarrow> 0 \<le> q \<and> q \<le> 1 \<Longrightarrow> 0 \<le> q' \<and> q' \<le> 1"
proof (induction fl segs q w ps rule: range_params.induct)
  case (2 fl seg segs q weighted params)
  show ?case
  proof (cases "index_of CHR ''='' (js_trim seg)")
    case None
    then show ?thesis using 2(1) [OF refl None] 2(5,6) by (simp add: Let_def del: index_of_None)
  next
    case (Some eq)
    let ?name = "to_lower (js_trim (take eq (js_trim seg)))"
    let ?v = "parseFloat fl (drop (eq + 1) (js_trim seg))"
    consider (weight) "\<not> weighted \<and> ?name = ''q''" | (skip) "\<not> (\<not> weighted \<and> ?name = ''q'')" "weighted \<or> length ?name = 0"
      | (param) "\<not> (\<not> weighted \<and> ?name = ''q'')" "\<not> (weighted \<or> length ?name = 0)" by blast
    then show ?thesis
    proof cases
      case weight
      then show ?thesis using 2(2) [OF refl Some refl weight] 2(5) Some clamp_q_bounds [of ?v] by (auto simp: Let_def split: option.splits)
    next
      case skip
      then show ?thesis using 2(3) [OF refl Some refl skip] 2(5,6) Some by (auto simp: Let_def)
    next
      case param
      then show ?thesis using 2(4) [OF refl Some refl param] 2(5,6) Some by (auto simp: Let_def)
    qed
  qed
qed simp

lemma entries_weights: "p \<in> set (parsePreferenceEntries fl header) \<Longrightarrow> 0 \<le> pf_q p \<and> pf_q p \<le> 1"
proof -
  have start: "0 \<le> (1::rat) \<and> 1 \<le> (1::rat)" by simp
  have step: "\<forall>p \<in> set (add_preference fl out part). 0 \<le> pf_q p \<and> pf_q p \<le> 1" if "\<forall>p \<in> set out. 0 \<le> pf_q p \<and> pf_q p \<le> 1" for out part
    using that by (auto simp: add_preference_def Let_def dest: range_params_bounds [OF _ start] split: option.splits)
  have "\<forall>p \<in> set (foldl (add_preference fl) [] parts). 0 \<le> pf_q p \<and> pf_q p \<le> 1" for parts
  proof (induction parts rule: rev_induct)
    case (snoc part parts)
    then show ?case using step [OF snoc] by simp
  qed simp
  then show "p \<in> set (parsePreferenceEntries fl header) \<Longrightarrow> 0 \<le> pf_q p \<and> pf_q p \<le> 1"
    by (auto simp: parsePreferenceEntries_def split: option.splits if_splits)
qed

lemma best_match_quality:
  assumes "\<forall>p \<in> set prefs. 0 \<le> pf_q p"
  shows "case best_match score prefs t of (None, s) \<Rightarrow> quality score prefs t = 0
     | (Some m, s) \<Rightarrow> quality score prefs t = pf_q m"
proof -
  obtain o' s where bm: "best_match score prefs t = (o', s)" by (cases "best_match score prefs t")
  have d: "defines_quality score t prefs (o', s)" using best_match_defines [of score t prefs] bm by simp
  show ?thesis
  proof (cases o')
    case None
    then show ?thesis using d bm by (simp add: defines_quality_def quality_def)
  next
    case (Some m)
    have "foldr (\<lambda>p q. if score p t = s then max (pf_q p) q else q) prefs 0 = pf_q m"
      by (rule quality_fold [where m = m]) (use d Some assms in \<open>auto simp: defines_quality_def\<close>)
    then show ?thesis using d bm Some by (auto simp: defines_quality_def quality_def Let_def)
  qed
qed

text \<open>The loop over the provided values: what the picked index has after each step.\<close>

definition pick_inv :: "(string \<Rightarrow> rat) \<Rightarrow> (string \<Rightarrow> string) \<Rightarrow> string list \<Rightarrow> pick_state \<Rightarrow> bool" where
  "pick_inv qual norml vs st \<longleftrightarrow>
     (case pk_index st of None \<Rightarrow> pk_q st = 0
      | Some i \<Rightarrow> i < length vs \<and> norml (vs ! i) \<noteq> [] \<and> pk_q st = qual (norml (vs ! i)) \<and> 0 < pk_q st) \<and>
     (\<forall>v \<in> set vs. norml v \<noteq> [] \<longrightarrow> qual (norml v) \<le> pk_q st)"

lemma pick_inv_same: "pick_inv qual norml vs st \<Longrightarrow> (norml v \<noteq> [] \<longrightarrow> qual (norml v) \<le> pk_q st) \<Longrightarrow> pick_inv qual norml (vs @ [v]) st"
  by (auto simp: pick_inv_def nth_append split: option.splits)

lemma pick_inv_next:
  "pick_inv qual norml vs st \<Longrightarrow> norml v \<noteq> [] \<Longrightarrow> 0 < qual (norml v) \<Longrightarrow> pk_q st \<le> qual (norml v) \<Longrightarrow>
   pick_inv qual norml (vs @ [v]) \<lparr>pk_index = Some (length vs), pk_q = qual (norml v), pk_score = s, pk_order = k\<rparr>"
  by (auto simp: pick_inv_def dest: order_trans)

lemma pick_inv_nonneg: "pick_inv qual norml vs st \<Longrightarrow> 0 \<le> pk_q st"
  by (auto simp: pick_inv_def split: option.splits)

lemma pick_step_inv:
  assumes "\<forall>p \<in> set prefs. 0 \<le> pf_q p" and inv: "pick_inv (quality score prefs) norml vs st"
  shows "pick_inv (quality score prefs) norml (vs @ [v]) (pick_step score norml prefs st (length vs, v))"
proof (cases "norml v = []")
  case True
  then show ?thesis using pick_inv_same [OF inv] by (simp add: pick_step_def)
next
  case False
  obtain m s where bm: "best_match score prefs (norml v) = (m, s)" by (cases "best_match score prefs (norml v)")
  have q: "quality score prefs (norml v) = (case m of None \<Rightarrow> 0 | Some p \<Rightarrow> pf_q p)"
    using best_match_quality [OF assms(1), of score "norml v"] bm by (simp split: option.splits)
  show ?thesis
  proof (cases m)
    case None
    then show ?thesis using False q bm pick_inv_same [OF inv, of v] pick_inv_nonneg [OF inv] by (simp add: pick_step_def Let_def)
  next
    case (Some p)
    have qp: "pf_q p = quality score prefs (norml v)" using q Some by simp
    show ?thesis
      using False bm Some pick_inv_same [OF inv, of v] pick_inv_next [OF inv False] pick_inv_nonneg [OF inv]
      by (auto simp: pick_step_def Let_def qp)
  qed
qed

lemma pick_fold_inv:
  assumes "\<forall>p \<in> set prefs. 0 \<le> pf_q p"
  shows "pick_inv (quality score prefs) norml vs
    (foldl (pick_step score norml prefs) \<lparr>pk_index = None, pk_q = 0, pk_score = 0, pk_order = None\<rparr> (zip [0..<length vs] vs))"
proof (induction vs rule: rev_induct)
  case Nil
  show ?case by (simp add: pick_inv_def)
next
  case (snoc v vs)
  have "zip [0..<length (vs @ [v])] (vs @ [v]) = zip [0..<length vs] vs @ [(length vs, v)]" by (simp add: zip_append1)
  then show ?case using pick_step_inv [OF assms snoc, of v] by simp
qed

text \<open>C15: The negotiation picks an optimal value: the quality of a provided value is the best weight among the
  ranges of its top score, so the most specific ranges decide and a weight of 0 there refuses whatever a wildcard
  offers. With a header, the picked value has a positive quality that no other usable value exceeds, and nothing is
  picked only when no usable value has a positive quality.\<close>

theorem pick_preference_optimal:
  assumes "h \<noteq> []"
  shows "let qual = \<lambda>v. quality score (parsePreferenceEntries fl (Some h)) (norml v); usable = filter (\<lambda>v. norml v \<noteq> []) provided in
    case pickPreference fl (Some h) provided norml score of
      Some v \<Rightarrow> v \<in> set usable \<and> 0 < qual v \<and> list_all (\<lambda>w. qual w \<le> qual v) usable
    | None \<Rightarrow> list_all (\<lambda>w. qual w \<le> 0) usable"
  using pick_fold_inv [of "parsePreferenceEntries fl (Some h)" score norml provided] entries_weights [of _ fl "Some h"] assms
  by (auto simp: pickPreference_def pick_inv_def Let_def list_all_iff split: option.splits)


lemma encoding_example: "pickPreference (\<lambda>x. x) (Some ''gzip;q=0, *;q=0.5'') [''gzip'', ''br''] to_lower tokenScore = Some ''br''"
  by code_simp

theorem pick_preference_optimal_witness:
  "0 < quality tokenScore (parsePreferenceEntries (\<lambda>x. x) (Some ''gzip;q=0, *;q=0.5'')) ''br''
   \<and> quality tokenScore (parsePreferenceEntries (\<lambda>x. x) (Some ''gzip;q=0, *;q=0.5'')) ''gzip''
     \<le> quality tokenScore (parsePreferenceEntries (\<lambda>x. x) (Some ''gzip;q=0, *;q=0.5'')) ''br''"
proof -
  have l: "to_lower ''gzip'' = ''gzip''" "to_lower ''br'' = ''br''" by code_simp+
  show ?thesis
    using pick_preference_optimal [of "''gzip;q=0, *;q=0.5''" tokenScore "\<lambda>x. x" to_lower "[''gzip'', ''br'']"]
    unfolding encoding_example Let_def by (simp add: l del: to_lower_simps)
qed

lemma type_example:
  "acceptsType (\<lambda>x. x) (Some ''text/html;level=1;q=0.4, application/json, */*;q=0.1'') [''html'', ''json'', ''image/png''] = Some ''json''"
  "acceptsType (\<lambda>x. x) (Some ''text/html;q=0, */*'') [''html''] = None"
  "typeIs (Some ''application/vnd.api+json; charset=utf-8'') [''html'', ''json''] = TypeIs ''json''"
  "contentTypeParameters ''text/html; a=\"x;charset=no\"; charset=UTF-8'' = [(''a'', ''x;charset=no''), (''charset'', ''UTF-8'')]"
  "mimeFromExtension ''a.min.JS'' = Some ''text/javascript''"
  by code_simp+

section \<open>The lone token lane\<close>

lemma lowerCode_of_char: "lowerCode (of_char c) = of_char (char_lower c)"
  by (auto simp: lowerCode_def char_lower_def)

definition lane_char :: "char \<Rightarrow> bool" where
  "lane_char c \<longleftrightarrow> ows c \<or> (isTokenChar (of_char c) \<and> c \<noteq> CHR '','' \<and> c \<noteq> CHR '';'' \<and> c \<noteq> CHR 0x22)"

lemma of_char_lane:
  "(of_char c = (44::nat)) = (c = CHR '','')" "(of_char c = (59::nat)) = (c = CHR '';'')" "(of_char c = (34::nat)) = (c = CHR 0x22)"
  "(of_char c = (32::nat)) = (c = CHR '' '')" "(of_char c = (9::nat)) = (c = CHR 0x09)"
proof -
  have eq: "(of_char c = (of_char d :: nat)) = (c = d)" for d by (rule of_char_eq_iff)
  show "(of_char c = (44::nat)) = (c = CHR '','')" "(of_char c = (59::nat)) = (c = CHR '';'')" "(of_char c = (34::nat)) = (c = CHR 0x22)"
    "(of_char c = (32::nat)) = (c = CHR '' '')" "(of_char c = (9::nat)) = (c = CHR 0x09)"
    using eq [of "CHR '',''"] eq [of "CHR '';''"] eq [of "CHR 0x22"] eq [of "CHR '' ''"] eq [of "CHR 0x09"] by simp_all
qed

lemma lone_scan_Cons:
  "lone_scan (of_char c # cs) i b =
    (if lane_char c then lone_scan cs (Suc i) (if ows c then b else Some (case b of None \<Rightarrow> i | Some (start, _) \<Rightarrow> start, Suc i))
     else None)"
  by (auto simp: lane_char_def ows_def of_char_lane isTokenChar_def)

declare lone_scan.simps(2) [simp del] lone_scan_Cons [simp]

lemma lone_scan_lane: "lone_scan (map of_char h) i b = Some r \<Longrightarrow> list_all lane_char h"
  by (induction h arbitrary: i b) (auto split: if_splits)

text \<open>After the first token character: the start stays, and the end is just past the last token character.\<close>

lemma lone_scan_started:
  "lone_scan (map of_char h) i (Some (st, e)) = Some r \<Longrightarrow>
   \<exists>t w. h = t @ w \<and> list_all ows w \<and> r = Some (st, if t = [] then e else i + length t) \<and> (t \<noteq> [] \<longrightarrow> \<not> ows (last t))"
proof (induction h arbitrary: i e)
  case Nil
  then show ?case by auto
next
  case (Cons c h)
  let ?e = "if ows c then e else Suc i"
  have "lone_scan (map of_char h) (Suc i) (Some (st, ?e)) = Some r" using Cons.prems by (auto split: if_splits)
  from Cons.IH [OF this] obtain t w where t: "h = t @ w" "list_all ows w" "r = Some (st, if t = [] then ?e else Suc i + length t)"
    "t \<noteq> [] \<longrightarrow> \<not> ows (last t)" by blast
  show ?case
  proof (cases "t = [] \<and> ows c")
    case True
    then show ?thesis using t by (intro exI [of _ "[]"] exI [of _ "c # h"]) auto
  next
    case False
    then show ?thesis using t by (intro exI [of _ "c # t"] exI [of _ w]) auto
  qed
qed

lemma lone_scan_token:
  "lone_scan (map of_char h) i None = Some r \<Longrightarrow>
   (r = None \<and> list_all ows h) \<or>
   (\<exists>u t w. h = u @ t @ w \<and> list_all ows u \<and> list_all ows w \<and> t \<noteq> [] \<and> \<not> ows (hd t) \<and> \<not> ows (last t) \<and>
     r = Some (i + length u, i + length u + length t))"
proof (induction h arbitrary: i)
  case (Cons c h)
  show ?case
  proof (cases "ows c")
    case True
    then have "lone_scan (map of_char h) (Suc i) None = Some r" using Cons.prems by (auto split: if_splits)
    from Cons.IH [OF this] show ?thesis
    proof
      assume "r = None \<and> list_all ows h"
      then show ?thesis using True by simp
    next
      assume "\<exists>u t w. h = u @ t @ w \<and> list_all ows u \<and> list_all ows w \<and> t \<noteq> [] \<and> \<not> ows (hd t) \<and> \<not> ows (last t) \<and>
        r = Some (Suc i + length u, Suc i + length u + length t)"
      then obtain u t w where "h = u @ t @ w" "list_all ows u" "list_all ows w" "t \<noteq> []" "\<not> ows (hd t)" "\<not> ows (last t)"
        "r = Some (Suc i + length u, Suc i + length u + length t)" by blast
      then show ?thesis using True by (intro disjI2 exI [of _ "c # u"] exI [of _ t] exI [of _ w]) simp
    qed
  next
    case False
    then have "lone_scan (map of_char h) (Suc i) (Some (i, Suc i)) = Some r" using Cons.prems by (auto split: if_splits)
    from lone_scan_started [OF this] obtain t w where "h = t @ w" "list_all ows w"
      "r = Some (i, if t = [] then Suc i else Suc i + length t)" "t \<noteq> [] \<longrightarrow> \<not> ows (last t)" by blast
    then show ?thesis using False by (intro disjI2 exI [of _ "[]"] exI [of _ "c # t"] exI [of _ w]) auto
  qed
qed simp

lemma lane_visible: "lane_char c \<Longrightarrow> \<not> ows c \<Longrightarrow> visible c"
  by (auto simp: lane_char_def isTokenChar_def visible_def)

lemma token_at:
  assumes "length t = 4"
  shows "to_lower t = ''gzip'' \<longleftrightarrow> lowerCode (of_char (t ! 0)) = 103 \<and> lowerCode (of_char (t ! 1)) = 122
    \<and> lowerCode (of_char (t ! 2)) = 105 \<and> lowerCode (of_char (t ! 3)) = 112"
proof -
  have g: "(of_char c = (103::nat)) = (c = CHR ''g'')" "(of_char c = (122::nat)) = (c = CHR ''z'')"
    "(of_char c = (105::nat)) = (c = CHR ''i'')" "(of_char c = (112::nat)) = (c = CHR ''p'')" for c
    using of_char_eq_iff [of c "CHR ''g''", where 'a = nat] of_char_eq_iff [of c "CHR ''z''", where 'a = nat]
      of_char_eq_iff [of c "CHR ''i''", where 'a = nat] of_char_eq_iff [of c "CHR ''p''", where 'a = nat] by simp_all
  from assms obtain a b c d where "t = [a, b, c, d]" by (auto simp: length_Suc_conv numeral_eq_Suc)
  then show ?thesis by (simp add: lowerCode_of_char g)
qed

lemma char_lower_star: "char_lower c = CHR ''*'' \<longleftrightarrow> c = CHR ''*''"
proof -
  have "lowerCode n = 42 \<longleftrightarrow> n = 42" for n by (auto simp: lowerCode_def)
  then show ?thesis using of_char_eq_iff [of "char_lower c" "CHR ''*''", where 'a = nat] of_char_eq_iff [of c "CHR ''*''", where 'a = nat]
    by (simp flip: lowerCode_of_char)
qed

lemma loneTokenVerdict_trim:
  assumes "loneTokenVerdict h = Some v"
  shows "list_all lane_char h \<and> v = (to_lower (js_trim h) = ''gzip'' \<or> to_lower (js_trim h) = ''*'')"
proof -
  obtain r where r: "lone_scan (map of_char h) 0 None = Some r"
    using assms by (auto simp: loneTokenVerdict_def Let_def split: option.splits)
  have lane: "list_all lane_char h" by (rule lone_scan_lane [OF r])
  from lone_scan_token [OF r] show ?thesis
  proof
    assume "r = None \<and> list_all ows h"
    then show ?thesis using assms r lane trim_all_ows [of h] by (simp add: loneTokenVerdict_def Let_def)
  next
    assume "\<exists>u t w. h = u @ t @ w \<and> list_all ows u \<and> list_all ows w \<and> t \<noteq> [] \<and> \<not> ows (hd t) \<and> \<not> ows (last t) \<and>
     r = Some (0 + length u, 0 + length u + length t)"
    then obtain u t w where h: "h = u @ t @ w" and ws: "list_all ows u" "list_all ows w" and t: "t \<noteq> []" "\<not> ows (hd t)" "\<not> ows (last t)"
      and r': "r = Some (length u, length u + length t)" by auto
    have "js_trim h = t"
      unfolding h using ws t lane by (intro trim_around lane_visible) (auto simp: h list_all_iff)
    moreover have nth: "map of_char h ! (length u + k) = (of_char (t ! k) :: nat)" if "k < length t" for k
      using that by (simp add: h nth_append)
    moreover have "v = (to_lower t = ''gzip'' \<or> to_lower t = ''*'')"
    proof (cases "length t = 1")
      case True
      then obtain c where c: "t = [c]" by (auto simp: length_Suc_conv)
      have "(of_char c = (42::nat)) = (c = CHR ''*'')" using of_char_eq_iff [of c "CHR ''*''", where 'a = nat] by simp
      then show ?thesis using assms r r' nth [of 0] c by (auto simp: loneTokenVerdict_def Let_def char_lower_star)
    next
      case False
      then have "to_lower t \<noteq> ''*''" by (auto dest: arg_cong [where f = length])
      then show ?thesis using assms r r' False t(1) nth [of 0] nth [of 1] nth [of 2] nth [of 3] token_at [of t]
        by (auto simp: loneTokenVerdict_def Let_def add.commute dest: arg_cong [where f = length] split: if_splits)
    qed
    ultimately show ?thesis using lane by simp
  qed
qed

lemma lane_no: "\<not> lane_char CHR '',''" "\<not> lane_char CHR '';''"
  by (simp_all add: lane_char_def ows_def)

lemma parse_lone:
  assumes "list_all lane_char h"
  shows "parseGzipVerdict fl h = (to_lower (js_trim h) = ''gzip'' \<or> to_lower (js_trim h) = ''*'')"
proof -
  have no: "CHR '','' \<notin> set h" "CHR '';'' \<notin> set h" using assms lane_no unfolding list_all_iff by blast+
  let ?v = "to_lower (js_trim h)"
  have nil: "js_trim [] = []" using trim_all_ows [of "[]"] by simp
  have "parsePreferenceEntries fl (Some h) = (if ?v = [] then [] else [\<lparr>pf_value = ?v, pf_q = 1, pf_order = 0, pf_params = None\<rparr>])"
    using no nil by (cases "h = []") (simp_all add: parsePreferenceEntries_def splitHeader_def add_preference_def js_split_no_sep Let_def)
  then show ?thesis by (cases "?v = []") (simp_all add: parseGzipVerdict_def)
qed

lemma lone_token_lane: "loneTokenVerdict h = Some v \<Longrightarrow> v = parseGzipVerdict fl h"
  using loneTokenVerdict_trim [of h v] parse_lone [of h fl] by simp

section \<open>The memo\<close>

definition memo_ok :: "(rat \<Rightarrow> rat) \<Rightarrow> (string, bool) js_map \<Rightarrow> bool" where
  "memo_ok fl memo \<longleftrightarrow> length memo \<le> GZIP_MEMO_MAX \<and> (\<forall>h v. jm_get memo h = Some v \<longrightarrow> v = parseGzipVerdict fl h)"

lemma acceptsGzip_step:
  assumes "memo_ok fl memo" and "acceptsGzip fl h memo = (v, memo')"
  shows "v = parseGzipVerdict fl h \<and> memo_ok fl memo'"
proof (cases "loneTokenVerdict h")
  case (Some b)
  then show ?thesis using assms lone_token_lane [OF Some, of fl] by (simp add: acceptsGzip_def)
next
  case None
  have len: "length (jm_set h b memo) \<le> Suc (length memo)" for b by (simp add: jm_set_length)
  show ?thesis
    using assms None len [of "parseGzipVerdict fl h"]
    by (auto simp: acceptsGzip_def memo_ok_def Let_def split: option.splits if_splits)
qed

definition gzip_requests :: "(rat \<Rightarrow> rat) \<Rightarrow> string list \<Rightarrow> bool list \<times> (string, bool) js_map" where
  "gzip_requests fl hs = foldl (\<lambda>(vs, memo) h. let (v, memo') = acceptsGzip fl h memo in (vs @ [v], memo')) ([], []) hs"

text \<open>C33: The lanes of the gzip gate change nothing: along any sequence of requests every answer is the verdict
  of the parser on that header, and the memo never holds more than its bound.\<close>

theorem accepts_gzip_parses:
  "fst (gzip_requests fl hs) = map (parseGzipVerdict fl) hs \<and> length (snd (gzip_requests fl hs)) \<le> GZIP_MEMO_MAX"
proof -
  have "fst (gzip_requests fl hs) = map (parseGzipVerdict fl) hs \<and> memo_ok fl (snd (gzip_requests fl hs))"
  proof (induction hs rule: rev_induct)
    case Nil
    show ?case by (simp add: gzip_requests_def memo_ok_def GZIP_MEMO_MAX_def)
  next
    case (snoc h hs)
    obtain vs memo where m: "gzip_requests fl hs = (vs, memo)" by (cases "gzip_requests fl hs")
    obtain v memo' where a: "acceptsGzip fl h memo = (v, memo')" by (cases "acceptsGzip fl h memo")
    have "gzip_requests fl (hs @ [h]) = (vs @ [v], memo')" using m a by (simp add: gzip_requests_def)
    then show ?case using snoc m acceptsGzip_step [OF _ a, of] by simp
  qed
  then show ?thesis by (simp add: memo_ok_def)
qed

end
