(* ===== verification/Cache.thy ===== *)
theory Cache
  imports Headers
begin

text \<open>
  The response cache, src/middleware/cache.ts. The middleware awaits the handler and then the body it captures, so
  it is two steps here: \<open>cache_lookup\<close> before the handler and \<open>cache_finish\<close> after the capture, each atomic, with
  other requests in between. The store is a map in insertion order, the byte count an integer, time the
  milliseconds of \<open>Date.now\<close>. The headers of a request are the function \<open>c.header\<close>, and the bodies are what
  reading a clone of the response gives.
\<close>

section \<open>Options, requests and responses\<close>

record cache_config =
  cc_ttl :: int
  cc_max :: nat
  cc_maxBytes :: nat
  cc_maxEntryBytes :: nat
  cc_includeQuery :: bool

record cache_options =
  co_ttl :: "int option"
  co_max :: "nat option"
  co_maxBytes :: "nat option"
  co_maxEntryBytes :: "nat option"
  co_includeQuery :: bool

definition cache_setup :: "cache_options \<Rightarrow> cache_config" where
  "cache_setup options =
     (let maxBytes = (case co_maxBytes options of Some n \<Rightarrow> n | None \<Rightarrow> 64 * 1024 * 1024) in
      \<lparr>cc_ttl = (case co_ttl options of Some n \<Rightarrow> n | None \<Rightarrow> 60000),
       cc_max = (case co_max options of Some n \<Rightarrow> n | None \<Rightarrow> 128),
       cc_maxBytes = maxBytes,
       cc_maxEntryBytes = min (case co_maxEntryBytes options of Some n \<Rightarrow> n | None \<Rightarrow> 4 * 1024 * 1024) maxBytes,
       cc_includeQuery = co_includeQuery options\<rparr>)"

text \<open>What the middleware reads of a context.\<close>

record cache_request =
  cq_method :: string
  cq_host :: string
  cq_path :: string
  cq_querystring :: string
  cq_header :: "string \<Rightarrow> string"
  cq_cookies_touched :: bool      \<comment> \<open>\<open>cookiesValue\<close> is not null\<close>
  cq_development :: bool          \<comment> \<open>\<open>app.env\<close> is development\<close>

text \<open>Text as UTF-8, or raw bytes.\<close>

datatype cache_body = CText string | CBytes string

fun body_bytes :: "cache_body \<Rightarrow> string" where
  "body_bytes (CText s) = s"
| "body_bytes (CBytes s) = s"

text \<open>A committed response: \<open>cr_snapshot\<close> says it is the \<open>directBodyResponseValue\<close>, \<open>cr_text\<close> and \<open>cr_raw\<close> are
  what reading a clone as text and as bytes gives, None when the read fails.\<close>

record cache_response =
  cr_status :: nat
  cr_headers :: headers
  cr_snapshot :: bool
  cr_text :: "string option"
  cr_raw :: "string option"

record cache_entry =
  ce_expires :: int
  ce_body :: cache_body
  ce_headers :: headers
  ce_sizeBytes :: nat

record cache_state =
  cs_store :: "(string, cache_entry) js_map"
  cs_totalBytes :: int
  cs_warnedVary :: bool

definition fresh_cache :: cache_state where
  "fresh_cache = \<lparr>cs_store = [], cs_totalBytes = 0, cs_warnedVary = False\<rparr>"

section \<open>Cache-Control\<close>

text \<open>The three patterns look for one comma-separated directive, case-insensitively, with white space around it.\<close>

definition directives :: "string \<Rightarrow> string list" where
  "directives header = map (\<lambda>p. to_lower (js_trim p)) (js_split CHR '','' header)"

text \<open>A directive \<open>name = argument\<close>, with white space around the sign.\<close>

definition directive_is :: "string \<Rightarrow> string \<Rightarrow> string \<Rightarrow> bool" where
  "directive_is name argument d =
     (case index_of CHR ''='' d of None \<Rightarrow> False
      | Some eq \<Rightarrow> js_trim (take eq d) = name \<and> js_trim (drop (eq + 1) d) = argument)"

definition NO_REVALIDATE :: "string \<Rightarrow> bool" where
  "NO_REVALIDATE control = list_ex (\<lambda>d. d \<in> set [''no-cache'', ''no-store'', ''private'']) (directives control)"

definition MAX_AGE_ZERO :: "string \<Rightarrow> bool" where
  "MAX_AGE_ZERO control = list_ex (directive_is ''max-age'' ''0'') (directives control)"

definition NO_CACHE_FIELD :: "string \<Rightarrow> bool" where
  "NO_CACHE_FIELD control =
     list_ex (\<lambda>d. directive_is ''no-cache'' (CHR 0x22 # ''set-cookie'' @ [CHR 0x22]) d
       \<or> directive_is ''no-cache'' (CHR 0x22 # ''*'' @ [CHR 0x22]) d) (directives control)"

definition cacheControlTokens :: "string \<Rightarrow> string set" where
  "cacheControlTokens header =
     set (filter (\<lambda>t. 0 < length t) (map (\<lambda>raw. to_lower (js_trim (hd (js_split CHR ''='' raw)))) (js_split CHR '','' header)))"

section \<open>Keys and eligibility\<close>

definition keyOf :: "cache_config \<Rightarrow> cache_request \<Rightarrow> string" where
  "keyOf cfg c =
     (let m = (if cq_method c = ''HEAD'' then ''GET'' else cq_method c);
          target = (if cc_includeQuery cfg then cq_path c @ ''?'' @ cq_querystring c else cq_path c) in
      m @ [CHR 0x0A] @ cq_host c @ [CHR 0x0A] @ target)"

text \<open>The answer, and whether the Vary warning has been given by then.\<close>

definition eligible :: "cache_request \<Rightarrow> cache_response \<Rightarrow> bool \<Rightarrow> bool \<times> bool" where
  "eligible c res warned =
     (let control = (case h_get (cr_headers res) ''cache-control'' of Some v \<Rightarrow> v | None \<Rightarrow> []) in
      if cq_method c \<noteq> ''GET'' \<and> cq_method c \<noteq> ''HEAD'' then (False, warned)
      else if cr_status res \<noteq> 200 then (False, warned)
      else if 0 < length (cq_header c ''authorization'') then (False, warned)
      else if 0 < length (cq_header c ''cookie'') then (False, warned)
      else if cq_cookies_touched c then (False, warned)
      else if NO_REVALIDATE control \<or> MAX_AGE_ZERO control then (False, warned)
      else if NO_CACHE_FIELD control then (False, warned)
      else if h_get (cr_headers res) ''vary'' \<noteq> None then (False, warned \<or> cq_development c)
      else if 0 < length (h_values (cr_headers res) ''set-cookie'') then (False, warned)
      else (True, warned))"

definition captureBody :: "cache_response \<Rightarrow> cache_body option" where
  "captureBody res =
     (if h_get (cr_headers res) ''content-encoding'' \<noteq> None then map_option CBytes (cr_raw res)
      else map_option CText (cr_text res))"

section \<open>Before the handler\<close>

text \<open>A replayed response: its headers and its body, None for HEAD.\<close>

record hit_response =
  hr_status :: nat
  hr_headers :: headers
  hr_body :: "cache_body option"

definition hit_headers :: "headers \<Rightarrow> headers" where
  "hit_headers hs = h_set ''x-cache'' ''hit'' (foldl (\<lambda>h (name, v). h_append name v h) [] hs)"

definition replay :: "cache_request \<Rightarrow> cache_entry \<Rightarrow> hit_response" where
  "replay c entry =
     (let headers = hit_headers (ce_headers entry) in
      if cq_method c = ''HEAD''
      then \<lparr>hr_status = 200,
            hr_headers = (if h_get headers ''content-length'' = None then h_set ''content-length'' (show_int (int (ce_sizeBytes entry))) headers else headers),
            hr_body = None\<rparr>
      else \<lparr>hr_status = 200, hr_headers = headers, hr_body = Some (ce_body entry)\<rparr>)"

definition storeHit :: "string \<Rightarrow> cache_entry \<Rightarrow> cache_request \<Rightarrow> cache_state \<Rightarrow> hit_response \<times> cache_state" where
  "storeHit key entry c st = (replay c entry, st\<lparr>cs_store := jm_set key entry (jm_delete key (cs_store st))\<rparr>)"

text \<open>How the first half ends: past the cache altogether, with a replayed response, or on to the handler.\<close>

datatype lookup = Bypassed | Hit hit_response | Missed

definition cache_lookup :: "cache_config \<Rightarrow> cache_request \<Rightarrow> int \<Rightarrow> cache_state \<Rightarrow> lookup \<times> cache_state" where
  "cache_lookup cfg c now st =
     (if \<not> cc_includeQuery cfg \<and> 0 < length (cq_querystring c) then (Bypassed, st)
      else
        (let bypassStored = ''no-cache'' \<in> cacheControlTokens (cq_header c ''cache-control'');
             key = keyOf cfg c;
             authedRequest = (0 < length (cq_header c ''authorization'') \<or> 0 < length (cq_header c ''cookie''));
             cached = (if authedRequest then None else jm_get (cs_store st) key) in
         case cached of
           None \<Rightarrow> (Missed, st)
         | Some entry \<Rightarrow>
             if now < ce_expires entry \<and> \<not> bypassStored
             then (let (hit, st1) = storeHit key entry c st in (Hit hit, st1))
             else (Missed, st\<lparr>cs_store := jm_delete key (cs_store st), cs_totalBytes := cs_totalBytes st - int (ce_sizeBytes entry)\<rparr>)))"

section \<open>After the handler\<close>

function evict :: "cache_config \<Rightarrow> (string, cache_entry) js_map \<Rightarrow> int \<Rightarrow> (string, cache_entry) js_map \<times> int" where
  "evict cfg m tot =
     (if cc_max cfg < length m \<or> int (cc_maxBytes cfg) < tot
      then (case hd_opt (jm_keys m) of
              None \<Rightarrow> (m, tot)
            | Some oldest \<Rightarrow> evict cfg (jm_delete oldest m) (tot - (case jm_get m oldest of Some e \<Rightarrow> int (ce_sizeBytes e) | None \<Rightarrow> 0)))
      else (m, tot))"
  by pat_completeness auto
termination
  by (relation "measure (\<lambda>(_, m, _). length m)") (auto simp: hd_opt_def jm_delete_def less_Suc_eq_le length_delete_le split: list.splits)

declare evict.simps [simp del]

definition captured_headers :: "headers \<Rightarrow> headers" where
  "captured_headers h = filter (\<lambda>(name, _). name \<noteq> ''x-cache'') h @ map (\<lambda>v. (''set-cookie'', v)) (h_values h ''set-cookie'')"

text \<open>The entry a response gives, None when it is not captured; with the state of the warning.\<close>

definition capture :: "cache_config \<Rightarrow> cache_request \<Rightarrow> cache_response option \<Rightarrow> int \<Rightarrow> bool \<Rightarrow> cache_entry option \<times> bool" where
  "capture cfg c response now warned =
     (if ''no-store'' \<in> cacheControlTokens (cq_header c ''cache-control'') then (None, warned)
      else case response of None \<Rightarrow> (None, warned)
      | Some res \<Rightarrow>
          (case eligible c res warned of
             (False, w) \<Rightarrow> (None, w)
           | (True, w) \<Rightarrow>
               if \<not> cr_snapshot res then (None, w)
               else (case captureBody res of
                   None \<Rightarrow> (None, w)
                 | Some body \<Rightarrow>
                     (let sizeBytes = length (body_bytes body) in
                      if sizeBytes = 0 then (None, w)
                      else if cc_maxEntryBytes cfg < sizeBytes then (None, w)
                      else (Some \<lparr>ce_expires = now + cc_ttl cfg, ce_body = body, ce_headers = captured_headers (cr_headers res), ce_sizeBytes = sizeBytes\<rparr>, w)))))"

definition cache_store :: "cache_config \<Rightarrow> string \<Rightarrow> cache_entry \<Rightarrow> cache_state \<Rightarrow> cache_state" where
  "cache_store cfg key entry st =
     (let total1 = (case jm_get (cs_store st) key of Some previous \<Rightarrow> cs_totalBytes st - int (ce_sizeBytes previous) | None \<Rightarrow> cs_totalBytes st);
          (m, total2) = evict cfg (jm_set key entry (cs_store st)) (total1 + int (ce_sizeBytes entry)) in
      st\<lparr>cs_store := m, cs_totalBytes := total2\<rparr>)"

definition cache_finish :: "cache_config \<Rightarrow> cache_request \<Rightarrow> cache_response option \<Rightarrow> int \<Rightarrow> cache_state \<Rightarrow> cache_state" where
  "cache_finish cfg c response now st =
     (case capture cfg c response now (cs_warnedVary st) of
        (None, w) \<Rightarrow> st\<lparr>cs_warnedVary := w\<rparr>
      | (Some entry, w) \<Rightarrow> cache_store cfg (keyOf cfg c) entry (st\<lparr>cs_warnedVary := w\<rparr>))"
end
