(* ===== verification/CacheCorrect.thy ===== *)
theory CacheCorrect
  imports Cache
begin

text \<open>
  The response cache over runs: any interleaving of lookups, captures and failed handlers. Both budgets hold in every
  state, every stored entry comes from an eligible capture under its own key, and keys determine host, path and query.
\<close>

section \<open>Runs\<close>

text \<open>Requests as the runtime delivers them: no line break in the method or the host, and a path that ends where the
  query begins.\<close>

definition plain_request :: "cache_request \<Rightarrow> bool" where
  "plain_request c \<longleftrightarrow> CHR 0x0A \<notin> set (cq_method c) \<and> CHR 0x0A \<notin> set (cq_host c) \<and> CHR ''?'' \<notin> set (cq_path c)"

datatype cache_event =
    Looked cache_request int lookup
  | Finished cache_request "cache_response option" int
  | Threw cache_request

text \<open>Requests interleave at the two points where the middleware awaits: a request that missed is pending until its
  handler is done, and other requests are looked up and stored meanwhile.\<close>

inductive cache_run :: "cache_config \<Rightarrow> cache_event list \<Rightarrow> cache_state \<Rightarrow> cache_request list \<Rightarrow> bool" for cfg where
  run_start: "cache_run cfg [] fresh_cache []"
| run_lookup: "cache_run cfg tr st ps \<Longrightarrow> plain_request c \<Longrightarrow> cache_lookup cfg c now st = (r, st') \<Longrightarrow>
    cache_run cfg (tr @ [Looked c now r]) st' (if r = Missed then c # ps else ps)"
| run_finish: "cache_run cfg tr st ps \<Longrightarrow> c \<in> set ps \<Longrightarrow>
    cache_run cfg (tr @ [Finished c response now]) (cache_finish cfg c response now st) (remove1 c ps)"
| run_throw: "cache_run cfg tr st ps \<Longrightarrow> c \<in> set ps \<Longrightarrow> cache_run cfg (tr @ [Threw c]) st (remove1 c ps)"

section \<open>Budgets\<close>

definition stored_bytes :: "(string, cache_entry) js_map \<Rightarrow> int" where
  "stored_bytes m = sum_list (map (\<lambda>(_, e). int (ce_sizeBytes e)) m)"

definition counts_bytes :: "cache_state \<Rightarrow> bool" where
  "counts_bytes st \<longleftrightarrow> jm_wf (cs_store st) \<and> cs_totalBytes st = stored_bytes (cs_store st)"

definition within_budget :: "cache_config \<Rightarrow> cache_state \<Rightarrow> bool" where
  "within_budget cfg st \<longleftrightarrow> counts_bytes st \<and> length (cs_store st) \<le> cc_max cfg \<and> cs_totalBytes st \<le> int (cc_maxBytes cfg)"

lemma stored_bytes_simps [simp]: "stored_bytes [] = 0" "stored_bytes ((k, e) # m) = int (ce_sizeBytes e) + stored_bytes m"
  by (simp_all add: stored_bytes_def)

lemma stored_bytes_nonneg: "0 \<le> stored_bytes m"
  by (auto simp: stored_bytes_def intro!: sum_list_nonneg)

definition entry_bytes :: "cache_entry option \<Rightarrow> int" where
  "entry_bytes e = (case e of Some x \<Rightarrow> int (ce_sizeBytes x) | None \<Rightarrow> 0)"

lemma stored_bytes_set: "jm_wf m \<Longrightarrow> stored_bytes (jm_set k e m) = stored_bytes m - entry_bytes (jm_get m k) + int (ce_sizeBytes e)"
  by (induction m) (auto simp: jm_set_def entry_bytes_def)

lemma delete_absent: "k \<notin> fst ` set m \<Longrightarrow> jm_delete k m = m"
  by (simp add: jm_delete_def AList.delete_id)

lemma get_absent: "k \<notin> fst ` set m \<Longrightarrow> jm_get m k = None"
  using jm.keys_get [of k m] by auto

lemma stored_bytes_delete: "jm_wf m \<Longrightarrow> stored_bytes (jm_delete k m) = stored_bytes m - entry_bytes (jm_get m k)"
proof (induction m)
  case (Cons p m)
  obtain j e where p: "p = (j, e)" by (cases p)
  show ?case
  proof (cases "j = k")
    case True
    then show ?thesis using Cons.prems by (simp add: p js_simps entry_bytes_def delete_absent)
  next
    case False
    then show ?thesis using Cons by (simp add: p js_simps)
  qed
qed (simp add: js_simps entry_bytes_def)

lemma evict_Nil [simp]: "evict cfg [] tot = ([], tot)"
  by (subst evict.simps) simp

lemma evict_Cons:
  "k \<notin> fst ` set m \<Longrightarrow> evict cfg ((k, e) # m) tot =
    (if cc_max cfg < Suc (length m) \<or> int (cc_maxBytes cfg) < tot then evict cfg m (tot - int (ce_sizeBytes e)) else ((k, e) # m, tot))"
  by (subst evict.simps) (simp add: js_simps delete_absent)

text \<open>Eviction drops a front part, keeps the count and ends within both budgets.\<close>

lemma evict_keeps:
  "jm_wf m \<Longrightarrow> suffix (fst (evict cfg m (stored_bytes m))) m
    \<and> snd (evict cfg m (stored_bytes m)) = stored_bytes (fst (evict cfg m (stored_bytes m)))
    \<and> length (fst (evict cfg m (stored_bytes m))) \<le> cc_max cfg
    \<and> snd (evict cfg m (stored_bytes m)) \<le> int (cc_maxBytes cfg)"
proof (induction m)
  case (Cons p m)
  obtain k e where p: "p = (k, e)" by (cases p)
  then show ?case using Cons by (auto simp: evict_Cons suffix_ConsI)
qed simp

lemma suffix_wf: "suffix m' m \<Longrightarrow> jm_wf m \<Longrightarrow> jm_wf m'"
  by (auto simp: suffix_def)

lemma filter_remove1: "distinct xs \<Longrightarrow> filter (\<lambda>x. x \<noteq> k) xs = remove1 k xs"
proof -
  assume "distinct xs"
  moreover have "filter (\<lambda>x. x \<noteq> k) xs = removeAll k xs" by (induction xs) auto
  ultimately show ?thesis by (simp add: distinct_remove1_removeAll)
qed

lemma touch_bytes:
  assumes "jm_wf m" and "jm_get m k = Some e"
  shows "stored_bytes (jm_set k e (jm_delete k m)) = stored_bytes m \<and> length (jm_set k e (jm_delete k m)) = length m"
proof -
  have "k \<in> set (jm_keys m)" using assms(2) jm.keys_get [of k m] by simp
  then have ne: "m \<noteq> []" and f: "length (filter (\<lambda>x. x \<noteq> k) (jm_keys m)) = length m - 1"
    unfolding filter_remove1 [OF assms(1)] length_remove1 [of k "jm_keys m"] by (cases m; simp)+
  have "length (jm_keys (jm_set k e (jm_delete k m))) = length m"
    unfolding jm.keys_touch [OF assms, of e] using ne f by (cases m) simp_all
  then show ?thesis using assms stored_bytes_delete [OF assms(1), of k] stored_bytes_set [of "jm_delete k m" k e] jm.inv_del [OF assms(1), of k]
    by (simp add: entry_bytes_def)
qed

lemma cache_lookup_cases:
  assumes "cache_lookup cfg c now st = (r, st')"
  shows "(st' = st \<and> (\<forall>h. r \<noteq> Hit h)) \<or>
    (\<exists>e. jm_get (cs_store st) (keyOf cfg c) = Some e \<and>
      ((r = Hit (replay c e) \<and> now < ce_expires e \<and> cq_header c ''authorization'' = [] \<and> cq_header c ''cookie'' = [] \<and>
         (cc_includeQuery cfg \<or> cq_querystring c = []) \<and>
         st' = st\<lparr>cs_store := jm_set (keyOf cfg c) e (jm_delete (keyOf cfg c) (cs_store st))\<rparr>) \<or>
       (r = Missed \<and> st' = st\<lparr>cs_store := jm_delete (keyOf cfg c) (cs_store st), cs_totalBytes := cs_totalBytes st - int (ce_sizeBytes e)\<rparr>)))"
proof (cases "\<not> cc_includeQuery cfg \<and> 0 < length (cq_querystring c)")
  case True
  then show ?thesis using assms by (simp add: cache_lookup_def)
next
  case q: False
  note lookup = assms [unfolded cache_lookup_def if_not_P [OF q] Let_def storeHit_def]
  show ?thesis
  proof (cases "jm_get (cs_store st) (keyOf cfg c)")
    case None
    then show ?thesis using lookup by (auto split: if_splits)
  next
    case (Some e)
    then show ?thesis using lookup q by (auto split: if_splits)
  qed
qed

lemma lookup_within:
  assumes "within_budget cfg st" and "cache_lookup cfg c now st = (r, st')"
  shows "within_budget cfg st'"
proof -
  have wf: "jm_wf (cs_store st)" "cs_totalBytes st = stored_bytes (cs_store st)" "length (cs_store st) \<le> cc_max cfg"
    "cs_totalBytes st \<le> int (cc_maxBytes cfg)" using assms(1) by (auto simp: within_budget_def counts_bytes_def)
  consider "st' = st"
    | e where "jm_get (cs_store st) (keyOf cfg c) = Some e" "st' = st\<lparr>cs_store := jm_set (keyOf cfg c) e (jm_delete (keyOf cfg c) (cs_store st))\<rparr>"
    | e where "jm_get (cs_store st) (keyOf cfg c) = Some e"
        "st' = st\<lparr>cs_store := jm_delete (keyOf cfg c) (cs_store st), cs_totalBytes := cs_totalBytes st - int (ce_sizeBytes e)\<rparr>"
    using cache_lookup_cases [OF assms(2)] by blast
  then show ?thesis
  proof cases
    case 1
    then show ?thesis using assms(1) by simp
  next
    case (2 e)
    then show ?thesis using wf touch_bytes [OF wf(1) 2(1)] jm.inv_put [OF jm.inv_del [OF wf(1)]]
      by (simp add: within_budget_def counts_bytes_def)
  next
    case (3 e)
    then show ?thesis using wf stored_bytes_delete [OF wf(1), of "keyOf cfg c"] jm.inv_del [OF wf(1), of "keyOf cfg c"]
        length_delete_le [of "keyOf cfg c" "cs_store st"]
      by (simp add: within_budget_def counts_bytes_def entry_bytes_def jm_delete_def)
  qed
qed

lemma store_within:
  assumes "within_budget cfg st"
  shows "within_budget cfg (cache_store cfg k e st)"
proof -
  let ?m = "jm_set k e (cs_store st)"
  have wf: "jm_wf (cs_store st)" "cs_totalBytes st = stored_bytes (cs_store st)" using assms by (auto simp: within_budget_def counts_bytes_def)
  have tot: "(case jm_get (cs_store st) k of Some previous \<Rightarrow> cs_totalBytes st - int (ce_sizeBytes previous) | None \<Rightarrow> cs_totalBytes st)
      + int (ce_sizeBytes e) = stored_bytes ?m"
    using stored_bytes_set [OF wf(1), of k e] wf(2) by (simp add: entry_bytes_def split: option.splits)
  have "jm_wf ?m" using jm.inv_put [OF wf(1)] .
  from evict_keeps [OF this, of cfg] suffix_wf [OF _ this]
  show ?thesis unfolding cache_store_def Let_def tot by (auto simp: within_budget_def counts_bytes_def case_prod_beta)
qed

lemma within_warned: "within_budget cfg (st\<lparr>cs_warnedVary := w\<rparr>) = within_budget cfg st"
  by (simp add: within_budget_def counts_bytes_def)

lemma finish_within: "within_budget cfg st \<Longrightarrow> within_budget cfg (cache_finish cfg c response now st)"
  by (auto simp: cache_finish_def within_warned intro!: store_within split: prod.splits option.splits)

text \<open>C32: However requests interleave, the store never holds more entries or more bytes than its budgets, its keys
  are distinct, and the running count is the number of bytes stored.\<close>

theorem cache_within_budget:
  "cache_run cfg tr st ps \<Longrightarrow>
     jm_wf (cs_store st) \<and> cs_totalBytes st = stored_bytes (cs_store st) \<and> length (cs_store st) \<le> cc_max cfg
     \<and> cs_totalBytes st \<le> int (cc_maxBytes cfg)"
proof -
  assume "cache_run cfg tr st ps"
  then have "within_budget cfg st"
  proof (induction rule: cache_run.induct)
    case run_start
    show ?case by (simp add: fresh_cache_def within_budget_def counts_bytes_def)
  qed (auto intro: lookup_within finish_within)
  then show ?thesis by (simp add: within_budget_def counts_bytes_def)
qed
section \<open>Keys\<close>

lemma keyOf_same:
  assumes "keyOf cfg c = keyOf cfg d" and "plain_request c" and "plain_request d"
    and "cc_includeQuery cfg \<or> cq_querystring c = []" and "cc_includeQuery cfg \<or> cq_querystring d = []"
  shows "(if cq_method c = ''HEAD'' then ''GET'' else cq_method c) = (if cq_method d = ''HEAD'' then ''GET'' else cq_method d)
    \<and> cq_host c = cq_host d \<and> cq_path c = cq_path d \<and> cq_querystring c = cq_querystring d"
proof -
  let ?m = "\<lambda>c. if cq_method c = ''HEAD'' then ''GET'' else cq_method c"
  let ?t = "\<lambda>c. if cc_includeQuery cfg then cq_path c @ ''?'' @ cq_querystring c else cq_path c"
  have nl: "CHR 0x0A \<notin> set (?m c)" "CHR 0x0A \<notin> set (?m d)" "CHR 0x0A \<notin> set (cq_host c)" "CHR 0x0A \<notin> set (cq_host d)"
    "CHR ''?'' \<notin> set (cq_path c)" "CHR ''?'' \<notin> set (cq_path d)"
    using assms(2,3) by (auto simp: plain_request_def)
  have key: "?m c @ CHR 0x0A # (cq_host c @ CHR 0x0A # ?t c) = ?m d @ CHR 0x0A # (cq_host d @ CHR 0x0A # ?t d)"
    using assms(1) by (simp add: keyOf_def Let_def)
  have m: "?m c = ?m d" "cq_host c @ CHR 0x0A # ?t c = cq_host d @ CHR 0x0A # ?t d"
    using append_sep_inj [OF nl(1,2) key] by blast+
  have t: "cq_host c = cq_host d" "?t c = ?t d" using append_sep_inj [OF nl(3,4) m(2)] by blast+
  have "cq_path c = cq_path d \<and> cq_querystring c = cq_querystring d"
  proof (cases "cc_includeQuery cfg")
    case True
    then show ?thesis using append_sep_inj [OF nl(5,6), of "cq_querystring c" "cq_querystring d"] t(2) by simp
  next
    case False
    then show ?thesis using t(2) assms(4,5) by simp
  qed
  then show ?thesis using m(1) t(1) by simp
qed

section \<open>Provenance\<close>

lemma eligible_warned: "fst (eligible c res w) = fst (eligible c res w')"
  by (simp add: eligible_def Let_def)

lemma eligible_anonymous:
  "fst (eligible c res w) \<Longrightarrow> (cq_method c = ''GET'' \<or> cq_method c = ''HEAD'') \<and> cr_status res = 200 \<and> cq_header c ''authorization'' = []
     \<and> cq_header c ''cookie'' = [] \<and> \<not> cq_cookies_touched c \<and> h_values (cr_headers res) ''set-cookie'' = []
     \<and> h_get (cr_headers res) ''vary'' = None"
  by (auto simp: eligible_def Let_def split: if_splits)

text \<open>The entry made of a response at a time.\<close>

definition entry_of :: "cache_config \<Rightarrow> cache_response \<Rightarrow> cache_body \<Rightarrow> int \<Rightarrow> cache_entry" where
  "entry_of cfg res body now =
     \<lparr>ce_expires = now + cc_ttl cfg, ce_body = body, ce_headers = captured_headers (cr_headers res), ce_sizeBytes = length (body_bytes body)\<rparr>"

lemma capture_Some:
  assumes "capture cfg c response now w = (Some e, w')"
  shows "\<exists>res body. response = Some res \<and> ''no-store'' \<notin> cacheControlTokens (cq_header c ''cache-control'') \<and> fst (eligible c res True)
    \<and> cr_snapshot res \<and> captureBody res = Some body \<and> e = entry_of cfg res body now"
proof (cases response)
  case None
  then show ?thesis using assms by (simp add: capture_def split: if_splits)
next
  case (Some res)
  obtain b v where el: "eligible c res w = (b, v)" by (cases "eligible c res w")
  then have "fst (eligible c res True) = b" using eligible_warned [of c res True w] by simp
  then show ?thesis
    using assms Some el by (auto simp: capture_def entry_of_def Let_def split: if_splits bool.splits option.splits)
qed

definition stored_by :: "cache_config \<Rightarrow> cache_event list \<Rightarrow> string \<Rightarrow> cache_entry \<Rightarrow> bool" where
  "stored_by cfg tr k e \<longleftrightarrow>
     (\<exists>c res now body. Finished c (Some res) now \<in> set tr \<and> k = keyOf cfg c \<and> plain_request c
        \<and> (cc_includeQuery cfg \<or> cq_querystring c = []) \<and> ''no-store'' \<notin> cacheControlTokens (cq_header c ''cache-control'')
        \<and> fst (eligible c res True) \<and> cr_snapshot res \<and> captureBody res = Some body \<and> e = entry_of cfg res body now)"

lemma stored_by_later: "stored_by cfg tr k e \<Longrightarrow> stored_by cfg (tr @ tr') k e"
  by (auto simp: stored_by_def)

lemma lookup_missed: "cache_lookup cfg c now st = (Missed, st') \<Longrightarrow> cc_includeQuery cfg \<or> cq_querystring c = []"
  by (auto simp: cache_lookup_def split: if_splits)

lemma get_suffix: "suffix m' m \<Longrightarrow> jm_wf m \<Longrightarrow> jm_get m' k = Some e \<Longrightarrow> jm_get m k = Some e"
  by (auto simp: suffix_def jm_get_def)

lemma evict_get:
  assumes "jm_wf m" and "jm_get (fst (evict cfg m (stored_bytes m))) k = Some e"
  shows "jm_get m k = Some e"
  using evict_keeps [OF assms(1), of cfg] get_suffix [OF _ assms] by blast

lemma store_get:
  assumes "jm_wf (cs_store st)" and "cs_totalBytes st = stored_bytes (cs_store st)" and "jm_get (cs_store (cache_store cfg k e st)) j = Some x"
  shows "(j = k \<and> x = e) \<or> jm_get (cs_store st) j = Some x"
proof -
  let ?m = "jm_set k e (cs_store st)"
  have "(case jm_get (cs_store st) k of Some previous \<Rightarrow> cs_totalBytes st - int (ce_sizeBytes previous) | None \<Rightarrow> cs_totalBytes st)
      + int (ce_sizeBytes e) = stored_bytes ?m"
    using stored_bytes_set [OF assms(1), of k e] assms(2) by (simp add: entry_bytes_def split: option.splits)
  then have "jm_get (fst (evict cfg ?m (stored_bytes ?m))) j = Some x"
    using assms(3) by (simp add: cache_store_def Let_def case_prod_beta)
  from evict_get [OF jm.inv_put [OF assms(1)] this] show ?thesis by (auto split: if_splits)
qed

lemma finish_get:
  assumes "jm_wf (cs_store st)" and "cs_totalBytes st = stored_bytes (cs_store st)"
    and "jm_get (cs_store (cache_finish cfg c response now st)) j = Some x"
  shows "jm_get (cs_store st) j = Some x \<or> (j = keyOf cfg c \<and> (\<exists>w w'. capture cfg c response now w = (Some x, w')))"
proof (cases "capture cfg c response now (cs_warnedVary st)")
  case (Pair r w)
  show ?thesis
  proof (cases r)
    case None
    then show ?thesis using Pair assms(3) by (simp add: cache_finish_def)
  next
    case (Some e)
    then show ?thesis using Pair assms store_get [of "st\<lparr>cs_warnedVary := w\<rparr>" cfg "keyOf cfg c" e j x]
      by (auto simp: cache_finish_def)
  qed
qed

lemma run_traced: "cache_run cfg tr st ps \<Longrightarrow> within_budget cfg st \<and>
  (\<forall>k e. jm_get (cs_store st) k = Some e \<longrightarrow> stored_by cfg tr k e) \<and>
  (\<forall>c \<in> set ps. plain_request c \<and> (cc_includeQuery cfg \<or> cq_querystring c = []))"
proof (induction rule: cache_run.induct)
  case run_start
  show ?case by (simp add: fresh_cache_def within_budget_def counts_bytes_def)
next
  case (run_lookup tr st ps c now r st')
  have "stored_by cfg (tr @ [Looked c now r]) k e" if get: "jm_get (cs_store st') k = Some e" for k e
  proof -
    have "jm_get (cs_store st) k = Some e" using cache_lookup_cases [OF run_lookup(3)] get by (auto split: if_splits)
    then show ?thesis using run_lookup.IH stored_by_later by blast
  qed
  moreover have "within_budget cfg st'" using lookup_within [OF _ run_lookup(3)] run_lookup.IH by blast
  moreover have "r = Missed \<Longrightarrow> cc_includeQuery cfg \<or> cq_querystring c = []" using lookup_missed run_lookup(3) by blast
  ultimately show ?case using run_lookup.IH run_lookup(2) by auto
next
  case (run_finish tr st ps c response now)
  have wf: "jm_wf (cs_store st)" "cs_totalBytes st = stored_bytes (cs_store st)" using run_finish.IH by (auto simp: within_budget_def counts_bytes_def)
  have "stored_by cfg (tr @ [Finished c response now]) k e" if get: "jm_get (cs_store (cache_finish cfg c response now st)) k = Some e" for k e
    using finish_get [OF wf get]
  proof
    assume "jm_get (cs_store st) k = Some e"
    then show ?thesis using run_finish.IH stored_by_later by blast
  next
    assume "k = keyOf cfg c \<and> (\<exists>w w'. capture cfg c response now w = (Some e, w'))"
    then obtain w w' where k: "k = keyOf cfg c" and "capture cfg c response now w = (Some e, w')" by blast
    from capture_Some [OF this(2)] obtain res body where "response = Some res" "''no-store'' \<notin> cacheControlTokens (cq_header c ''cache-control'')"
      "fst (eligible c res True)" "cr_snapshot res" "captureBody res = Some body" "e = entry_of cfg res body now" by blast
    then show ?thesis unfolding stored_by_def using k run_finish.hyps(2) run_finish.IH
      by (intro exI [of _ c] exI [of _ res] exI [of _ now] exI [of _ body]) simp
  qed
  moreover have "within_budget cfg (cache_finish cfg c response now st)" using finish_within run_finish.IH by blast
  ultimately show ?case using run_finish.IH by (auto dest: subsetD [OF set_remove1_subset])
next
  case (run_throw tr st ps c)
  then show ?case using stored_by_later by (auto dest: subsetD [OF set_remove1_subset])
qed

inductive_cases run_last_lookup: "cache_run cfg (tr @ [Looked c now r]) st ps"


section \<open>Examples\<close>

definition get_request :: "string \<Rightarrow> string \<Rightarrow> cache_request" where
  "get_request host path = \<lparr>cq_method = ''GET'', cq_host = host, cq_path = path, cq_querystring = [], cq_header = (\<lambda>_. []),
     cq_cookies_touched = False, cq_development = False\<rparr>"

definition text_response :: "string \<Rightarrow> cache_response" where
  "text_response t = \<lparr>cr_status = 200, cr_headers = [(''content-type'', ''text/plain'')], cr_snapshot = True, cr_text = Some t, cr_raw = Some t\<rparr>"

definition small_cache :: cache_config where
  "small_cache = \<lparr>cc_ttl = 1000, cc_max = 8, cc_maxBytes = 10, cc_maxEntryBytes = 9, cc_includeQuery = False\<rparr>"

text \<open>One request is served and captured, and the next is answered from the store.\<close>

definition first_store :: cache_state where
  "first_store = cache_finish small_cache (get_request ''a'' ''/x'') (Some (text_response ''body'')) 5 fresh_cache"

lemma plain_get: "CHR 0x0A \<notin> set host \<Longrightarrow> CHR ''?'' \<notin> set path \<Longrightarrow> plain_request (get_request host path)"
  by (simp add: plain_request_def get_request_def)

lemma first_lookup: "cache_lookup small_cache (get_request ''a'' ''/x'') 0 fresh_cache = (Missed, fresh_cache)"
  by code_simp

lemma second_lookup:
  "cache_lookup small_cache (get_request ''a'' ''/x'') 1004 first_store =
     (Hit \<lparr>hr_status = 200, hr_headers = [(''content-type'', ''text/plain''), (''x-cache'', ''hit'')], hr_body = Some (CText ''body'')\<rparr>, first_store)"
  by code_simp

lemma second_run:
  "cache_run small_cache ([Looked (get_request ''a'' ''/x'') 0 Missed, Finished (get_request ''a'' ''/x'') (Some (text_response ''body'')) 5]
     @ [Looked (get_request ''a'' ''/x'') 1004
         (Hit \<lparr>hr_status = 200, hr_headers = [(''content-type'', ''text/plain''), (''x-cache'', ''hit'')], hr_body = Some (CText ''body'')\<rparr>)])
     first_store []"
proof -
  let ?c = "get_request ''a'' ''/x''"
  have plain: "plain_request ?c" by (rule plain_get) simp_all
  have 1: "cache_run small_cache [Looked ?c 0 Missed] fresh_cache [?c]"
    using run_lookup [OF run_start plain first_lookup] by simp
  have 2: "cache_run small_cache [Looked ?c 0 Missed, Finished ?c (Some (text_response ''body'')) 5] first_store []"
    using run_finish [OF 1, of ?c "Some (text_response ''body'')" 5] by (simp add: first_store_def)
  show ?thesis using run_lookup [OF 2 plain second_lookup] by simp
qed


theorem cache_within_budget_witness:
  "length (cs_store first_store) \<le> 8 \<and> cs_totalBytes first_store \<le> 10"
  using cache_within_budget [OF second_run] by (simp add: small_cache_def)

text \<open>Storing again under a key keeps the key's place in the map, so the entry just stored can be the one evicted.\<close>

lemma refreshed_entry_evicted:
  "let a = get_request ''a'' ''/x''; b = get_request ''a'' ''/y'';
       st1 = cache_finish small_cache a (Some (text_response ''one'')) 1 fresh_cache;
       st2 = cache_finish small_cache b (Some (text_response ''five5'')) 2 st1;
       st3 = cache_finish small_cache a (Some (text_response ''sixsix'')) 3 st2
   in jm_get (cs_store st3) (keyOf small_cache a) = None \<and> jm_get (cs_store st3) (keyOf small_cache b) \<noteq> None"
  by code_simp
end
