(* ===== verification/ContextPool.thy ===== *)
theory ContextPool
  imports Prelude "HOL-Library.Word"
begin

text \<open>
  Context objects and their pool: src/core/context/context.ts (the prototype's defaults, creation and reset),
  decorate.ts, pool.ts and src/core/branches.ts. An object is its own properties over two prototypes, the app's and the
  shared one. The pool is a step relation over the runs of the contexts: the levels of the middleware chain, the
  branches the chain left floating, the body the consumer reads and the deadline. A level calls \<open>next()\<close> while it
  runs: a handler that keeps \<open>next\<close> and calls it after its return is outside the guarantee the code gives.
\<close>

unbundle bit_operations_syntax

section \<open>Context objects\<close>

text \<open>Property keys, and what a slot holds; the parameter stands for the values handlers store.\<close>

datatype prop_key = PStr string | PSym nat

datatype 'v slot = Undefined | Null | Number int | Text string | Names "string list" | Flag bool | Stored 'v

datatype 'v member = Data "'v slot" | Accessor 'v

definition BRANCHES :: prop_key where "BRANCHES = PSym 0"

definition DEV_CHAIN :: int where "DEV_CHAIN = 512"

definition CONTEXT_DEFAULTS :: "(string \<times> 'v slot) list" where
  "CONTEXT_DEFAULTS = [
    (''runtimeValue'', Undefined), (''pathValue'', Null), (''urlValue'', Null), (''ipValue'', Null), (''allowedValue'', Null),
    (''paramNames'', Names []), (''paramValues'', Names []), (''paramOffset'', Number 0), (''routePath'', Text []),
    (''routeName'', Undefined), (''querystringValue'', Null), (''urlObjectValue'', Null), (''hostValue'', Null),
    (''statusValue'', Number 404), (''headersRecord'', Null), (''flags'', Number 0), (''_res'', Undefined),
    (''directBodyResponseValue'', Undefined), (''stateValue'', Null), (''cookiesValue'', Null), (''bodyCache'', Undefined),
    (''validValue'', Undefined), (''abortValue'', Undefined), (''deadlineAnswered'', Flag False)]"

text \<open>The members of the shared prototype that are no slots: the accessors and methods of the request, response and
  context objects, and what every object inherits.\<close>

definition API_MEMBERS :: "string list" where
  "API_MEMBERS = [
    ''raw'', ''signal'', ''method'', ''url'', ''path'', ''querystring'', ''search'', ''query'', ''queries'', ''URL'', ''headers'',
    ''runtime'', ''header'', ''host'', ''protocol'', ''secure'', ''ip'', ''origin'', ''href'', ''fresh'', ''stale'', ''idempotent'',
    ''reqLength'', ''is'', ''accepts'', ''acceptsEncodings'', ''status'', ''redirect'', ''setHeader'', ''append'', ''remove'', ''has'',
    ''resHeader'', ''text'', ''json'', ''html'', ''app'', ''state'', ''routerAllowed'', ''params'', ''throw'', ''assert'',
    ''constructor'', ''__defineGetter__'', ''__defineSetter__'', ''hasOwnProperty'', ''__lookupGetter__'', ''__lookupSetter__'',
    ''isPrototypeOf'', ''propertyIsEnumerable'', ''toString'', ''valueOf'', ''__proto__'', ''toLocaleString'']"

definition CONTEXT_SLOT_KEYS :: "string list" where
  "CONTEXT_SLOT_KEYS = map fst (CONTEXT_DEFAULTS :: (string \<times> unit slot) list)"

definition INTERNAL_SLOTS :: "string list" where
  "INTERNAL_SLOTS = CONTEXT_SLOT_KEYS @ [''appValue'', ''appSettings'', ''rawRequest'', ''runtimeValue'']"

text \<open>An app's prototype has its own members over the shared ones.\<close>

type_synonym 'v context_proto = "(string, 'v member) js_map"

definition app_proto :: "bool \<Rightarrow> 'v \<Rightarrow> 'v \<Rightarrow> 'v context_proto" where
  "app_proto dev app settings =
     [(''appValue'', Data (Stored app)), (''appSettings'', Data (Stored settings)), (''flags'', Data (Number (if dev then DEV_CHAIN else 0)))]"

text \<open>A context object: its own properties, and whether its prototype is the retired one.\<close>

record 'v context_object =
  co_own :: "(prop_key, 'v slot) js_map"
  co_retired :: bool

text \<open>Reading a property that is no member of the API: own, then the app's prototype, then the shared defaults. None is
  a property the object does not have.\<close>

definition read_prop :: "'v context_proto \<Rightarrow> 'v context_object \<Rightarrow> prop_key \<Rightarrow> 'v member option" where
  "read_prop proto c k =
     (case jm_get (co_own c) k of
        Some v \<Rightarrow> Some (Data v)
      | None \<Rightarrow>
          (case k of
             PSym _ \<Rightarrow> None
           | PStr s \<Rightarrow> (case jm_get proto s of Some m \<Rightarrow> Some m | None \<Rightarrow> map_option Data (map_of CONTEXT_DEFAULTS s))))"

definition write_prop :: "prop_key \<Rightarrow> 'v slot \<Rightarrow> 'v context_object \<Rightarrow> 'v context_object" where
  "write_prop k v c = c\<lparr>co_own := jm_set k v (co_own c)\<rparr>"

definition delete_prop :: "prop_key \<Rightarrow> 'v context_object \<Rightarrow> 'v context_object" where
  "delete_prop k c = c\<lparr>co_own := jm_delete k (co_own c)\<rparr>"

text \<open>\<open>c.flags |= FLAG_DEV_CHAIN\<close>: an operand that is no number counts as 0.\<close>

definition set_dev_flag :: "'v context_proto \<Rightarrow> 'v context_object \<Rightarrow> 'v context_object" where
  "set_dev_flag proto c =
     (let flags = (case read_prop proto c (PStr ''flags'') of Some (Data (Number n)) \<Rightarrow> n | _ \<Rightarrow> 0) in
      write_prop (PStr ''flags'') (Number (flags OR DEV_CHAIN)) c)"

section \<open>Creating and resetting\<close>

definition set_runtime :: "'v option \<Rightarrow> 'v context_object \<Rightarrow> 'v context_object" where
  "set_runtime runtime c = (case runtime of None \<Rightarrow> c | Some r \<Rightarrow> write_prop (PStr ''runtimeValue'') (Stored r) c)"

definition bound_context :: "'v \<Rightarrow> 'v option \<Rightarrow> 'v context_object" where
  "bound_context raw runtime = set_runtime runtime (write_prop (PStr ''rawRequest'') (Stored raw) \<lparr>co_own = [], co_retired = False\<rparr>)"

definition foreign_key :: "prop_key \<Rightarrow> bool" where
  "foreign_key k = (case k of PSym _ \<Rightarrow> True | PStr s \<Rightarrow> s \<notin> set INTERNAL_SLOTS)"

definition sweepForeignKeys :: "'v context_object \<Rightarrow> 'v context_object" where
  "sweepForeignKeys c = fold (\<lambda>k c. if foreign_key k then delete_prop k c else c) (jm_keys (co_own c)) c"

definition clearBranches :: "'v context_object \<Rightarrow> 'v context_object" where
  "clearBranches c = delete_prop BRANCHES c"

definition clearRequestSlots :: "'v context_object \<Rightarrow> 'v context_object" where
  "clearRequestSlots c = clearBranches (fold (\<lambda>(k, v) c. write_prop (PStr k) v c) CONTEXT_DEFAULTS c)"

text \<open>\<open>dev\<close> is \<open>c.appValue.env === "development"\<close>.\<close>

definition resetContext :: "'v context_proto \<Rightarrow> bool \<Rightarrow> 'v context_object \<Rightarrow> 'v \<Rightarrow> 'v option \<Rightarrow> 'v context_object" where
  "resetContext proto dev c raw runtime =
     (let c1 = clearRequestSlots (sweepForeignKeys c);
          c2 = (if dev then set_dev_flag proto c1 else c1) in
      set_runtime runtime (write_prop (PStr ''rawRequest'') (Stored raw) c2))"

section \<open>Decorations\<close>

text \<open>\<open>contextSlots\<close> is the own keys of a context of the app: the request slot, since the other slots it assigns equal
  those of the prototype.\<close>

definition guard :: "string \<Rightarrow> 'v context_proto \<Rightarrow> string \<Rightarrow> unit res" where
  "guard key proto api =
     (if length key = 0 then throw (TypeError (api @ ''() requires a non-empty key''))
      else if key = ''rawRequest'' \<or> key \<in> set CONTEXT_SLOT_KEYS \<or> key \<in> set API_MEMBERS \<or> jm_has proto key
      then throw (TypeError (api @ ''(): \"'' @ key @ ''\" is already defined on the context '' @ [CHR 0xE2, CHR 0x80, CHR 0x94] @ '' pick a distinct key''))
      else ok ())"

definition decorate :: "string \<Rightarrow> 'v slot \<Rightarrow> 'v context_proto \<Rightarrow> 'v context_proto res" where
  "decorate key v proto = res_bind (guard key proto ''app.decorate'') (\<lambda>_. ok (jm_set key (Data v) proto))"

definition decorateLazy :: "string \<Rightarrow> 'v \<Rightarrow> 'v context_proto \<Rightarrow> 'v context_proto res" where
  "decorateLazy key getter proto = res_bind (guard key proto ''app.decorateLazy'') (\<lambda>_. ok (jm_set key (Accessor getter) proto))"

section \<open>The retired surface\<close>

text \<open>A retired context refuses the accessors and methods that write; reads go on to the live prototype.\<close>

definition RETIRED :: string where
  "RETIRED = ''context retired: do not retain contexts past the request lifetime''"

datatype member_use = AssignTo string | Call string

definition deadProtoFor :: "'v context_object \<Rightarrow> member_use \<Rightarrow> unit res" where
  "deadProtoFor c u =
     (if co_retired c \<and> (case u of AssignTo k \<Rightarrow> k \<in> set [''status'', ''state'', ''cookies'']
          | Call k \<Rightarrow> k \<in> set [''setHeader'', ''append'', ''remove'', ''redirect''])
      then throw (PlainError RETIRED) else ok ())"

section \<open>The pool\<close>

definition POOL_MAX :: nat where "POOL_MAX = 128"

text \<open>The levels of a request's middleware chain are numbered from the outside; level \<open>i + 1\<close> is what the \<open>next()\<close> of level \<open>i\<close>
  started. A level that returns while the next one still runs leaves that one as a registered branch.\<close>

datatype phase =
    Serving              \<comment> \<open>the chain of the request has not returned\<close>
  | Streaming            \<comment> \<open>answered with a body its consumer still reads\<close>
  | Draining nat         \<comment> \<open>retired; waits for the branches below this offset\<close>
  | Pooled
  | Released             \<comment> \<open>never reused: the pool was full, or the deadline had answered\<close>

record context_run =
  rn_live :: "nat set"
  rn_started :: nat
  rn_branches :: "nat list"
  rn_expired :: bool       \<comment> \<open>\<open>deadlineAnswered\<close>\<close>
  rn_phase :: phase
  rn_retired :: bool       \<comment> \<open>the prototype is the retired one\<close>

record pool_world =
  pw_pool :: "nat list"
  pw_runs :: "nat \<Rightarrow> context_run option"

definition empty_world :: pool_world where
  "empty_world = \<lparr>pw_pool = [], pw_runs = (\<lambda>_. None)\<rparr>"

definition fresh_run :: context_run where
  "fresh_run = \<lparr>rn_live = {0}, rn_started = 1, rn_branches = [], rn_expired = False, rn_phase = Serving, rn_retired = False\<rparr>"

definition set_run :: "nat \<Rightarrow> context_run \<Rightarrow> pool_world \<Rightarrow> pool_world" where
  "set_run c r w = w\<lparr>pw_runs := (pw_runs w)(c := Some r)\<rparr>"

text \<open>\<open>release\<close>: into the pool unless it is full.\<close>

definition pool_release :: "nat \<Rightarrow> context_run \<Rightarrow> pool_world \<Rightarrow> pool_world" where
  "pool_release c r w =
     (if POOL_MAX \<le> length (pw_pool w) then set_run c (r\<lparr>rn_phase := Released\<rparr>) w
      else set_run c (r\<lparr>rn_phase := Pooled, rn_retired := True\<rparr>) (w\<lparr>pw_pool := pw_pool w @ [c]\<rparr>))"

text \<open>\<open>retire\<close>: at once without branches, after the drain with some.\<close>

definition retire :: "nat \<Rightarrow> context_run \<Rightarrow> pool_world \<Rightarrow> pool_world" where
  "retire c r w =
     (if rn_branches r = [] then pool_release c r w
      else set_run c (r\<lparr>rn_phase := Draining (length (rn_branches r))\<rparr>) w)"

text \<open>A level returns: the level below it is registered when it still runs. \<open>sync\<close> is a synchronous return after a \<open>next()\<close> that
  gave a promise, which registers it in any case.\<close>

definition settle_level :: "nat \<Rightarrow> bool \<Rightarrow> context_run \<Rightarrow> context_run" where
  "settle_level i sync r =
     r\<lparr>rn_branches := rn_branches r @ (if Suc i \<in> rn_live r \<or> (sync \<and> Suc i < rn_started r) then [Suc i] else []),
       rn_live := rn_live r - {i}\<rparr>"

datatype body_kind = SnapshotBody | NullBody | LockedBody | StreamBody

definition retireWithBody :: "body_kind \<Rightarrow> nat \<Rightarrow> context_run \<Rightarrow> pool_world \<Rightarrow> pool_world" where
  "retireWithBody kind c r w =
     (case kind of StreamBody \<Rightarrow> set_run c (r\<lparr>rn_phase := Streaming\<rparr>) w | _ \<Rightarrow> retire c r w)"

text \<open>The answer of a request: the outermost level has returned, and unless the deadline answered before, the context
  retires with the body.\<close>

definition settle_request :: "bool \<Rightarrow> body_kind \<Rightarrow> nat \<Rightarrow> context_run \<Rightarrow> pool_world \<Rightarrow> pool_world" where
  "settle_request sync kind c r w =
     (let r1 = settle_level 0 sync r in
      if rn_expired r then set_run c (r1\<lparr>rn_phase := Released\<rparr>) w else retireWithBody kind c r1 w)"

text \<open>One round of \<open>drainBranches\<close>, when every branch of the batch has settled.\<close>

definition drain_round :: "nat \<Rightarrow> nat \<Rightarrow> context_run \<Rightarrow> pool_world \<Rightarrow> pool_world" where
  "drain_round offset c r w =
     (if offset < length (rn_branches r) then set_run c (r\<lparr>rn_phase := Draining (length (rn_branches r))\<rparr>) w
      else pool_release c r w)"

inductive pool_step :: "pool_world \<Rightarrow> pool_world \<Rightarrow> bool" where
  acquire_new: "pw_pool w = [] \<Longrightarrow> pw_runs w c = None \<Longrightarrow> pool_step w (set_run c fresh_run w)"
| acquire_pooled: "pw_pool w = cs @ [c] \<Longrightarrow> pool_step w (set_run c fresh_run (w\<lparr>pw_pool := cs\<rparr>))"
| call_next: "pw_runs w c = Some r \<Longrightarrow> i \<in> rn_live r \<Longrightarrow> rn_started r = Suc i \<Longrightarrow>
    pool_step w (set_run c (r\<lparr>rn_live := insert (Suc i) (rn_live r), rn_started := Suc (Suc i)\<rparr>) w)"
| level_returns: "pw_runs w c = Some r \<Longrightarrow> i \<in> rn_live r \<Longrightarrow> 0 < i \<Longrightarrow> pool_step w (set_run c (settle_level i sync r) w)"
| request_returns: "pw_runs w c = Some r \<Longrightarrow> 0 \<in> rn_live r \<Longrightarrow> pool_step w (settle_request sync kind c r w)"
| deadline: "pw_runs w c = Some r \<Longrightarrow> rn_phase r = Serving \<Longrightarrow> pool_step w (set_run c (r\<lparr>rn_expired := True\<rparr>) w)"
| body_finished: "pw_runs w c = Some r \<Longrightarrow> rn_phase r = Streaming \<Longrightarrow> pool_step w (retire c r w)"
| drained: "pw_runs w c = Some r \<Longrightarrow> rn_phase r = Draining offset \<Longrightarrow> set (take offset (rn_branches r)) \<inter> rn_live r = {} \<Longrightarrow>
    pool_step w (drain_round offset c r w)"

inductive pool_reachable :: "pool_world \<Rightarrow> bool" where
  reach_empty: "pool_reachable empty_world"
| reach_step: "pool_reachable w \<Longrightarrow> pool_step w w' \<Longrightarrow> pool_reachable w'"

end
