(* ===== verification/ContextPoolCorrect.thy ===== *)
theory ContextPoolCorrect
  imports ContextPool
begin

text \<open>
  What pooling promises: a recycled context reads like a new one, and a context enters the pool only when no level of
  its request's chain runs any more.
\<close>

section \<open>A recycled context reads like a new one\<close>

lemma own_simps [simp]:
  "co_own (write_prop k v c) = jm_set k v (co_own c)" "co_own (delete_prop k c) = jm_delete k (co_own c)"
  "co_retired (write_prop k v c) = co_retired c" "co_retired (delete_prop k c) = co_retired c"
  by (simp_all add: write_prop_def delete_prop_def)

lemma fold_delete_get:
  "jm_get (co_own (fold (\<lambda>k c. if P k then delete_prop k c else c) ks c)) k = (if k \<in> set ks \<and> P k then None else jm_get (co_own c) k)"
  by (induction ks arbitrary: c) auto

lemma sweep_get: "jm_get (co_own (sweepForeignKeys c)) k = (if foreign_key k then None else jm_get (co_own c) k)"
  using jm.keys_get [of k "co_own c"] by (auto simp: sweepForeignKeys_def fold_delete_get)

lemma fold_write_get:
  "distinct (map fst ds) \<Longrightarrow>
   jm_get (co_own (fold (\<lambda>(s, v) c. write_prop (PStr s) v c) ds c)) k =
     (case k of PStr s \<Rightarrow> (case map_of ds s of Some v \<Rightarrow> Some v | None \<Rightarrow> jm_get (co_own c) k) | PSym _ \<Rightarrow> jm_get (co_own c) k)"
proof (induction ds arbitrary: c)
  case (Cons d ds)
  obtain s v where d: "d = (s, v)" by (cases d)
  have "s \<notin> dom (map_of ds)" using Cons.prems by (auto simp: d dom_map_of_conv_image_fst)
  then have "map_of ds s = None" by auto
  then show ?case using Cons by (auto simp: d split: prop_key.splits option.splits)
qed (auto split: prop_key.splits)

lemma slot_keys: "CONTEXT_SLOT_KEYS = map fst (CONTEXT_DEFAULTS :: (string \<times> 'v slot) list)"
  by (simp add: CONTEXT_SLOT_KEYS_def CONTEXT_DEFAULTS_def)

lemma slot_keys_distinct: "distinct CONTEXT_SLOT_KEYS"
  by (simp add: CONTEXT_SLOT_KEYS_def CONTEXT_DEFAULTS_def)

lemma default_None: "map_of (CONTEXT_DEFAULTS :: (string \<times> 'v slot) list) s = None \<longleftrightarrow> s \<notin> set CONTEXT_SLOT_KEYS"
  by (simp add: slot_keys [where 'v = 'v] map_of_eq_None_iff)

lemma clear_get:
  "jm_get (co_own (clearRequestSlots c)) k =
     (case k of PStr s \<Rightarrow> (case map_of CONTEXT_DEFAULTS s of Some v \<Rightarrow> Some v | None \<Rightarrow> jm_get (co_own c) k)
      | PSym _ \<Rightarrow> (if k = BRANCHES then None else jm_get (co_own c) k))"
  using slot_keys_distinct
  by (auto simp: clearRequestSlots_def clearBranches_def fold_write_get slot_keys [where 'v = 'a, symmetric] BRANCHES_def split: prop_key.splits)

text \<open>What the clearing leaves: the default of every slot, and of the rest only the identity slots.\<close>

lemma cleared_get:
  "jm_get (co_own (clearRequestSlots (sweepForeignKeys c))) k =
     (case k of PStr s \<Rightarrow> (case map_of CONTEXT_DEFAULTS s of Some v \<Rightarrow> Some v
          | None \<Rightarrow> if s = ''appValue'' \<or> s = ''appSettings'' \<or> s = ''rawRequest'' then jm_get (co_own c) k else None)
      | PSym _ \<Rightarrow> None)"
proof (cases k)
  case (PSym n)
  then show ?thesis by (simp add: clear_get sweep_get foreign_key_def)
next
  case (PStr s)
  show ?thesis
  proof (cases "map_of (CONTEXT_DEFAULTS :: (string \<times> 'a slot) list) s")
    case None
    then have "s \<notin> set CONTEXT_SLOT_KEYS" by (simp add: default_None)
    moreover have "''runtimeValue'' \<in> set CONTEXT_SLOT_KEYS" by (simp add: CONTEXT_SLOT_KEYS_def CONTEXT_DEFAULTS_def)
    ultimately have "foreign_key (PStr s) \<longleftrightarrow> \<not> (s = ''appValue'' \<or> s = ''appSettings'' \<or> s = ''rawRequest'')"
      by (auto simp: foreign_key_def INTERNAL_SLOTS_def)
    then show ?thesis using None PStr by (simp add: clear_get sweep_get)
  next
    case (Some v)
    then show ?thesis using PStr by (simp add: clear_get)
  qed
qed

text \<open>The prototypes decorations can build: the slots keep their values.\<close>

definition proto_ok :: "bool \<Rightarrow> 'v context_proto \<Rightarrow> bool" where
  "proto_ok dev proto \<longleftrightarrow> jm_get proto ''flags'' = Some (Data (Number (if dev then DEV_CHAIN else 0)))
     \<and> jm_get proto ''rawRequest'' = None \<and> (\<forall>s \<in> set CONTEXT_SLOT_KEYS. s \<noteq> ''flags'' \<longrightarrow> jm_get proto s = None)"

lemma app_proto_ok: "proto_ok dev (app_proto dev app settings)"
  by (simp add: proto_ok_def app_proto_def CONTEXT_SLOT_KEYS_def CONTEXT_DEFAULTS_def)

lemma guard_ok: "guard key proto api = Inr u \<Longrightarrow> key \<noteq> ''rawRequest'' \<and> key \<notin> set CONTEXT_SLOT_KEYS \<and> jm_get proto key = None"
  by (auto simp: guard_def jm_has_def split: if_splits)

lemma flags_slot: "''flags'' \<in> set CONTEXT_SLOT_KEYS"
  by (simp add: CONTEXT_SLOT_KEYS_def CONTEXT_DEFAULTS_def)

lemma proto_ok_set: "proto_ok dev proto \<Longrightarrow> key \<noteq> ''rawRequest'' \<Longrightarrow> key \<notin> set CONTEXT_SLOT_KEYS \<Longrightarrow> proto_ok dev (jm_set key m proto)"
  using flags_slot by (auto simp: proto_ok_def)

lemma decorate_ok: "proto_ok dev proto \<Longrightarrow> decorate key v proto = Inr proto' \<Longrightarrow> proto_ok dev proto'"
  by (auto simp: decorate_def res_bind_def dest!: guard_ok intro: proto_ok_set split: sum.splits)

lemma decorateLazy_ok: "proto_ok dev proto \<Longrightarrow> decorateLazy key g proto = Inr proto' \<Longrightarrow> proto_ok dev proto'"
  by (auto simp: decorateLazy_def res_bind_def dest!: guard_ok intro: proto_ok_set split: sum.splits)

text \<open>An app's setup: a sequence of decorations, each applied when its guard accepts it.\<close>

datatype 'v decoration = Decorate string "'v slot" | DecorateLazy string 'v

fun run_decoration :: "'v decoration \<Rightarrow> 'v context_proto \<Rightarrow> 'v context_proto res" where
  "run_decoration (Decorate k v) proto = decorate k v proto"
| "run_decoration (DecorateLazy k g) proto = decorateLazy k g proto"

fun decorated :: "'v decoration list \<Rightarrow> 'v context_proto \<Rightarrow> 'v context_proto" where
  "decorated [] proto = proto"
| "decorated (d # ds) proto = decorated ds (case run_decoration d proto of Inl e \<Rightarrow> proto | Inr proto' \<Rightarrow> proto')"

lemma decorated_ok: "proto_ok dev proto \<Longrightarrow> proto_ok dev (decorated ds proto)"
proof (induction ds arbitrary: proto)
  case (Cons d ds)
  then show ?case by (cases d) (auto intro!: Cons.IH dest: decorate_ok decorateLazy_ok split: sum.splits)
qed simp

lemma set_runtime_get:
  "jm_get (co_own (set_runtime r c)) k = (if k = PStr ''runtimeValue'' \<and> r \<noteq> None then map_option Stored r else jm_get (co_own c) k)"
  by (auto simp: set_runtime_def split: option.splits)

lemma reset_get:
  assumes ok: "proto_ok dev proto"
  shows "jm_get (co_own (resetContext proto dev c raw r)) k =
    (if k = PStr ''runtimeValue'' \<and> r \<noteq> None then map_option Stored r
     else if k = PStr ''rawRequest'' then Some (Stored raw)
     else if k = PStr ''flags'' then Some (Number (if dev then DEV_CHAIN else 0))
     else (case k of PSym _ \<Rightarrow> None
       | PStr s \<Rightarrow> (case map_of CONTEXT_DEFAULTS s of Some v \<Rightarrow> Some v
           | None \<Rightarrow> if s = ''appValue'' \<or> s = ''appSettings'' then jm_get (co_own c) k else None)))"
proof -
  let ?c1 = "clearRequestSlots (sweepForeignKeys c)"
  have fl: "jm_get (co_own ?c1) (PStr ''flags'') = Some (Number 0)"
    by (simp add: cleared_get CONTEXT_DEFAULTS_def)
  define c2 where "c2 = (if dev then set_dev_flag proto ?c1 else ?c1)"
  have c2: "jm_get (co_own c2) k = (if k = PStr ''flags'' then Some (Number (if dev then DEV_CHAIN else 0)) else jm_get (co_own ?c1) k)"
    using fl by (simp add: c2_def set_dev_flag_def read_prop_def Let_def)
  have "resetContext proto dev c raw r = set_runtime r (write_prop (PStr ''rawRequest'') (Stored raw) c2)"
    by (simp add: resetContext_def c2_def Let_def)
  then have "jm_get (co_own (resetContext proto dev c raw r)) k =
    (if k = PStr ''runtimeValue'' \<and> r \<noteq> None then map_option Stored r else if k = PStr ''rawRequest'' then Some (Stored raw)
     else if k = PStr ''flags'' then Some (Number (if dev then DEV_CHAIN else 0)) else jm_get (co_own ?c1) k)"
    by (simp only: set_runtime_get own_simps jm_get_set c2 cong: if_cong)
  then show ?thesis unfolding cleared_get by (cases k) (simp_all split: option.split)
qed

lemma bound: "jm_get (co_own (bound_context raw r)) k =
    (if k = PStr ''runtimeValue'' \<and> r \<noteq> None then map_option Stored r else if k = PStr ''rawRequest'' then Some (Stored raw) else None)"
  by (auto simp: bound_context_def set_runtime_get)


text \<open>A context a handler has left a user, a body and a symbol on.\<close>

definition used_context :: "string context_object" where
  "used_context = \<lparr>co_own = [(PStr ''rawRequest'', Stored ''old''), (PStr ''user'', Stored ''alice''), (PSym 0, Stored ''branches''),
     (PStr ''bodyCache'', Stored ''secret''), (PStr ''flags'', Number 768)], co_retired = False\<rparr>"


lemma used_context_reset:
  "co_own (resetContext (app_proto True ''app'' ''settings'') True used_context ''new'' None) =
     jm_set (PStr ''rawRequest'') (Stored ''new'') (jm_set (PStr ''flags'') (Number 512)
       (co_own (clearRequestSlots (delete_prop (PStr ''user'') used_context))))"
  by code_simp

text \<open>The reset assigns neither identity slot, so a value a handler put there is read by the next request.\<close>

lemma identity_slot_survives:
  "proto_ok dev proto \<Longrightarrow> jm_get (co_own c) (PStr ''appSettings'') = Some v \<Longrightarrow>
   read_prop proto (resetContext proto dev c raw runtime) (PStr ''appSettings'') = Some (Data v)"
  by (simp add: read_prop_def reset_get CONTEXT_DEFAULTS_def)

section \<open>The pool only holds quiet contexts\<close>

text \<open>What a run keeps: a level that runs is the outermost, or the one above it runs, or it is a registered branch.\<close>

definition run_ok :: "context_run \<Rightarrow> bool" where
  "run_ok r \<longleftrightarrow>
     (\<forall>i \<in> rn_live r. i = 0 \<or> i - 1 \<in> rn_live r \<or> i \<in> set (rn_branches r)) \<and>
     (0 \<in> rn_live r \<longleftrightarrow> rn_phase r = Serving) \<and>
     (rn_phase r = Pooled \<longrightarrow> rn_live r = {} \<and> rn_retired r) \<and>
     (rn_phase r \<noteq> Pooled \<longrightarrow> \<not> rn_retired r)"

definition pool_ok :: "pool_world \<Rightarrow> bool" where
  "pool_ok w \<longleftrightarrow> distinct (pw_pool w) \<and> length (pw_pool w) \<le> POOL_MAX \<and> (\<forall>c r. pw_runs w c = Some r \<longrightarrow> run_ok r) \<and>
     (\<forall>c. c \<in> set (pw_pool w) \<longleftrightarrow> (\<exists>r. pw_runs w c = Some r \<and> rn_phase r = Pooled))"

lemma set_run_simps [simp]:
  "pw_pool (set_run c r w) = pw_pool w" "pw_runs (set_run c r w) = (pw_runs w)(c := Some r)"
  by (simp_all add: set_run_def)

text \<open>With the outermost level done and every branch settled, no level runs.\<close>

lemma no_live_level:
  assumes "\<forall>i \<in> rn_live r. i = 0 \<or> i - 1 \<in> rn_live r \<or> i \<in> set (rn_branches r)"
    and "0 \<notin> rn_live r" and "set (rn_branches r) \<inter> rn_live r = {}"
  shows "rn_live r = {}"
proof -
  have "i \<notin> rn_live r" for i
  proof (induction i)
    case (Suc i)
    then show ?case using assms(1,3) by fastforce
  qed (rule assms(2))
  then show ?thesis by blast
qed

lemma pool_ok_update:
  assumes "pool_ok w" and "pw_runs w c = Some r0" and "rn_phase r0 \<noteq> Pooled" and "run_ok r" and "rn_phase r \<noteq> Pooled"
  shows "pool_ok (set_run c r w)"
  using assms unfolding pool_ok_def by (auto split: if_splits)

lemma pool_ok_release:
  assumes ok: "pool_ok w" and c: "pw_runs w c = Some r0" and "rn_phase r0 \<noteq> Pooled" and "rn_live r = {}" and "\<not> rn_retired r"
  shows "pool_ok (pool_release c r w)"
proof (cases "POOL_MAX \<le> length (pw_pool w)")
  case True
  then show ?thesis using assms pool_ok_update [OF ok c, of "r\<lparr>rn_phase := Released\<rparr>"] by (simp add: pool_release_def run_ok_def)
next
  case False
  have "c \<notin> set (pw_pool w)" using assms unfolding pool_ok_def by auto
  then show ?thesis using False assms unfolding pool_ok_def pool_release_def by (auto simp: run_ok_def split: if_splits)
qed

lemma pool_ok_retire:
  assumes ok: "pool_ok w" and c: "pw_runs w c = Some r0" and "rn_phase r0 \<noteq> Pooled"
    and r: "\<forall>i \<in> rn_live r. i = 0 \<or> i - 1 \<in> rn_live r \<or> i \<in> set (rn_branches r)" "0 \<notin> rn_live r" "\<not> rn_retired r"
  shows "pool_ok (retire c r w)"
proof (cases "rn_branches r = []")
  case True
  then have "rn_live r = {}" using no_live_level [OF r(1,2)] by simp
  then show ?thesis using True pool_ok_release [OF ok c assms(3)] r(3) by (simp add: retire_def)
next
  case False
  then show ?thesis using r by (auto simp: retire_def run_ok_def intro!: pool_ok_update [OF ok c assms(3)])
qed

lemma settle_live:
  assumes "\<forall>i \<in> rn_live r. i = 0 \<or> i - 1 \<in> rn_live r \<or> i \<in> set (rn_branches r)"
  shows "\<forall>i \<in> rn_live (settle_level j sync r). i = 0 \<or> i - 1 \<in> rn_live (settle_level j sync r) \<or> i \<in> set (rn_branches (settle_level j sync r))"
proof
  fix i
  assume i: "i \<in> rn_live (settle_level j sync r)"
  show "i = 0 \<or> i - 1 \<in> rn_live (settle_level j sync r) \<or> i \<in> set (rn_branches (settle_level j sync r))"
  proof (cases "i = Suc j")
    case True
    then show ?thesis using i by (simp add: settle_level_def)
  next
    case False
    then show ?thesis using i assms by (cases i) (auto simp: settle_level_def)
  qed
qed

lemma settle_level_simps [simp]:
  "rn_phase (settle_level i sync r) = rn_phase r" "rn_retired (settle_level i sync r) = rn_retired r"
  "rn_live (settle_level i sync r) = rn_live r - {i}"
  by (simp_all add: settle_level_def)

lemma pool_step_ok: "pool_step w w' \<Longrightarrow> pool_ok w \<Longrightarrow> pool_ok w'"
proof (induction rule: pool_step.induct)
  case (acquire_new w c)
  then show ?case unfolding pool_ok_def by (auto simp: fresh_run_def run_ok_def split: if_splits)
next
  case (acquire_pooled w cs c)
  then show ?case unfolding pool_ok_def by (auto simp: fresh_run_def run_ok_def split: if_splits)
next
  case (call_next w c r i)
  then have r: "run_ok r" and ne: "rn_phase r \<noteq> Pooled" by (auto simp: pool_ok_def run_ok_def)
  show ?case
    by (rule pool_ok_update [OF call_next(4,1) ne]) (use r ne call_next(2) in \<open>auto simp: run_ok_def\<close>)
next
  case (level_returns w c r i sync)
  then have r: "run_ok r" and ne: "rn_phase r \<noteq> Pooled" by (auto simp: pool_ok_def run_ok_def)
  show ?case
    by (rule pool_ok_update [OF level_returns(4,1) ne])
      (use r ne level_returns(3) settle_live [of r i sync] in \<open>auto simp: run_ok_def\<close>)
next
  case (request_returns w c r sync kind)
  then have r: "run_ok r" and ser: "rn_phase r = Serving" by (auto simp: pool_ok_def run_ok_def)
  then have ne: "rn_phase r \<noteq> Pooled" by simp
  let ?r = "settle_level 0 sync r"
  have live: "\<forall>i \<in> rn_live ?r. i = 0 \<or> i - 1 \<in> rn_live ?r \<or> i \<in> set (rn_branches ?r)"
    by (rule settle_live) (use r in \<open>simp add: run_ok_def\<close>)
  have ret: "\<not> rn_retired ?r" using r ser by (simp add: run_ok_def)
  have keep: "pool_ok (set_run c (?r\<lparr>rn_phase := ph\<rparr>) w)" if "ph = Released \<or> ph = Streaming" for ph
    by (rule pool_ok_update [OF request_returns(3,1) ne]) (use that live ret in \<open>auto simp: run_ok_def\<close>)
  have "pool_ok (retire c ?r w)"
    by (rule pool_ok_retire [OF request_returns(3,1) ne live]) (use ret in simp_all)
  then show ?case using keep by (simp add: settle_request_def retireWithBody_def Let_def split: body_kind.split)
next
  case (deadline w c r)
  then have r: "run_ok r" by (auto simp: pool_ok_def)
  show ?case by (rule pool_ok_update [OF deadline(3,1)]) (use deadline(2) r in \<open>auto simp: run_ok_def\<close>)
next
  case (body_finished w c r)
  then have r: "run_ok r" by (auto simp: pool_ok_def)
  show ?case by (rule pool_ok_retire [OF body_finished(3,1)]) (use body_finished(2) r in \<open>auto simp: run_ok_def\<close>)
next
  case (drained w c r offset)
  then have r: "run_ok r" by (auto simp: pool_ok_def)
  show ?case
  proof (cases "offset < length (rn_branches r)")
    case True
    have "pool_ok (set_run c (r\<lparr>rn_phase := Draining (length (rn_branches r))\<rparr>) w)"
      by (rule pool_ok_update [OF drained(4,1)]) (use drained(2) r in \<open>auto simp: run_ok_def\<close>)
    then show ?thesis using True by (simp add: drain_round_def)
  next
    case False
    then have "rn_live r = {}" using no_live_level [of r] drained(2,3) r by (auto simp: run_ok_def)
    then show ?thesis using False drained(2) r pool_ok_release [OF drained(4,1)] by (simp add: drain_round_def run_ok_def)
  qed
qed



end
