(* ===== verification/Guards.thy ===== *)
theory Guards
  imports Errors Query "HOL-Library.Word"
begin

text \<open>
  The authentication guards: src/middleware/auth.ts (constant-time comparison, basic and bearer authentication) and
  src/middleware/api-key.ts. Each is its setup, which may throw, and the guard of a request over the one header it
  reads. The runtime's base64 decoder is the parameter \<open>unb64\<close>, and a verify callback is a function to what it
  resolves to. The body of a refusal is the message of its status and is left out.
\<close>

unbundle bit_operations_syntax

section \<open>Comparison of secrets\<close>

text \<open>Over the bytes of the two strings; the difference is accumulated, never cut short.\<close>

definition byte_of :: "char \<Rightarrow> 8 word" where "byte_of c = of_char c"

definition timingSafeEqual :: "string \<Rightarrow> string \<Rightarrow> bool" where
  "timingSafeEqual a b =
     (if length a \<noteq> length b then False
      else foldl (\<lambda>diff (x, y). diff OR (byte_of x XOR byte_of y)) 0 (zip a b) = 0)"

section \<open>Shared rules\<close>

text \<open>The answer of a guard: on to the rest of the chain, or a response with a status and the challenge header.\<close>

datatype guard_answer = Proceed | Refuse nat string

text \<open>What a verify callback resolves to: true, a falsy value, or something else that is truthy.\<close>

datatype verdict = Yes | Falsy | Truthy

definition truthy :: "verdict \<Rightarrow> bool" where "truthy v \<longleftrightarrow> v \<noteq> Falsy"

definition hasWhitespaceOrControl :: "string \<Rightarrow> bool" where
  "hasWhitespaceOrControl s = list_ex (\<lambda>c. let code = of_char c :: nat in code \<le> 32 \<or> code = 127) s"

definition authScheme :: "string \<Rightarrow> string \<times> string" where
  "authScheme header =
     (case index_of CHR '' '' header of None \<Rightarrow> (to_lower header, [])
      | Some i \<Rightarrow> (to_lower (take i header), drop (i + 1) header))"

definition realmPayload :: "string \<Rightarrow> string option \<Rightarrow> string res" where
  "realmPayload middleware realm =
     (let stripped = filter (\<lambda>c. c \<noteq> CHR 0x22 \<and> c \<noteq> CHR 0x5C) (case realm of None \<Rightarrow> ''Restricted'' | Some r \<Rightarrow> r) in
      if length stripped = 0 then throw (TypeError (middleware @ '': realm must keep characters other than '' @ [CHR 0x27, CHR 0x22, CHR 0x27] @ '' and '' @ [CHR 0x22, CHR 0x5C, CHR 0x22])) else ok stripped)"

definition quoted :: "string \<Rightarrow> string" where "quoted s = CHR 0x22 # s @ [CHR 0x22]"

definition require :: "bool \<Rightarrow> string \<Rightarrow> unit res" where
  "require b msg = (if b then ok () else throw (TypeError msg))"

section \<open>Basic authentication\<close>

record basic_options =
  bo_verify :: "(string \<Rightarrow> string \<Rightarrow> verdict) option"
  bo_username :: "string option"
  bo_password :: "string option"
  bo_realm :: "string option"

definition MAX_CREDENTIAL_BYTES :: nat where "MAX_CREDENTIAL_BYTES = 1024"

text \<open>\<open>unb64\<close> is the runtime's base64 decoder. White space goes before it, and invalid UTF-8 is refused.\<close>

function strip_ws :: "string \<Rightarrow> string" where
  "strip_ws s = (case s of [] \<Rightarrow> []
     | c # cs \<Rightarrow> (case find (\<lambda>w. prefix w s) js_ws of None \<Rightarrow> c # strip_ws cs | Some w \<Rightarrow> strip_ws (drop (length w) s)))"
  by pat_completeness auto
termination
  by (relation "measure length") (auto simp: find_Some_iff dest!: nth_mem dest: js_ws_nonempty elim!: prefixE)

declare strip_ws.simps [simp del]

definition decodeBasic :: "(string \<Rightarrow> string) \<Rightarrow> string \<Rightarrow> (string \<times> string) option" where
  "decodeBasic unb64 encoded =
     (if length encoded = 0 \<or> 2048 < length encoded then None
      else (let bytes = unb64 (strip_ws encoded) in
        if length bytes = 0 \<or> MAX_CREDENTIAL_BYTES < length bytes then None
        else if \<not> valid_utf8 bytes then None
        else if CHR 0x00 \<in> set bytes then None
        else (case index_of CHR '':'' bytes of None \<Rightarrow> None
              | Some colon \<Rightarrow> if colon = 0 then None else Some (take colon bytes, drop (colon + 1) bytes))))"

definition basic_setup :: "basic_options \<Rightarrow> string res" where
  "basic_setup options =
     (let hasStatic = bo_username options \<noteq> None \<and> bo_password options \<noteq> None in
      res_bind (require (\<not> (hasStatic \<and> bo_verify options \<noteq> None)) ''basicAuth: provide either { username, password } or { verify }, not both'') (\<lambda>_.
      res_bind (require (hasStatic \<or> bo_verify options \<noteq> None) ''basicAuth requires { verify } or { username, password }'') (\<lambda>_.
      res_bind (realmPayload ''basicAuth'' (bo_realm options)) (\<lambda>realm.
      ok (''Basic realm='' @ quoted realm @ '', charset='' @ quoted ''UTF-8'')))))"

definition basic_accepts :: "basic_options \<Rightarrow> string \<times> string \<Rightarrow> bool" where
  "basic_accepts options credentials =
     (case (bo_username options, bo_password options) of
        (Some u, Some p) \<Rightarrow>
          (let userOk = timingSafeEqual (fst credentials) u; passOk = timingSafeEqual (snd credentials) p in
           userOk = passOk \<and> userOk)
      | _ \<Rightarrow> (case bo_verify options of None \<Rightarrow> False | Some f \<Rightarrow> truthy (f (fst credentials) (snd credentials))))"

definition basic_guard :: "(string \<Rightarrow> string) \<Rightarrow> basic_options \<Rightarrow> string \<Rightarrow> string \<Rightarrow> guard_answer" where
  "basic_guard unb64 options challenge authorization =
     (let (scheme, rest) = authScheme authorization;
          accepted = (scheme = ''basic'' \<and>
            (case decodeBasic unb64 (js_trim rest) of None \<Rightarrow> False | Some credentials \<Rightarrow> basic_accepts options credentials)) in
      if accepted then Proceed else Refuse 401 challenge)"

definition basicAuth :: "(string \<Rightarrow> string) \<Rightarrow> basic_options \<Rightarrow> (string \<Rightarrow> guard_answer) res" where
  "basicAuth unb64 options = res_bind (basic_setup options) (\<lambda>challenge. ok (basic_guard unb64 options challenge))"

section \<open>Bearer authentication\<close>

record bearer_options =
  be_verify :: "(string \<Rightarrow> verdict) option"
  be_token :: "string list option"
  be_realm :: "string option"

definition MAX_TOKEN_BYTES :: nat where "MAX_TOKEN_BYTES = 8192"

definition bearer_setup :: "bearer_options \<Rightarrow> string res" where
  "bearer_setup options =
     (res_bind (require (\<not> (be_token options \<noteq> None \<and> be_verify options \<noteq> None)) ''bearerAuth: provide either { token } or { verify }, not both'') (\<lambda>_.
      res_bind (require (be_token options \<noteq> Some []) ''bearerAuth: token array must not be empty'') (\<lambda>_.
      res_bind (require (be_token options \<noteq> None \<or> be_verify options \<noteq> None) ''bearerAuth requires { verify } or { token }'') (\<lambda>_.
      res_bind (realmPayload ''bearerAuth'' (be_realm options)) (\<lambda>realm.
      ok (''Bearer realm='' @ quoted realm))))))"

definition bearer_accepts :: "bearer_options \<Rightarrow> string \<Rightarrow> bool" where
  "bearer_accepts options token =
     (case be_token options of
        Some tokens \<Rightarrow> list_ex (\<lambda>t. timingSafeEqual t token) tokens
      | None \<Rightarrow> (case be_verify options of None \<Rightarrow> False | Some f \<Rightarrow> truthy (f token)))"

definition bearer_token_of :: "string \<Rightarrow> string option" where
  "bearer_token_of authorization =
     (let (scheme, rest) = authScheme authorization; candidate = js_trim rest in
      if scheme = ''bearer'' \<and> 0 < length candidate \<and> length candidate \<le> MAX_TOKEN_BYTES \<and> \<not> hasWhitespaceOrControl candidate
      then Some candidate else None)"

definition bearer_guard :: "bearer_options \<Rightarrow> string \<Rightarrow> string \<Rightarrow> guard_answer" where
  "bearer_guard options challenge authorization =
     (case bearer_token_of authorization of
        None \<Rightarrow>
          if 0 < length authorization then Refuse 400 (challenge @ '', error='' @ quoted ''invalid_request'')
          else Refuse 401 challenge
      | Some token \<Rightarrow>
          if \<not> bearer_accepts options token then Refuse 401 (challenge @ '', error='' @ quoted ''invalid_token'') else Proceed)"

definition bearerAuth :: "bearer_options \<Rightarrow> (string \<Rightarrow> guard_answer) res" where
  "bearerAuth options = res_bind (bearer_setup options) (\<lambda>challenge. ok (bearer_guard options challenge))"

section \<open>API keys\<close>

record api_key_options =
  ak_verify :: "(string \<Rightarrow> verdict) option"
  ak_keys :: "string list option"
  ak_header :: "string option"
  ak_realm :: "string option"

definition MAX_KEY_LENGTH :: nat where "MAX_KEY_LENGTH = 8192"

text \<open>The setup gives the name of the header and the challenge.\<close>

definition api_key_setup :: "api_key_options \<Rightarrow> (string \<times> string) res" where
  "api_key_setup options =
     (let headerName = (case ak_header options of None \<Rightarrow> ''x-api-key'' | Some h \<Rightarrow> h) in
      res_bind (require (\<not> (ak_keys options \<noteq> None \<and> ak_verify options \<noteq> None)) ''apiKeyAuth: provide either { keys } or { verify }, not both'') (\<lambda>_.
      res_bind (require (ak_keys options \<noteq> None \<or> ak_verify options \<noteq> None) ''apiKeyAuth requires { verify } or { keys }'') (\<lambda>_.
      res_bind (require (length headerName \<noteq> 0) ''apiKeyAuth: header must be a non-empty header name'') (\<lambda>_.
      res_bind (realmPayload ''apiKeyAuth'' (ak_realm options)) (\<lambda>realm.
      ok (headerName, ''ApiKey realm='' @ quoted realm))))))"

definition api_key_check :: "api_key_options \<Rightarrow> string \<Rightarrow> bool" where
  "api_key_check options key =
     (case ak_keys options of
        Some keys \<Rightarrow> list_ex (\<lambda>k. timingSafeEqual k key) keys
      | None \<Rightarrow> (case ak_verify options of None \<Rightarrow> False | Some f \<Rightarrow> f key = Yes))"

definition api_key_guard :: "api_key_options \<Rightarrow> string \<Rightarrow> string \<Rightarrow> guard_answer" where
  "api_key_guard options challenge raw =
     (if length raw = 0 then Refuse 401 challenge
      else (let key = js_trim raw in
        if length key = 0 \<or> MAX_KEY_LENGTH < length key \<or> hasWhitespaceOrControl key
        then Refuse 400 (challenge @ '', error='' @ quoted ''invalid_request'')
        else if \<not> api_key_check options key then Refuse 401 (challenge @ '', error='' @ quoted ''invalid_token'')
        else Proceed))"

definition apiKeyAuth :: "api_key_options \<Rightarrow> (string \<times> (string \<Rightarrow> guard_answer)) res" where
  "apiKeyAuth options = res_bind (api_key_setup options) (\<lambda>(headerName, challenge). ok (headerName, api_key_guard options challenge))"

section \<open>What the guards admit\<close>

lemma or_zero: "(x OR y = 0) \<longleftrightarrow> x = 0 \<and> (y :: 8 word) = 0"
  by (metis or.right_neutral or_eq_0_iff)

lemma xor_zero: "(x XOR y = 0) \<longleftrightarrow> x = (y :: 8 word)"
  by (metis xor.assoc xor.left_neutral xor_self_eq)

lemma unat_byte: "unat (byte_of c) = of_char c"
proof -
  have "byte_of c = of_nat (of_char c)" unfolding byte_of_def by (rule of_nat_of_char [symmetric])
  moreover have "unat (of_nat (of_char c) :: 8 word) = of_char c mod 2 ^ 8"
    using unat_of_nat [of "of_char c", where 'a = 8] by (simp only: len_num0 len_num1 len_bit0 len_bit1) simp
  ultimately show ?thesis by simp
qed

lemma byte_of_inj: "byte_of a = byte_of b \<longleftrightarrow> a = b"
proof
  assume "byte_of a = byte_of b"
  then have "(of_char a :: nat) = of_char b" by (metis unat_byte)
  then show "a = b" by (rule of_char_eq_iff [THEN iffD1])
qed simp

lemma diff_fold:
  "foldl (\<lambda>diff (x, y). diff OR (byte_of x XOR byte_of y)) d (zip a b) = 0 \<longleftrightarrow> d = 0 \<and> list_all (\<lambda>(x, y). x = y) (zip a b)"
  by (induction a b arbitrary: d rule: list_induct2') (auto simp: or_zero xor_zero byte_of_inj)

lemma timingSafeEqual_eq: "timingSafeEqual a b \<longleftrightarrow> a = b"
proof (cases "length a = length b")
  case True
  then have "list_all (\<lambda>(x, y). x = y) (zip a b) \<longleftrightarrow> a = b"
    by (induction a b rule: list_induct2) auto
  then show ?thesis using True by (simp add: timingSafeEqual_def diff_fold)
qed (auto simp: timingSafeEqual_def)

lemma require_ok [simp]: "require b msg = Inr u \<longleftrightarrow> b"
  by (cases u) (simp add: require_def)

lemma basic_setup_static:
  "basicAuth unb64 options = Inr guard \<Longrightarrow> bo_username options = Some u \<Longrightarrow> bo_password options = Some p \<Longrightarrow>
   guard a = Proceed \<longleftrightarrow> fst (authScheme a) = ''basic'' \<and> decodeBasic unb64 (js_trim (snd (authScheme a))) = Some (u, p)"
  by (auto simp: basicAuth_def basic_guard_def basic_accepts_def timingSafeEqual_eq Let_def res_bind_def case_prod_beta
      split: sum.splits option.splits if_splits)

lemma bearer_setup_static:
  "bearerAuth options = Inr guard \<Longrightarrow> be_token options = Some ts \<Longrightarrow>
   guard a = Proceed \<longleftrightarrow> (\<exists>t \<in> set ts. bearer_token_of a = Some t)"
  by (auto simp: bearerAuth_def bearer_guard_def bearer_accepts_def timingSafeEqual_eq res_bind_def list_ex_iff
      split: sum.splits option.splits if_splits)

lemma api_key_static:
  "apiKeyAuth options = Inr (name, guard) \<Longrightarrow> ak_keys options = Some ks \<Longrightarrow>
   guard raw = Proceed \<longleftrightarrow> (\<exists>k \<in> set ks. js_trim raw = k \<and> 0 < length k \<and> length k \<le> MAX_KEY_LENGTH \<and> \<not> hasWhitespaceOrControl k \<and> raw \<noteq> [])"
  by (auto simp: apiKeyAuth_def api_key_guard_def api_key_check_def timingSafeEqual_eq res_bind_def list_ex_iff Let_def
      split: sum.splits option.splits if_splits)


text \<open>A result that is not exactly true admits nobody through the API-key guard.\<close>

lemma api_key_strict: "ak_keys ak = None \<Longrightarrow> ak_verify ak = Some (\<lambda>_. Truthy) \<Longrightarrow> api_key_guard ak ch raw \<noteq> Proceed"
  by (simp add: api_key_guard_def api_key_check_def Let_def)

definition static_basic :: basic_options where
  "static_basic = \<lparr>bo_verify = None, bo_username = Some ''ann'', bo_password = Some ''pw'', bo_realm = None\<rparr>"

definition static_bearer :: bearer_options where
  "static_bearer = \<lparr>be_verify = None, be_token = Some [''t1'', ''t2''], be_realm = Some ''a\"b''\<rparr>"

definition static_keys :: api_key_options where
  "static_keys = \<lparr>ak_verify = None, ak_keys = Some [''k1''], ak_header = None, ak_realm = None\<rparr>"


end
