(* ===== verification/CsrfToken.thy ===== *)
theory CsrfToken
  imports CookiesCorrect Errors
begin

text \<open>
  Signed CSRF tokens, src/middleware/csrf-token.ts: the setup of the service, the token format of the Node lane with
  issue and verify, and the guard middleware. The lane that hands over to Bun.CSRF is the runtime's. The keyed hash
  \<open>hmac\<close> (with the secret in it), base64url (\<open>b64\<close>, \<open>unb64\<close>, contract \<open>b64_codec\<close>), the random bytes and \<open>String\<close> of a
  number (\<open>num_text\<close>) are parameters; \<open>Date.now\<close> is a natural number.
\<close>

section \<open>The service\<close>

record csrf_options =
  ct_secret :: string
  ct_expiresIn :: "js_number option"
  ct_maxAge :: "js_number option"

record csrf_service =
  cs_ttl :: rat
  cs_maxAge :: "rat option"

definition DEFAULT_TTL :: rat where "DEFAULT_TTL = 86400000"
definition MAX_TOKEN_LENGTH :: nat where "MAX_TOKEN_LENGTH = 4096"
definition MAX_SAFE_INTEGER :: nat where "MAX_SAFE_INTEGER = 9007199254740991"

definition positive_number :: "js_number \<Rightarrow> string \<Rightarrow> rat res" where
  "positive_number n msg = (case n of Finite r \<Rightarrow> if r \<le> 0 then throw (TypeError msg) else ok r | NotFinite \<Rightarrow> throw (TypeError msg))"

definition csrfToken :: "csrf_options \<Rightarrow> csrf_service res" where
  "csrfToken options =
     (if length (ct_secret options) = 0 then throw (TypeError ''csrfToken({ secret }) requires a non-empty secret'')
      else if 1024 < length (ct_secret options) then throw (TypeError ''csrfToken({ secret }) refuses secrets over 1024 bytes'')
      else res_bind (positive_number (case ct_expiresIn options of None \<Rightarrow> Finite DEFAULT_TTL | Some n \<Rightarrow> n)
              ''csrfToken({ expiresIn }) must be a positive number of ms'') (\<lambda>ttl.
        case ct_maxAge options of
          None \<Rightarrow> ok \<lparr>cs_ttl = ttl, cs_maxAge = None\<rparr>
        | Some n \<Rightarrow> res_bind (positive_number n ''csrfToken({ maxAge }) must be a positive number of ms'')
            (\<lambda>m. ok \<lparr>cs_ttl = ttl, cs_maxAge = Some m\<rparr>)))"

text \<open>\<open>sessionId ?? ""\<close>, and the check of the optional cap.\<close>

definition session_text :: "string option \<Rightarrow> string" where
  "session_text s = (case s of None \<Rightarrow> [] | Some t \<Rightarrow> t)"

definition over_cap :: "rat option \<Rightarrow> nat \<Rightarrow> bool" where
  "over_cap cap age = (case cap of None \<Rightarrow> False | Some m \<Rightarrow> m < of_nat age)"

definition NUL :: char where "NUL = CHR 0x00"

definition macInput :: "(string \<Rightarrow> string) \<Rightarrow> string \<Rightarrow> string \<Rightarrow> string \<Rightarrow> string \<Rightarrow> string" where
  "macInput b64 sessionId nonce issuedAt ttl =
     ''csrf1'' @ [NUL] @ b64 sessionId @ [NUL] @ nonce @ [NUL] @ issuedAt @ [NUL] @ ttl"

definition csrf_issue ::
  "(string \<Rightarrow> string) \<Rightarrow> (string \<Rightarrow> string) \<Rightarrow> (rat \<Rightarrow> string) \<Rightarrow> csrf_service \<Rightarrow> string \<Rightarrow> nat \<Rightarrow> string option \<Rightarrow> string" where
  "csrf_issue hmac b64 num_text service random now sessionId =
     (let nonce = b64 random; issuedAt = show_digits now; ttlText = num_text (cs_ttl service);
          mac = b64 (hmac (macInput b64 (session_text sessionId) nonce issuedAt ttlText)) in
      ''t1.'' @ nonce @ ''.'' @ issuedAt @ ''.'' @ ttlText @ ''.'' @ mac)"

text \<open>\<open>/^\d+$/\<close>, and \<open>Number\<close> with \<open>isSafeInteger\<close>.\<close>

definition digits_text :: "string \<Rightarrow> bool" where
  "digits_text s \<longleftrightarrow> s \<noteq> [] \<and> list_all is_digit s"

definition csrf_verify ::
  "(string \<Rightarrow> string) \<Rightarrow> (string \<Rightarrow> string) \<Rightarrow> (string \<Rightarrow> string) \<Rightarrow> csrf_service \<Rightarrow> nat \<Rightarrow> string \<Rightarrow> string option \<Rightarrow> bool" where
  "csrf_verify hmac b64 unb64 service now token sessionId =
     (if length token = 0 \<or> MAX_TOKEN_LENGTH < length token then False
      else if NUL \<in> set token then False
      else (case js_split CHR ''.'' token of
          [tag, nonce, issuedAtText, ttlText, macText] \<Rightarrow>
            (if tag \<noteq> ''t1'' then False
             else if \<not> digits_text issuedAtText \<or> \<not> digits_text ttlText then False
             else (let issuedAt = dec_value issuedAtText; tokenTtl = dec_value ttlText in
               if MAX_SAFE_INTEGER < issuedAt \<or> MAX_SAFE_INTEGER < tokenTtl then False
               else if tokenTtl \<le> 0 then False
               else if now < issuedAt then False
               else (let age = now - issuedAt in
                 if tokenTtl < age then False
                 else if cs_ttl service < of_nat age then False
                 else if over_cap (cs_maxAge service) age then False
                 else unb64 macText = hmac (macInput b64 (session_text sessionId) nonce issuedAtText ttlText))))
        | _ \<Rightarrow> False))"

section \<open>The guard\<close>

definition SAFE_METHODS :: "string list" where "SAFE_METHODS = [''GET'', ''HEAD'', ''OPTIONS'', ''TRACE'']"

definition forbid :: "string \<Rightarrow> unit res" where
  "forbid msg = throw (HttpThrown (createError (Some 403) (SourceText msg) (Some (no_props\<lparr>ep_expose := Some True\<rparr>))))"

definition csrfTokenGuard :: "(string \<Rightarrow> string option \<Rightarrow> bool) \<Rightarrow> bool \<Rightarrow> string \<Rightarrow> string \<Rightarrow> string option \<Rightarrow> unit res" where
  "csrfTokenGuard verify requireSession m token session =
     (if m \<in> set SAFE_METHODS then ok ()
      else if length token = 0 then forbid ''missing CSRF token''
      else if requireSession \<and> session = None then forbid ''missing session for CSRF verification''
      else if \<not> verify token session then forbid ''invalid CSRF token''
      else ok ())"

section \<open>Correctness\<close>

lemma split_token:
  assumes "CHR ''.'' \<notin> set n" "CHR ''.'' \<notin> set i" "CHR ''.'' \<notin> set t" "CHR ''.'' \<notin> set m"
  shows "js_split CHR ''.'' (''t1.'' @ n @ ''.'' @ i @ ''.'' @ t @ ''.'' @ m) = [''t1'', n, i, t, m]"
proof -
  have t1: "CHR ''.'' \<notin> set ''t1''" by simp
  have "js_split CHR ''.'' (''t1'' @ CHR ''.'' # (n @ CHR ''.'' # (i @ CHR ''.'' # (t @ CHR ''.'' # m)))) = [''t1'', n, i, t, m]"
    unfolding js_split_app [OF t1] js_split_app [OF assms(1)] js_split_app [OF assms(2)] js_split_app [OF assms(3)] js_split_no_sep [OF assms(4)]
    by (rule refl)
  then show ?thesis by simp
qed

lemma show_digits_text [simp]: "digits_text (show_digits n)"
  using show_digits_digits [of n] by (auto simp: digits_text_def list_all_iff)

lemma macInput_inj:
  assumes "b64_codec b64 unb64"
  shows "macInput b64 s n i t = macInput b64 s' n i t \<longleftrightarrow> s = s'"
proof -
  have "b64 s = b64 s' \<longleftrightarrow> s = s'" using assms unfolding b64_codec_def by metis
  then show ?thesis by (simp add: macInput_def)
qed

text \<open>The window of an issued token: not before its issue, within its lifetime and the cap of the service.\<close>

definition in_window :: "csrf_service \<Rightarrow> nat \<Rightarrow> nat \<Rightarrow> bool" where
  "in_window service issued now \<longleftrightarrow> issued \<le> now \<and> of_nat (now - issued) \<le> cs_ttl service
     \<and> \<not> over_cap (cs_maxAge service) (now - issued)"

lemma b64_text:
  assumes "b64_codec b64 unb64"
  shows "CHR ''.'' \<notin> set (b64 d)" and "NUL \<notin> set (b64 d)" and "unb64 (b64 d) = d"
proof -
  have "list_all uri_unreserved (b64 d)" and "CHR ''.'' \<notin> set (b64 d)" and "unb64 (b64 d) = d"
    using assms unfolding b64_codec_def by blast+
  moreover have "\<not> uri_unreserved NUL" by (simp add: NUL_def) code_simp
  ultimately show "CHR ''.'' \<notin> set (b64 d)" "NUL \<notin> set (b64 d)" "unb64 (b64 d) = d" by (auto simp: list_all_iff)
qed

lemma digits_free: "CHR ''.'' \<notin> set (show_digits n)" "NUL \<notin> set (show_digits n)"
  by (rule show_digits_no; simp add: is_digit_def NUL_def)+


text \<open>Different sessions give different MAC inputs, so only a collision of the keyed hash accepts another session's token.\<close>

lemma other_session_collides:
  "b64_codec b64 unb64 \<Longrightarrow> session_text s \<noteq> session_text s' \<Longrightarrow> macInput b64 (session_text s) n i t \<noteq> macInput b64 (session_text s') n i t"
  by (simp add: macInput_inj)

text \<open>A lifetime that prints with a decimal point gives tokens that no call of verify accepts.\<close>

lemma length_js_split: "length (js_split c s) = Suc (count_list s c)"
  by (induction s) (auto split: list.split)

lemma fractional_ttl_never_verifies:
  assumes "CHR ''.'' \<in> set (num_text (cs_ttl service))"
  shows "\<not> csrf_verify hmac b64 unb64 service' now (csrf_issue hmac b64 num_text service random issued session) session'"
proof -
  let ?t = "csrf_issue hmac b64 num_text service random issued session"
  have "0 < count_list (num_text (cs_ttl service)) CHR ''.''" using assms by (simp add: count_list_0_iff neq0_conv [symmetric] del: neq0_conv)
  then have "5 < length (js_split CHR ''.'' ?t)" by (simp add: length_js_split csrf_issue_def Let_def)
  then show ?thesis by (auto simp: csrf_verify_def split: list.split)
qed

definition hour_service :: csrf_service where
  "hour_service = \<lparr>cs_ttl = of_nat 3600000, cs_maxAge = Some 1000\<rparr>"

definition whole_text :: "rat \<Rightarrow> string" where "whole_text r = show_digits (nat \<lfloor>r\<rfloor>)"


text \<open>The guard lets an unsafe request through only when the service accepts its token for its session.\<close>

lemma csrfTokenGuard_admits:
  "m \<notin> set SAFE_METHODS \<Longrightarrow> csrfTokenGuard verify req m token session = Inr () \<longleftrightarrow>
     token \<noteq> [] \<and> (req \<longrightarrow> session \<noteq> None) \<and> verify token session"
  by (simp add: csrfTokenGuard_def forbid_def)

lemma fractional_ttl_accepted:
  "csrfToken \<lparr>ct_secret = ''k'', ct_expiresIn = Some (Finite (3001 / 2)), ct_maxAge = None\<rparr> = Inr \<lparr>cs_ttl = 3001 / 2, cs_maxAge = None\<rparr>"
  by (simp add: csrfToken_def positive_number_def)

end
