(* ===== verification/Spec2Isabelle.thy ===== *)
theory Spec2Isabelle
  imports Close LifecycleCorrect ApplicationCorrect Dispatch CookiesCorrect IpRestriction RateLimit TrustedHosts PathSafety Conditional NegotiationCorrect CacheCorrect
    ContextPoolCorrect Guards CsrfToken
begin

text \<open>
  A verification development for keala, an HTTP application framework in TypeScript. The code under src/src is
  translated component by component into executable definitions; the theorems state what each component promises.

  How the program works. An application (core/app.ts) is set up by registering routes, middleware, sinks, sockets
  and sub-applications. Registration compiles every route pattern (router/pattern.ts), files it in a trie and in
  faster tables (router/trie.ts, router/match.ts, router/bucket-regex.ts, router/router.ts) and compiles for every
  route the chain of middleware that can apply to it (core/middleware-stack.ts). A request passes the admission gate
  (core/lifecycle.ts), the host whitelist (core/trusted-hosts.ts), is matched and dispatched (core/dispatch.ts),
  runs its chain (core/compose.ts) over a context whose request side is core/context/request.ts and whose headers
  are core/context/headers.ts, and is finalized (core/respond.ts); every failure goes through the error funnel
  (core/error-response.ts). Middleware and plugins (middleware, plugins) are clients of the context.

  Conventions (theory Prelude). A JavaScript string is the list of the bytes of its UTF-8 form; a Map is an
  insertion-ordered association list (\<open>js_map\<close>); a call that may throw returns \<open>js_error + 'a\<close>, and a stateful
  operation returns the new state with it, also when it throws. Handlers, responses and bodies are values of a type
  parameter or identities. Promises are modelled where their order matters (Lifecycle, Close) as explicit events.

  Theories, in the order of the code:

  Prelude, Strings, Uri: strings, numerals, trimming, maps, percent-encoding with its codec contract (locale
  \<open>uri_codec\<close>, interpreted on \<open>encodeURIComponent\<close>) and the map contract (locale \<open>ordered_map\<close>).
  Pattern: compilePattern, patternsOverlap; \<open>pat_matches\<close> is the reference meaning of a pattern, and the overlap
  test never misses a request both patterns answer.
  Trie, TrieInsert, TrieCorrect: the trie, its insertion and the explicit-stack matcher; the matcher finds a route if
  and only if a registered pattern matches, and among plain routes the preferred one.
  FastMatch: the slice matcher and the table regular expression as an interpreter of its syntax tree.
  MiddlewareStack, MiddlewareCorrect: scopes, the fallback chains and the planned route chains; the planned chain is
  the layers whose scope covers the request, and a use() without plugins is all or nothing.
  Router, RouterCorrect: the index and its rebuild, transactional registration and the memoized fast index.
  UrlBuild, Group, Registration: URL building, groups and redirects, verbs, sockets and mounting; built URLs are
  matched by their route, accepted redirects serve, mounting preserves scopes, socket tables stay consistent.
  Sinks, Application, ApplicationCorrect: sinks in the host's native routing table with the directory audit, and the
  setup calls of an application as a state machine whose invariant is that the native table bypasses nothing.
  Lifecycle, LifecycleCorrect, Close: admission strategies (locale \<open>admission_strategy\<close>, interpreted on the two of
  the code), waiters, drain and close, as an inductive step relation with invariants over its reachable states.
  Compose, Headers, Respond, Errors, ErrorFunnel: the chain runner, header writes, the finalizer and the funnel.
  Url, Query, RequestView, Dispatch: request URL slicing, the query reader, memoized request views and dispatch.
  TrustedHosts, PathSafety, Conditional: host whitelist, path containment and link audit, conditional requests.
  RateLimit (locale \<open>rate_store\<close>, interpreted on the memory store), IpRestriction, Cookies, CookiesCorrect: middleware
  and the cookie plugin.
  Negotiation, NegotiationCorrect: the MIME tables, weighted preference headers and the choice among provided values,
  with the gzip gate; the choice is optimal and the fast lanes agree with the parser.
  Cache, CacheCorrect: the response cache as two atomic steps per request, over runs that interleave them; budgets
  hold and a hit replays a recent eligible capture of the same host, path and query.
  ContextPool, ContextPoolCorrect: context objects over their prototypes, decorations, reset, and the pool as a step
  relation over middleware levels and floating branches; a recycled context reads like a new one, and a pooled one
  is quiet.
  Guards: basic, bearer and API-key authentication with the constant-time comparison.
  CsrfToken: signed CSRF tokens, bound to their session and window, and their guard.

  Abstract specifications: \<open>pat_matches\<close> for matching, \<open>mw_runs\<close> and \<open>in_scope\<close> for middleware, the counting of
  admitted requests for the rate limiter, the address family and prefix bits for CIDR rules, the list of decoded
  pairs for a query string, the list of requested attributes for a cookie, the general chain for the direct dispatch.

  Termination. The trie matcher terminates by the weight of its stack (Trie), the overlap test by the lengths of the
  patterns, the percent decoders by the length of the input, the directory audit by the depth still allowed and the
  entries left, refilling from the queue by the number of waiters. The query scan is a partial function
  (None is not returning) and is proved to return for every key that is not empty. No fuel is used.

  Parameters. The RegExp engine of user-written constraints (\<open>re_ok\<close>, \<open>rx\<close>), the URL parser behind the whitelist
  (\<open>url_hostname\<close>), \<open>Date.parse\<close> (\<open>date_parse\<close>), the file system (\<open>lstat\<close>, \<open>readdir\<close>, \<open>resolve\<close>), the keyed hash and
  base64url (\<open>hmac\<close>, \<open>b64\<close>, \<open>unb64\<close>), the rounding of a decimal numeral to a double (\<open>fl\<close>), clocks, and the closures registration builds (\<open>upgrade_h\<close>, \<open>redirect_h\<close>,
  \<open>mirror_h\<close>), which are functions of what the closure captures.

  Not modelled. The sockets, adapters and server start-up (adapters, core/listen.ts) are I/O; the token middleware
  (jwt, jwks, webhook) and body parsing rest on the runtime's cryptography and streams; prebuilt responses
  (core/response-plan.ts, core/response-snapshot.ts) and the response sugar are construction shortcuts around the
  finalizer modelled here; CORS, etag and compress, static files, metrics and the helpers are not covered. The pooling
  guarantee excludes a handler that calls \<open>next()\<close> after it returned. The development-mode warnings only log.

  Behaviour that falls short of what the code documents is kept as it is and shown by lemmas at the end of the
  theories: \<open>optional_prefix_skips_guard\<close>, \<open>wildcard_redirect_fails\<close>, \<open>late_content_type_lost\<close>,
  \<open>comma_tag_never_matches\<close>, \<open>raw_form_confusion\<close>, \<open>direct_empty_status_unsanitized\<close>, \<open>sunk_content_type_doubled\<close>,
  \<open>function_after_plugin_bypassed\<close>, \<open>overwrite_keeps_single\<close>, \<open>refreshed_entry_evicted\<close>, \<open>identity_slot_survives\<close>,
  \<open>fractional_ttl_never_verifies\<close>.
\<close>

end
